(* ===== verification/Py_Prelude.thy ===== *)
theory Py_Prelude
  imports Main "HOL-Library.Multiset" "HOL-Library.Char_ord" "HOL-Library.List_Lexorder"
begin

text \<open>
  What every component of the presence logger shares: Python's exceptions as values, the
  sequencing of fallible steps, and generic facts on lists that the stores and the loops use.
\<close>

section \<open>Lemma collections\<close>

named_theorems row_laws \<open>what the operations of a row store keep\<close>
named_theorems step_laws \<open>what one step of a component keeps\<close>

section \<open>Exceptions as values\<close>

text \<open>
  A Python function that can raise returns \<open>Inl e\<close> for the exception and \<open>Inr v\<close> for the
  value. \<open>TypeMismatch\<close> is not a Python exception: it marks the inputs on which the code goes
  on with a value of another type than its annotation declares, where the model stops.
\<close>

datatype py_exc =
    ValueError
  | TypeError
  | KeyError
  | AttributeError
  | IndexError
  | OverflowError
  | RuntimeError
  | IntegrityError
  | OSError
  | ZeroDivisionError
  | TypeMismatch

type_synonym 'a py = "py_exc + 'a"

definition py_bind :: "'e + 'a \<Rightarrow> ('a \<Rightarrow> 'e + 'b) \<Rightarrow> 'e + 'b" where
  "py_bind m f = (case m of Inl e \<Rightarrow> Inl e | Inr x \<Rightarrow> f x)"

lemma py_bind_simps [simp]:
  "py_bind (Inl e) f = Inl e"
  "py_bind (Inr x) f = f x"
  by (simp_all add: py_bind_def)

lemma py_bind_Inr_iff:
  "py_bind m f = Inr y \<longleftrightarrow> (\<exists>x. m = Inr x \<and> f x = Inr y)"
  by (cases m) auto

lemma py_bind_InrE:
  assumes "py_bind m f = Inr y"
  obtains x where "m = Inr x" and "f x = Inr y"
  using assms by (auto simp: py_bind_Inr_iff)

lemma py_bind_Inl_iff:
  "py_bind m f = Inl e \<longleftrightarrow> m = Inl e \<or> (\<exists>x. m = Inr x \<and> f x = Inl e)"
  by (cases m) auto

definition isl_ok :: "'e + 'a \<Rightarrow> bool" where
  "isl_ok m = (case m of Inl _ \<Rightarrow> False | Inr _ \<Rightarrow> True)"

lemma isl_ok_simps [simp]: "isl_ok (Inr x)" "\<not> isl_ok (Inl e)"
  by (simp_all add: isl_ok_def)

text \<open>Python's \<open>a or b\<close> on an optional string: \<open>None\<close> and the empty string are falsy.\<close>

definition truthy_str :: "string option \<Rightarrow> bool" where
  "truthy_str s = (case s of None \<Rightarrow> False | Some t \<Rightarrow> t \<noteq> [])"

lemma truthy_str_simps [simp]:
  "\<not> truthy_str None" "truthy_str (Some t) \<longleftrightarrow> t \<noteq> []"
  by (simp_all add: truthy_str_def)

definition or_else :: "string option \<Rightarrow> string \<Rightarrow> string" where
  "or_else s d = (case s of None \<Rightarrow> d | Some t \<Rightarrow> if t = [] then d else t)"

section \<open>Lists\<close>

lemma map_id_on: "(\<And>x. x \<in> set xs \<Longrightarrow> f x = x) \<Longrightarrow> map f xs = xs"
  by (simp add: map_idI)

lemma distinct_map_filter: "distinct (map f xs) \<Longrightarrow> distinct (map f (filter P xs))"
  by (induction xs) auto

lemma find_map_preserve:
  assumes "\<And>x. key (f x) = key x"
  shows "find (\<lambda>x. key x = k) (map f xs) = map_option f (find (\<lambda>x. key x = k) xs)"
  using assms by (induction xs) auto

lemma find_append: "find P (xs @ ys) = (case find P xs of None \<Rightarrow> find P ys | Some x \<Rightarrow> Some x)"
  by (induction xs) auto

lemma find_key_Some_iff:
  assumes "distinct (map key xs)"
  shows "find (\<lambda>x. key x = k) xs = Some r \<longleftrightarrow> r \<in> set xs \<and> key r = k"
  using assms by (induction xs) (auto simp: rev_image_eqI)

lemma find_key_None_iff: "find (\<lambda>x. key x = k) xs = None \<longleftrightarrow> k \<notin> key ` set xs"
  by (auto simp: find_None_iff)

lemma find_filter_key:
  assumes "distinct (map key xs)"
  shows "find (\<lambda>x. key x = k) (filter P xs)
    = (case find (\<lambda>x. key x = k) xs of None \<Rightarrow> None | Some r \<Rightarrow> if P r then Some r else None)"
  using assms
proof (induction xs)
  case Nil
  then show ?case by simp
next
  case (Cons x xs)
  show ?case
  proof (cases "key x = k")
    case True
    with Cons.prems have "k \<notin> key ` set (filter P xs)" by auto
    with True show ?thesis by (auto simp: find_key_None_iff)
  next
    case False
    with Cons show ?thesis by simp
  qed
qed

lemma fold_invariant_list:
  assumes "\<And>x s. x \<in> set xs \<Longrightarrow> I s \<Longrightarrow> I (f x s)" and "I s"
  shows "I (fold f xs s)"
  using assms by (induction xs arbitrary: s) auto

lemma sorted_wrt_take: "sorted_wrt R xs \<Longrightarrow> sorted_wrt R (take n xs)"
  by (metis append_take_drop_id sorted_wrt_append)

end
