(* ===== verification/Py_Text.thy ===== *)
theory Py_Text
  imports Py_Prelude
begin

text \<open>
  The operations of Python's \<open>str\<close> that the code uses. A \<open>char\<close> stands for the code point
  below 256 with its number, so white space, line ends, digits and case are those of the
  Unicode tables on that range; text outside it is not representable here. Order is
  lexicographic by code point, which is SQLite's binary collation of TEXT on ASCII text.
\<close>

abbreviation code :: "char \<Rightarrow> nat" where
  "code c \<equiv> of_char c"

section \<open>White space and line ends\<close>

definition is_space :: "char \<Rightarrow> bool" where
  "is_space c = (let n = code c in (9 \<le> n \<and> n \<le> 13) \<or> (28 \<le> n \<and> n \<le> 32) \<or> n = 133 \<or> n = 160)"

definition lstrip :: "string \<Rightarrow> string" where
  "lstrip s = dropWhile is_space s"

definition rstrip :: "string \<Rightarrow> string" where
  "rstrip s = rev (dropWhile is_space (rev s))"

definition strip :: "string \<Rightarrow> string" where
  "strip s = rstrip (lstrip s)"

definition is_newline :: "char \<Rightarrow> bool" where
  "is_newline c = (let n = code c in (10 \<le> n \<and> n \<le> 13) \<or> (28 \<le> n \<and> n \<le> 30) \<or> n = 133)"

text \<open>\<open>str.splitlines()\<close>: no empty line after a final line end; CR LF is one end.\<close>

definition drop_lf :: "char \<Rightarrow> string \<Rightarrow> string" where
  "drop_lf c cs = (if code c = 13 then (case cs of [] \<Rightarrow> [] | d # ds \<Rightarrow> if code d = 10 then ds else cs) else cs)"

lemma length_drop_lf [termination_simp]: "length (drop_lf c cs) < Suc (length cs)"
  by (auto simp: drop_lf_def split: list.split)

fun splitlines_acc :: "string \<Rightarrow> string \<Rightarrow> string list" where
  "splitlines_acc [] buf = (if buf = [] then [] else [rev buf])"
| "splitlines_acc (c # cs) buf =
     (if is_newline c then rev buf # splitlines_acc (drop_lf c cs) []
      else splitlines_acc cs (c # buf))"

definition splitlines :: "string \<Rightarrow> string list" where
  "splitlines s = splitlines_acc s []"

text \<open>\<open>str.split(c)\<close> with a one-character separator: \<open>n\<close> separators make \<open>n + 1\<close> parts.\<close>

fun split_on :: "char \<Rightarrow> string \<Rightarrow> string list" where
  "split_on sep [] = [[]]"
| "split_on sep (c # cs) =
     (if c = sep then [] # split_on sep cs
      else (case split_on sep cs of [] \<Rightarrow> [[c]] | p # ps \<Rightarrow> (c # p) # ps))"

fun join_with :: "string \<Rightarrow> string list \<Rightarrow> string" where
  "join_with sep [] = []"
| "join_with sep [x] = x"
| "join_with sep (x # y # ys) = x @ sep @ join_with sep (y # ys)"

text \<open>\<open>str.partition(c)\<close>: the text before the first separator, whether there is one, the rest.\<close>

fun partition_on :: "char \<Rightarrow> string \<Rightarrow> string \<times> bool \<times> string" where
  "partition_on sep [] = ([], False, [])"
| "partition_on sep (c # cs) =
     (if c = sep then ([], True, cs)
      else (case partition_on sep cs of (a, b, r) \<Rightarrow> (c # a, b, r)))"

fun starts_with :: "string \<Rightarrow> string \<Rightarrow> bool" where
  "starts_with [] s = True"
| "starts_with (p # ps) [] = False"
| "starts_with (p # ps) (c # cs) = (p = c \<and> starts_with ps cs)"

definition ends_with :: "string \<Rightarrow> string \<Rightarrow> bool" where
  "ends_with suf s = starts_with (rev suf) (rev s)"

definition lower_char :: "char \<Rightarrow> char" where
  "lower_char c = (let n = code c in
     if (65 \<le> n \<and> n \<le> 90) \<or> (192 \<le> n \<and> n \<le> 222 \<and> n \<noteq> 215) then char_of (n + 32) else c)"

definition lower :: "string \<Rightarrow> string" where
  "lower s = map lower_char s"

lemma starts_with_iff: "starts_with p s \<longleftrightarrow> (\<exists>r. s = p @ r)"
  by (induction p s rule: starts_with.induct) auto

lemma starts_with_append [simp]: "starts_with p (p @ r)"
  by (simp add: starts_with_iff)

lemma partition_on_spec:
  "partition_on sep s = (a, b, r) \<Longrightarrow> s = a @ (if b then sep # r else []) \<and> sep \<notin> set a \<and> (\<not> b \<longrightarrow> r = [])"
  by (induction s arbitrary: a) (auto split: if_splits prod.splits)

lemma partition_on_first: "sep \<notin> set a \<Longrightarrow> partition_on sep (a @ sep # r) = (a, True, r)"
  by (induction a) auto

lemma split_on_nonempty [simp]: "split_on sep s \<noteq> []"
  by (cases s) (auto split: list.splits)

lemma join_split: "join_with [sep] (split_on sep s) = s"
proof (induction s)
  case Nil
  then show ?case by simp
next
  case (Cons c cs)
  obtain p ps where "split_on sep cs = p # ps" by (cases "split_on sep cs") simp_all
  with Cons show ?case by (cases ps) auto
qed

lemma split_on_parts: "p \<in> set (split_on sep s) \<Longrightarrow> sep \<notin> set p"
proof (induction s arbitrary: p)
  case Nil
  then show ?case by simp
next
  case (Cons c cs)
  obtain q qs where "split_on sep cs = q # qs" by (cases "split_on sep cs") simp_all
  with Cons show ?case by (auto split: if_splits)
qed

lemma strip_idem: "(\<forall>c \<in> set s. \<not> is_space c) \<Longrightarrow> strip s = s"
proof -
  assume a: "\<forall>c \<in> set s. \<not> is_space c"
  then have "lstrip s = s" by (cases s) (auto simp: lstrip_def)
  moreover from a have "\<forall>c \<in> set (rev s). \<not> is_space c" by simp
  then have "dropWhile is_space (rev s) = rev s" by (cases "rev s") auto
  ultimately show ?thesis by (simp add: strip_def rstrip_def)
qed

text \<open>What \<open>strip\<close> leaves has no white space at its ends, and only then nothing is stripped.\<close>

lemma lstrip_last: "lstrip s \<noteq> [] \<Longrightarrow> last (lstrip s) = last s"
  unfolding lstrip_def by (metis last_append takeWhile_dropWhile_id)

lemma rstrip_hd: "rstrip s \<noteq> [] \<Longrightarrow> hd (rstrip s) = hd s"
  unfolding rstrip_def by (metis hd_rev last_append rev_is_Nil_conv rev_rev_ident takeWhile_dropWhile_id hd_rev last_rev)

lemma strip_ends:
  assumes "strip s \<noteq> []"
  shows "\<not> is_space (hd (strip s))" and "\<not> is_space (last (strip s))"
proof -
  have ne: "lstrip s \<noteq> []" using assms by (auto simp: strip_def rstrip_def)
  show "\<not> is_space (hd (strip s))"
    using rstrip_hd [of "lstrip s"] assms ne hd_dropWhile [of is_space s] unfolding strip_def lstrip_def by auto
  show "\<not> is_space (last (strip s))"
    using assms hd_dropWhile [of is_space "rev (lstrip s)"] unfolding strip_def rstrip_def last_rev by auto
qed

lemma strip_noop:
  assumes "s = [] \<or> \<not> is_space (hd s) \<and> \<not> is_space (last s)"
  shows "strip s = s"
proof (cases "s = []")
  case True
  then show ?thesis by (simp add: strip_def lstrip_def rstrip_def)
next
  case False
  then have "lstrip s = s" using assms by (cases s) (simp_all add: lstrip_def)
  moreover have "dropWhile is_space (rev s) = rev s" using False assms by (cases "rev s") (simp_all add: hd_rev [symmetric] del: hd_rev)
  ultimately show ?thesis by (simp add: strip_def rstrip_def)
qed

lemma strip_strip [simp]: "strip (strip s) = strip s"
  by (rule strip_noop) (use strip_ends in blast)

lemma strip_subset: "set (strip s) \<subseteq> set s"
  unfolding strip_def lstrip_def rstrip_def by (auto dest!: set_dropWhileD)

lemma split_on_no_sep: "sep \<notin> set p \<Longrightarrow> split_on sep p = [p]"
  by (induction p) auto

lemma split_on_append: "sep \<notin> set p \<Longrightarrow> split_on sep (p @ sep # r) = p # split_on sep r"
  by (induction p) auto

lemma split_join: "ps \<noteq> [] \<Longrightarrow> \<forall>p \<in> set ps. sep \<notin> set p \<Longrightarrow> split_on sep (join_with [sep] ps) = ps"
proof (induction "[sep]" ps rule: join_with.induct)
  case (3 x y ys)
  then show ?case using split_on_append [of sep x] by simp
qed (simp_all add: split_on_no_sep)

lemma splitlines_acc_line:
  assumes "\<forall>c \<in> set l. \<not> is_newline c"
  shows "splitlines_acc (l @ CHR 0x0A # r) buf = (rev buf @ l) # splitlines_acc r []"
  using assms
proof (induction l arbitrary: buf)
  case Nil
  have "is_newline CHR 0x0A" "drop_lf CHR 0x0A r = r" by (simp_all add: is_newline_def drop_lf_def)
  then show ?case by simp
next
  case (Cons c l)
  then show ?case by simp
qed

lemma splitlines_lines:
  assumes "\<forall>l \<in> set ls. \<forall>c \<in> set l. \<not> is_newline c"
  shows "splitlines (concat (map (\<lambda>l. l @ [CHR 0x0A]) ls)) = ls"
  using assms by (induction ls) (simp_all add: splitlines_def splitlines_acc_line)

section \<open>Decimal digits\<close>

definition digit_val :: "char \<Rightarrow> nat option" where
  "digit_val c = (let n = code c in if 48 \<le> n \<and> n \<le> 57 then Some (n - 48) else None)"

definition is_digit :: "char \<Rightarrow> bool" where
  "is_digit c = (digit_val c \<noteq> None)"

definition digit_char :: "nat \<Rightarrow> char" where
  "digit_char d = char_of (48 + d)"

lemma code_digit_char [simp]: "d < 10 \<Longrightarrow> code (digit_char d) = 48 + d"
  by (simp add: digit_char_def)

lemma digit_val_char [simp]: "d < 10 \<Longrightarrow> digit_val (digit_char d) = Some d"
  by (simp add: digit_val_def)

lemma is_digit_char [simp]: "d < 10 \<Longrightarrow> is_digit (digit_char d)"
  by (simp add: is_digit_def)

lemma is_digit_not_space: "is_digit c \<Longrightarrow> \<not> is_space c"
  by (auto simp: is_digit_def digit_val_def is_space_def Let_def split: if_splits)

text \<open>The decimal text of a number, as \<open>str(n)\<close>.\<close>

fun nat_text :: "nat \<Rightarrow> string" where
  "nat_text n = (if n < 10 then [digit_char n] else nat_text (n div 10) @ [digit_char (n mod 10)])"

declare nat_text.simps [simp del]

definition int_text :: "int \<Rightarrow> string" where
  "int_text i = (if i < 0 then CHR ''-'' # nat_text (nat (- i)) else nat_text (nat i))"

text \<open>
  \<open>int(s)\<close> for a string: white space around it, a sign, digits with single underscores between
  them. \<open>None\<close> is the \<open>ValueError\<close>.
\<close>

fun int_digits :: "string \<Rightarrow> nat \<Rightarrow> nat option" where
  "int_digits [] acc = Some acc"
| "int_digits (c # cs) acc =
     (case digit_val c of
        Some d \<Rightarrow> int_digits cs (10 * acc + d)
      | None \<Rightarrow>
          if c = CHR ''_'' then
            (case cs of [] \<Rightarrow> None
             | c' # cs' \<Rightarrow> (case digit_val c' of Some d \<Rightarrow> int_digits cs' (10 * acc + d) | None \<Rightarrow> None))
          else None)"

definition int_body :: "string \<Rightarrow> nat option" where
  "int_body s = (case s of [] \<Rightarrow> None
     | c # cs \<Rightarrow> (case digit_val c of None \<Rightarrow> None | Some d \<Rightarrow> int_digits cs d))"

definition int_of_text :: "string \<Rightarrow> int option" where
  "int_of_text s =
     (case strip s of [] \<Rightarrow> None
      | c # cs \<Rightarrow>
          if c = CHR ''-'' then map_option (\<lambda>n. - int n) (int_body cs)
          else if c = CHR ''+'' then map_option int (int_body cs)
          else map_option int (int_body (c # cs)))"

lemma nat_text_digits: "\<forall>c \<in> set (nat_text n). is_digit c"
  by (induction n rule: nat_text.induct) (subst nat_text.simps, auto)

lemma nat_text_nonempty [simp]: "nat_text n \<noteq> []"
  by (subst nat_text.simps) simp

lemma int_digits_append:
  assumes "\<forall>c \<in> set xs. is_digit c"
  shows "int_digits (xs @ ys) acc = (case int_digits xs acc of None \<Rightarrow> None | Some a \<Rightarrow> int_digits ys a)"
  using assms by (induction xs arbitrary: acc) (auto simp: is_digit_def split: option.splits)

lemma int_digits_nat_text: "int_digits (nat_text n) 0 = Some n"
proof (induction n rule: nat_text.induct)
  case (1 n)
  show ?case
  proof (cases "n < 10")
    case True
    then show ?thesis by (subst nat_text.simps) simp
  next
    case False
    with 1 have "int_digits (nat_text (n div 10)) 0 = Some (n div 10)" by simp
    with False show ?thesis
      by (subst nat_text.simps) (simp add: int_digits_append nat_text_digits)
  qed
qed

lemma int_body_nat_text: "int_body (nat_text n) = Some n"
proof -
  obtain c cs where s: "nat_text n = c # cs" by (cases "nat_text n") simp_all
  with nat_text_digits [of n] obtain d where "digit_val c = Some d" by (auto simp: is_digit_def)
  moreover from int_digits_nat_text [of n] s calculation have "int_digits cs d = Some n" by simp
  ultimately show ?thesis using s by (simp add: int_body_def)
qed

lemma nat_text_hd: "nat_text n = c # cs \<Longrightarrow> c \<noteq> CHR ''-'' \<and> c \<noteq> CHR ''+''"
  using nat_text_digits [of n] by (auto simp: is_digit_def digit_val_def)

lemma strip_nat_text [simp]: "strip (nat_text n) = nat_text n"
  using nat_text_digits [of n] by (intro strip_idem) (blast dest: is_digit_not_space)

lemma nat_text_inj [simp]: "nat_text a = nat_text b \<longleftrightarrow> a = b"
  by (metis int_digits_nat_text option.inject)

lemma int_text_roundtrip: "int_of_text (int_text i) = Some i"
proof (cases "i < 0")
  case True
  have "strip (CHR ''-'' # nat_text (nat (- i))) = CHR ''-'' # nat_text (nat (- i))"
    using nat_text_digits [of "nat (- i)"] is_digit_not_space
    by (intro strip_idem) (auto simp: is_space_def)
  with True show ?thesis by (simp add: int_of_text_def int_text_def int_body_nat_text)
next
  case False
  obtain c cs where s: "nat_text (nat i) = c # cs" by (cases "nat_text (nat i)") simp_all
  with False nat_text_hd [OF s] int_body_nat_text [of "nat i"] strip_nat_text [of "nat i"]
  show ?thesis by (simp add: int_of_text_def int_text_def)
qed

text \<open>A number in exactly \<open>w\<close> digits, as \<open>strftime\<close> and \<open>isoformat\<close> write the fields.\<close>

fun pad :: "nat \<Rightarrow> nat \<Rightarrow> string" where
  "pad 0 n = []"
| "pad (Suc w) n = pad w (n div 10) @ [digit_char (n mod 10)]"

lemma length_pad [simp]: "length (pad w n) = w"
  by (induction w arbitrary: n) simp_all

lemma pad_digits: "\<forall>c \<in> set (pad w n). is_digit c"
  by (induction w arbitrary: n) auto

section \<open>The lexicographic order\<close>

lemma append_less_iff:
  fixes xs ys us vs :: string
  assumes "length xs = length ys"
  shows "xs @ us < ys @ vs \<longleftrightarrow> xs < ys \<or> xs = ys \<and> us < vs"
  using assms by (induction xs ys rule: list_induct2) auto

lemma append_same_less: "(xs @ us < xs @ vs) = (us < (vs :: string))"
  by (simp add: append_less_iff)

lemma digit_char_less: "a < 10 \<Longrightarrow> b < 10 \<Longrightarrow> digit_char a < digit_char b \<longleftrightarrow> a < b"
  by (simp add: less_char_def)

lemma pad_less: "m < 10 ^ w \<Longrightarrow> n < 10 ^ w \<Longrightarrow> m < n \<Longrightarrow> pad w m < pad w n"
proof (induction w arbitrary: m n)
  case 0
  then show ?case by simp
next
  case (Suc w)
  have range: "m div 10 < 10 ^ w" "n div 10 < 10 ^ w"
    using Suc.prems by (simp_all add: less_mult_imp_div_less)
  show ?case
  proof (cases "m div 10 = n div 10")
    case True
    with \<open>m < n\<close> have "m mod 10 < n mod 10"
      by (metis div_mult_mod_eq nat_add_left_cancel_less)
    with True show ?thesis by (simp add: append_less_iff digit_char_less)
  next
    case False
    with \<open>m < n\<close> have "m div 10 < n div 10" by (simp add: div_le_mono le_neq_implies_less)
    with Suc.IH [OF range] show ?thesis by (simp add: append_less_iff)
  qed
qed

end
