(* ===== verification/Py_Value.thy ===== *)
theory Py_Value
  imports Py_Text Complex_Main
begin

text \<open>
  Python values as JSON and YAML documents hold them, and the conversions the code applies to
  them. A dict is an association list in insertion order with string keys. Floats are exact
  rationals; infinities and NaN are not representable.
\<close>

datatype pyval =
    PNone
  | PBool bool
  | PInt int
  | PFloat rat
  | PStr string
  | PList "pyval list"
  | PDict "(string \<times> pyval) list"

type_synonym 'v dict = "(string \<times> 'v) list"

section \<open>Dicts\<close>

definition dict_get :: "'v dict \<Rightarrow> string \<Rightarrow> 'v option" where
  "dict_get d k = map_of d k"

text \<open>\<open>d[k] = v\<close>: in place for a key that is there, at the end for a new one.\<close>

fun dict_set :: "string \<Rightarrow> 'v \<Rightarrow> 'v dict \<Rightarrow> 'v dict" where
  "dict_set k v [] = [(k, v)]"
| "dict_set k v ((j, w) # d) = (if j = k then (j, v) # d else (j, w) # dict_set k v d)"

definition dict_keys :: "'v dict \<Rightarrow> string list" where
  "dict_keys d = map fst d"

lemma dict_get_set [simp]: "dict_get (dict_set k v d) j = (if j = k then Some v else dict_get d j)"
  by (induction d) (auto simp: dict_get_def)

lemma set_dict_keys_set: "set (dict_keys (dict_set k v d)) = insert k (set (dict_keys d))"
  by (induction k v d rule: dict_set.induct) (simp_all add: dict_keys_def insert_commute)

lemma dict_set_distinct: "distinct (dict_keys d) \<Longrightarrow> distinct (dict_keys (dict_set k v d))"
proof (induction d)
  case Nil
  then show ?case by (simp add: dict_keys_def)
next
  case (Cons p d)
  then show ?case
    using set_dict_keys_set [of k v d] by (cases p) (auto simp: dict_keys_def)
qed

lemma dict_get_None_iff: "dict_get d k = None \<longleftrightarrow> k \<notin> set (dict_keys d)"
  by (simp add: dict_get_def dict_keys_def map_of_eq_None_iff)

lemma dict_get_Some_iff: "distinct (dict_keys d) \<Longrightarrow> dict_get d k = Some v \<longleftrightarrow> (k, v) \<in> set d"
  by (simp add: dict_get_def dict_keys_def)

section \<open>Membership, subscription, conversion\<close>

fun is_infix :: "string \<Rightarrow> string \<Rightarrow> bool" where
  "is_infix p [] = (p = [])"
| "is_infix p (c # cs) = (starts_with p (c # cs) \<or> is_infix p cs)"

text \<open>\<open>k in v\<close> for a string \<open>k\<close>.\<close>

definition py_contains :: "pyval \<Rightarrow> string \<Rightarrow> bool py" where
  "py_contains v k = (case v of
      PDict d \<Rightarrow> Inr (k \<in> set (dict_keys d))
    | PList xs \<Rightarrow> Inr (PStr k \<in> set xs)
    | PStr s \<Rightarrow> Inr (is_infix k s)
    | _ \<Rightarrow> Inl TypeError)"

text \<open>\<open>v[k]\<close> and \<open>v.get(k)\<close> for a string \<open>k\<close>.\<close>

definition py_subscript :: "pyval \<Rightarrow> string \<Rightarrow> pyval py" where
  "py_subscript v k = (case v of
      PDict d \<Rightarrow> (case dict_get d k of None \<Rightarrow> Inl KeyError | Some x \<Rightarrow> Inr x)
    | _ \<Rightarrow> Inl TypeError)"

definition py_get :: "pyval \<Rightarrow> string \<Rightarrow> pyval py" where
  "py_get v k = (case v of
      PDict d \<Rightarrow> Inr (case dict_get d k of None \<Rightarrow> PNone | Some x \<Rightarrow> x)
    | _ \<Rightarrow> Inl AttributeError)"

definition py_truthy :: "pyval \<Rightarrow> bool" where
  "py_truthy v = (case v of PNone \<Rightarrow> False | PBool b \<Rightarrow> b | PInt i \<Rightarrow> i \<noteq> 0 | PFloat q \<Rightarrow> q \<noteq> 0
     | PStr s \<Rightarrow> s \<noteq> [] | PList xs \<Rightarrow> xs \<noteq> [] | PDict d \<Rightarrow> d \<noteq> [])"

text \<open>\<open>int(v)\<close>: floats are truncated towards zero.\<close>

definition trunc_rat :: "rat \<Rightarrow> int" where
  "trunc_rat q = (if 0 \<le> q then \<lfloor>q\<rfloor> else - \<lfloor>- q\<rfloor>)"

definition py_int :: "pyval \<Rightarrow> int py" where
  "py_int v = (case v of
      PInt i \<Rightarrow> Inr i
    | PBool b \<Rightarrow> Inr (if b then 1 else 0)
    | PFloat q \<Rightarrow> Inr (trunc_rat q)
    | PStr s \<Rightarrow> (case int_of_text s of None \<Rightarrow> Inl ValueError | Some i \<Rightarrow> Inr i)
    | _ \<Rightarrow> Inl TypeError)"

text \<open>
  \<open>str(v)\<close>. The texts of floats, lists and dicts are a parameter: nothing the code does depends on
  their form.
\<close>

definition py_str :: "(pyval \<Rightarrow> string) \<Rightarrow> pyval \<Rightarrow> string" where
  "py_str rp v = (case v of
      PStr s \<Rightarrow> s
    | PInt i \<Rightarrow> int_text i
    | PBool b \<Rightarrow> (if b then ''True'' else ''False'')
    | PNone \<Rightarrow> ''None''
    | _ \<Rightarrow> rp v)"

text \<open>The first error of a list of checks stops it: a comprehension that can raise.\<close>

fun py_filter :: "('a \<Rightarrow> bool py) \<Rightarrow> 'a list \<Rightarrow> 'a list py" where
  "py_filter p [] = Inr []"
| "py_filter p (x # xs) =
     py_bind (p x) (\<lambda>b. py_bind (py_filter p xs) (\<lambda>ys. Inr (if b then x # ys else ys)))"

lemma py_filter_total:
  assumes "\<And>x. x \<in> set xs \<Longrightarrow> p x = Inr (q x)"
  shows "py_filter p xs = Inr (filter q xs)"
  using assms by (induction xs) auto

text \<open>The annotated types: the model stops at a value of another one.\<close>

definition as_str :: "pyval \<Rightarrow> string py" where
  "as_str v = (case v of PStr s \<Rightarrow> Inr s | _ \<Rightarrow> Inl TypeMismatch)"

definition as_str_opt :: "pyval \<Rightarrow> string option py" where
  "as_str_opt v = (case v of PStr s \<Rightarrow> Inr (Some s) | PNone \<Rightarrow> Inr None | _ \<Rightarrow> Inl TypeMismatch)"

definition as_score :: "pyval \<Rightarrow> rat option py" where
  "as_score v = (case v of PFloat q \<Rightarrow> Inr (Some q) | PInt i \<Rightarrow> Inr (Some (of_int i)) | PNone \<Rightarrow> Inr None
     | _ \<Rightarrow> Inl TypeMismatch)"

lemma py_contains_dict [simp]: "py_contains (PDict d) k = Inr (k \<in> set (dict_keys d))"
  by (simp add: py_contains_def)

lemma py_subscript_dict [simp]:
  "dict_get d k = Some x \<Longrightarrow> py_subscript (PDict d) k = Inr x"
  by (simp add: py_subscript_def)

lemma py_get_dict [simp]:
  "py_get (PDict d) k = Inr (case dict_get d k of None \<Rightarrow> PNone | Some x \<Rightarrow> x)"
  by (simp add: py_get_def)

end
