(* ===== verification/Bridge_Config.thy ===== *)
theory Bridge_Config
  imports Py_Value
begin

text \<open>
  \<open>services/bridge/src/config.py\<close>: environment variables in the YAML files, the checks of the three
  files, the live UPCMPFLG override and the station numbers of a profile. The YAML reader is a
  library: a file is its parsed value, or missing. Mappings have string keys.
\<close>

text \<open>One constructor per \<open>raise ConfigError\<close>; \<open>CfgRaise\<close> is an exception the checks do not mean to raise.\<close>

datatype config_error =
    CfgFileNotFound
  | CfgTopLevelNotMapping
  | CfgEnvNotSet string
  | CfgMissingSection string
  | CfgSectionNotMapping string
  | CfgMissingKeys string "string list"
  | CfgHostnameMissing
  | CfgClientMode string
  | CfgAuthMode string
  | CfgJdbcNeedsBasic string
  | CfgOracleKeys string "string list"
  | CfgUpcmpflg string
  | CfgStationNotMapping string
  | CfgStationKeys string "string list"
  | CfgWifi string
  | CfgNoProfiles
  | CfgUnknownPolicy
  | CfgNoOracle string
  | CfgNoSntp string
  | CfgSntpServers string
  | CfgRaise py_exc

type_synonym 'a cfg = "config_error + 'a"

definition lift_py :: "'a py \<Rightarrow> 'a cfg" where
  "lift_py m = (case m of Inl e \<Rightarrow> Inl (CfgRaise e) | Inr x \<Rightarrow> Inr x)"

fun map_cfg :: "('a \<Rightarrow> 'b cfg) \<Rightarrow> 'a list \<Rightarrow> 'b list cfg" where
  "map_cfg f [] = Inr []"
| "map_cfg f (x # xs) = py_bind (f x) (\<lambda>y. py_bind (map_cfg f xs) (\<lambda>ys. Inr (y # ys)))"

lemma map_cfg_cong [fundef_cong]:
  "xs = ys \<Longrightarrow> (\<And>x. x \<in> set ys \<Longrightarrow> f x = g x) \<Longrightarrow> map_cfg f xs = map_cfg g ys"
  by (induction xs arbitrary: ys) auto

section \<open>Required keys\<close>

definition ALLOWED_CLIENT_MODES :: "string list" where
  "ALLOWED_CLIENT_MODES = [''thin'', ''thick'', ''jdbc'']"

definition ALLOWED_AUTH_MODES :: "string list" where
  "ALLOWED_AUTH_MODES = [''basic'', ''wallet'']"

definition ALLOWED_UNKNOWN_POLICIES :: "string list" where
  "ALLOWED_UNKNOWN_POLICIES = [''hold'', ''use_last'', ''drop'']"

definition BASIC_REQUIRED :: "string list" where
  "BASIC_REQUIRED = [''host'', ''port'', ''service_name'', ''user'', ''password'']"

definition WALLET_REQUIRED :: "string list" where
  "WALLET_REQUIRED = [''dsn'', ''user'', ''password'', ''wallet_dir'']"

definition JDBC_REQUIRED :: "string list" where
  "JDBC_REQUIRED = [''host'', ''port'', ''service_name'', ''user'', ''password'']"

definition BRIDGE_REQUIRED :: "(string \<times> string list) list" where
  "BRIDGE_REQUIRED =
    [(''mqtt'', [''host'', ''port'', ''qos'', ''topic_event'', ''topic_ack'', ''client_id'']),
     (''oracle'', [''connect_timeout_seconds'', ''query_timeout_seconds'', ''pool_min'', ''pool_max'',
                   ''instant_client_dir'']),
     (''oracle_jdbc'', [''url'', ''connect_timeout_ms'', ''read_timeout_ms'']),
     (''network_watcher'', [''poll_interval_seconds'', ''ssid_command'']),
     (''time_watcher'', [''poll_interval_seconds'', ''sync_command'']),
     (''retry'', [''initial_delay_seconds'', ''max_delay_seconds'', ''multiplier'']),
     (''circuit_breaker'', [''permanent_ora_codes'', ''half_open_after_seconds'']),
     (''buffer'', [''path'', ''max_rows'']),
     (''logging'', [''level'', ''buffer_stats_interval_seconds''])]"

definition STATION_KEYS :: "string list" where
  "STATION_KEYS = [''sta_no1'', ''sta_no2'', ''sta_no3'']"

definition DEVICE_REQUIRED :: "(string \<times> string list) list" where
  "DEVICE_REQUIRED = [(''station'', STATION_KEYS)]"

text \<open>\<open>required - set(d.keys())\<close>, sorted as the messages show it.\<close>

definition missing_keys :: "string list \<Rightarrow> 'v dict \<Rightarrow> string list" where
  "missing_keys required d = sort (filter (\<lambda>k. k \<notin> set (dict_keys d)) required)"

section \<open>Loading\<close>

text \<open>\<open>load_yaml\<close>: \<open>None\<close> is a missing file; an empty one counts as an empty mapping.\<close>

definition load_yaml :: "pyval option \<Rightarrow> pyval dict cfg" where
  "load_yaml f =
     (case f of
        None \<Rightarrow> Inl CfgFileNotFound
      | Some v \<Rightarrow>
          (case (if py_truthy v then v else PDict []) of
             PDict d \<Rightarrow> Inr d
           | _ \<Rightarrow> Inl CfgTopLevelNotMapping))"

text \<open>\<open>\$\{([^}]+)\}\<close> replaced from left to right; the text put in is not scanned again.\<close>

definition env_ref :: "string \<Rightarrow> (string \<times> string) option" where
  "env_ref s =
     (if starts_with ''${'' s then
        (let v = takeWhile (\<lambda>c. c \<noteq> CHR ''}'') (drop 2 s); r = dropWhile (\<lambda>c. c \<noteq> CHR ''}'') (drop 2 s)
         in if v \<noteq> [] \<and> r \<noteq> [] then Some (v, tl r) else None)
      else None)"

lemma env_ref_shorter: "env_ref s = Some (v, r) \<Longrightarrow> length r < length s"
proof -
  assume a: "env_ref s = Some (v, r)"
  then have "r = tl (dropWhile (\<lambda>c. c \<noteq> CHR ''}'') (drop 2 s))" and s: "starts_with ''${'' s"
    by (auto simp: env_ref_def Let_def split: if_splits)
  then have "length r \<le> length s - 2"
    using length_dropWhile_le [of "\<lambda>c. c \<noteq> CHR ''}''" "drop 2 s"] by simp
  moreover have "2 \<le> length s" using s by (auto simp: starts_with_iff)
  ultimately show ?thesis by simp
qed

function expand_text :: "(string \<Rightarrow> string option) \<Rightarrow> string \<Rightarrow> string cfg" where
  "expand_text env s =
     (case env_ref s of
        Some (v, r) \<Rightarrow>
          (case env v of
             None \<Rightarrow> Inl (CfgEnvNotSet v)
           | Some t \<Rightarrow> py_bind (expand_text env r) (\<lambda>q. Inr (t @ q)))
      | None \<Rightarrow>
          (case s of [] \<Rightarrow> Inr [] | c # cs \<Rightarrow> py_bind (expand_text env cs) (\<lambda>q. Inr (c # q))))"
  by pat_completeness auto
termination
  by (relation "measure (\<lambda>(_, s). length s)") (auto dest: env_ref_shorter)

declare expand_text.simps [simp del]

fun expand_env :: "(string \<Rightarrow> string option) \<Rightarrow> pyval \<Rightarrow> pyval cfg" where
  "expand_env env (PStr s) = py_bind (expand_text env s) (\<lambda>t. Inr (PStr t))"
| "expand_env env (PDict d) =
     py_bind (map_cfg (\<lambda>(k, v). py_bind (expand_env env v) (\<lambda>w. Inr (k, w))) d) (\<lambda>d'. Inr (PDict d'))"
| "expand_env env (PList xs) = py_bind (map_cfg (expand_env env) xs) (\<lambda>ys. Inr (PList ys))"
| "expand_env env v = Inr v"

text \<open>A loaded file with its variables expanded; expansion keeps a mapping a mapping.\<close>

definition load_expanded :: "(string \<Rightarrow> string option) \<Rightarrow> pyval option \<Rightarrow> pyval dict cfg" where
  "load_expanded env f =
     py_bind (load_yaml f) (\<lambda>d. py_bind (expand_env env (PDict d)) (\<lambda>v.
       case v of PDict d' \<Rightarrow> Inr d' | _ \<Rightarrow> Inl (CfgRaise TypeMismatch)))"

fun validate_required :: "pyval dict \<Rightarrow> (string \<times> string list) list \<Rightarrow> unit cfg" where
  "validate_required data [] = Inr ()"
| "validate_required data ((section_name, keys) # rest) =
     (case dict_get data section_name of
        None \<Rightarrow> Inl (CfgMissingSection section_name)
      | Some (PDict d) \<Rightarrow>
          (case missing_keys keys d of
             [] \<Rightarrow> validate_required data rest
           | ks \<Rightarrow> Inl (CfgMissingKeys section_name ks))
      | Some _ \<Rightarrow> Inl (CfgSectionNotMapping section_name))"

definition load_bridge_config :: "(string \<Rightarrow> string option) \<Rightarrow> pyval option \<Rightarrow> pyval dict cfg" where
  "load_bridge_config env f =
     py_bind (load_expanded env f) (\<lambda>data.
       py_bind (validate_required data BRIDGE_REQUIRED) (\<lambda>_. Inr data))"

definition read_hostname_file :: "string option \<Rightarrow> string cfg" where
  "read_hostname_file f = (case f of None \<Rightarrow> Inl CfgHostnameMissing | Some t \<Rightarrow> Inr (strip t))"

definition load_device_config :: "(string \<Rightarrow> string option) \<Rightarrow> string option \<Rightarrow> pyval option \<Rightarrow> pyval dict cfg" where
  "load_device_config env hostname f =
     py_bind (load_expanded env f) (\<lambda>data.
       py_bind (validate_required data DEVICE_REQUIRED) (\<lambda>_.
         if (case dict_get data ''device_id'' of None \<Rightarrow> True | Some PNone \<Rightarrow> True | _ \<Rightarrow> False)
         then py_bind (read_hostname_file hostname) (\<lambda>h. Inr (dict_set ''device_id'' (PStr h) data))
         else Inr data))"

text \<open>
  \<open>read_upcmpflg_override\<close>: \<open>None\<close> when the file cannot be opened. Text that is not UTF-8 is not
  caught by the code and is not represented here.
\<close>

definition read_upcmpflg_override :: "string option \<Rightarrow> int option" where
  "read_upcmpflg_override f =
     (case f of None \<Rightarrow> None
      | Some t \<Rightarrow> if strip t = [] then None else int_of_text (strip t))"

section \<open>Profiles\<close>

text \<open>\<open>v in SET\<close> for a set of strings: a list or a mapping is not hashable.\<close>

definition in_string_set :: "pyval \<Rightarrow> string list \<Rightarrow> bool cfg" where
  "in_string_set v allowed =
     (case v of
        PStr s \<Rightarrow> Inr (s \<in> set allowed)
      | PList _ \<Rightarrow> Inl (CfgRaise TypeError)
      | PDict _ \<Rightarrow> Inl (CfgRaise TypeError)
      | _ \<Rightarrow> Inr False)"

definition get_or :: "pyval dict \<Rightarrow> string \<Rightarrow> pyval \<Rightarrow> pyval" where
  "get_or d k v = (case dict_get d k of None \<Rightarrow> v | Some x \<Rightarrow> x)"

definition required_oracle_keys :: "pyval \<Rightarrow> pyval \<Rightarrow> string list" where
  "required_oracle_keys cm am =
     (if cm = PStr ''jdbc'' then JDBC_REQUIRED
      else if am = PStr ''basic'' then BASIC_REQUIRED else WALLET_REQUIRED)"

definition validate_oracle_section :: "string \<Rightarrow> pyval dict \<Rightarrow> unit cfg" where
  "validate_oracle_section name oracle =
     (let cm = get_or oracle ''client_mode'' PNone; am = get_or oracle ''auth_mode'' PNone in
      py_bind (in_string_set cm ALLOWED_CLIENT_MODES) (\<lambda>ok.
        if \<not> ok then Inl (CfgClientMode name)
        else py_bind (in_string_set am ALLOWED_AUTH_MODES) (\<lambda>ok.
          if \<not> ok then Inl (CfgAuthMode name)
          else if cm = PStr ''jdbc'' \<and> am \<noteq> PStr ''basic'' then Inl (CfgJdbcNeedsBasic name)
          else
            (case missing_keys (required_oracle_keys cm am) oracle of
               [] \<Rightarrow>
                 (case dict_get oracle ''upcmpflg'' of
                    None \<Rightarrow> Inr ()
                  | Some (PInt _) \<Rightarrow> Inr ()
                  | Some _ \<Rightarrow> Inl (CfgUpcmpflg name))
             | ks \<Rightarrow> Inl (CfgOracleKeys name ks)))))"

definition validate_optional_station :: "string \<Rightarrow> pyval \<Rightarrow> unit cfg" where
  "validate_optional_station name station =
     (case station of
        PDict d \<Rightarrow> (case missing_keys STATION_KEYS d of [] \<Rightarrow> Inr () | ks \<Rightarrow> Inl (CfgStationKeys name ks))
      | _ \<Rightarrow> Inl (CfgStationNotMapping name))"

definition validate_optional_wifi :: "string \<Rightarrow> pyval \<Rightarrow> unit cfg" where
  "validate_optional_wifi name wifi =
     (case wifi of
        PDict d \<Rightarrow>
          if dict_get d ''psk'' = None then Inl (CfgWifi name)
          else
            (case dict_get d ''static_ipv4'' of
               None \<Rightarrow> Inr ()
             | Some (PDict s) \<Rightarrow>
                 if missing_keys [''address'', ''gateway'', ''dns''] s \<noteq> [] then Inl (CfgWifi name)
                 else (case dict_get s ''dns'' of Some (PList _) \<Rightarrow> Inr () | _ \<Rightarrow> Inl (CfgWifi name))
             | Some _ \<Rightarrow> Inl (CfgWifi name))
      | _ \<Rightarrow> Inl (CfgWifi name))"

text \<open>\<open>k not in p or not isinstance(p[k], dict)\<close>: the mapping under \<open>k\<close>, or the error given.\<close>

definition need_mapping :: "config_error \<Rightarrow> pyval \<Rightarrow> string \<Rightarrow> pyval dict cfg" where
  "need_mapping err p k =
     py_bind (lift_py (py_contains p k)) (\<lambda>there.
       if \<not> there then Inl err
       else py_bind (lift_py (py_subscript p k)) (\<lambda>v.
         case v of PDict d \<Rightarrow> Inr d | _ \<Rightarrow> Inl err))"

definition validate_if_present :: "(string \<Rightarrow> pyval \<Rightarrow> unit cfg) \<Rightarrow> string \<Rightarrow> pyval \<Rightarrow> string \<Rightarrow> unit cfg" where
  "validate_if_present check name profile k =
     py_bind (lift_py (py_contains profile k)) (\<lambda>there.
       if there then py_bind (lift_py (py_subscript profile k)) (check name) else Inr ())"

definition validate_profile :: "string \<times> pyval \<Rightarrow> unit cfg" where
  "validate_profile = (\<lambda>(name, profile).
     py_bind (need_mapping (CfgNoOracle name) profile ''oracle'') (\<lambda>oracle.
     py_bind (need_mapping (CfgNoSntp name) profile ''sntp'') (\<lambda>sntp.
     case dict_get sntp ''servers'' of
       Some (PList _) \<Rightarrow>
         py_bind (validate_oracle_section name oracle) (\<lambda>_.
         py_bind (validate_if_present validate_optional_station name profile ''station'') (\<lambda>_.
         validate_if_present validate_optional_wifi name profile ''wifi''))
     | _ \<Rightarrow> Inl (CfgSntpServers name))))"

definition load_profiles_config :: "(string \<Rightarrow> string option) \<Rightarrow> pyval option \<Rightarrow> pyval dict cfg" where
  "load_profiles_config env f =
     py_bind (load_expanded env f) (\<lambda>data.
       case dict_get data ''profiles'' of
         Some (PDict profiles) \<Rightarrow>
           (let policy = get_or data ''unknown_ssid_policy'' (PStr ''hold'') in
            py_bind (in_string_set policy ALLOWED_UNKNOWN_POLICIES) (\<lambda>ok.
              if \<not> ok then Inl CfgUnknownPolicy
              else py_bind (map_cfg validate_profile profiles)
                (\<lambda>_. Inr (dict_set ''unknown_ssid_policy'' policy data))))
       | _ \<Rightarrow> Inl CfgNoProfiles)"

definition station_for_profile :: "pyval \<Rightarrow> pyval dict \<Rightarrow> pyval py" where
  "station_for_profile profile device_cfg =
     py_bind (py_get profile ''station'') (\<lambda>s.
       case s of PDict d \<Rightarrow> Inr (PDict d)
       | _ \<Rightarrow> (case dict_get device_cfg ''station'' of None \<Rightarrow> Inl KeyError | Some v \<Rightarrow> Inr v))"

text \<open>\<open>any(...)\<close> over the profiles.\<close>

fun needs_thick_mode :: "pyval dict \<Rightarrow> bool py" where
  "needs_thick_mode [] = Inr False"
| "needs_thick_mode ((name, p) # ps) =
     py_bind (py_subscript p ''oracle'') (\<lambda>o'. py_bind (py_get o' ''client_mode'') (\<lambda>cm.
       if cm = PStr ''thick'' then Inr True else needs_thick_mode ps))"

definition profile_servers :: "pyval \<Rightarrow> pyval list py" where
  "profile_servers p =
     py_bind (py_subscript p ''sntp'') (\<lambda>s. py_bind (py_subscript s ''servers'') (\<lambda>xs.
       case xs of PList l \<Rightarrow> Inr l | _ \<Rightarrow> Inl TypeMismatch))"

definition add_unseen :: "pyval \<Rightarrow> pyval list \<Rightarrow> pyval list" where
  "add_unseen s seen = (if s \<in> set seen then seen else seen @ [s])"

fun list_sntp_from :: "pyval dict \<Rightarrow> pyval list \<Rightarrow> pyval list py" where
  "list_sntp_from [] seen = Inr seen"
| "list_sntp_from ((name, p) # ps) seen =
     py_bind (profile_servers p) (\<lambda>xs. list_sntp_from ps (fold add_unseen xs seen))"

definition list_all_sntp_servers :: "pyval dict \<Rightarrow> pyval list py" where
  "list_all_sntp_servers profiles = list_sntp_from profiles []"

section \<open>Facts\<close>

lemma lift_py_Inr [simp]: "lift_py m = Inr x \<longleftrightarrow> m = Inr x"
  by (cases m) (simp_all add: lift_py_def)

lemma map_cfg_all: "map_cfg f xs = Inr ys \<Longrightarrow> x \<in> set xs \<Longrightarrow> \<exists>y. f x = Inr y"
  by (induction xs arbitrary: ys) (auto simp: py_bind_Inr_iff)

lemma missing_keys_Nil: "missing_keys required d = [] \<longleftrightarrow> (\<forall>k \<in> set required. \<exists>v. dict_get d k = Some v)"
proof -
  have "missing_keys required d = [] \<longleftrightarrow> set (missing_keys required d) = {}" by (simp only: set_empty)
  also have "\<dots> \<longleftrightarrow> (\<forall>k \<in> set required. k \<in> set (dict_keys d))" by (auto simp: missing_keys_def)
  also have "\<dots> \<longleftrightarrow> (\<forall>k \<in> set required. \<exists>v. dict_get d k = Some v)"
    using dict_get_None_iff [of d] by (metis not_None_eq)
  finally show ?thesis .
qed

lemma need_mapping_Inr:
  assumes "need_mapping err p k = Inr d"
  obtains po where "p = PDict po" and "dict_get po k = Some (PDict d)"
proof -
  from assms obtain v where v: "py_subscript p k = Inr v" "(case v of PDict d \<Rightarrow> Inr d | _ \<Rightarrow> Inl err) = Inr d"
    by (auto simp: need_mapping_def py_bind_Inr_iff split: if_splits)
  from v(2) have "v = PDict d" by (auto split: pyval.splits)
  moreover from v(1) obtain po where "p = PDict po" "dict_get po k = Some v"
    by (auto simp: py_subscript_def split: pyval.splits option.splits)
  ultimately show thesis using that by blast
qed

lemma in_string_set_Inr: "in_string_set v ss = Inr True \<Longrightarrow> \<exists>s \<in> set ss. v = PStr s"
  by (auto simp: in_string_set_def split: pyval.splits)

definition oracle_ok :: "pyval dict \<Rightarrow> bool" where
  "oracle_ok oracle =
     (\<exists>cm \<in> set ALLOWED_CLIENT_MODES. \<exists>am \<in> set ALLOWED_AUTH_MODES.
        dict_get oracle ''client_mode'' = Some (PStr cm) \<and> dict_get oracle ''auth_mode'' = Some (PStr am)
        \<and> (cm = ''jdbc'' \<longrightarrow> am = ''basic'')
        \<and> (\<forall>k \<in> set (required_oracle_keys (PStr cm) (PStr am)). \<exists>v. dict_get oracle k = Some v)
        \<and> (\<forall>v. dict_get oracle ''upcmpflg'' = Some v \<longrightarrow> (\<exists>i. v = PInt i)))"

lemma get_or_str: "get_or d k PNone = PStr s \<Longrightarrow> dict_get d k = Some (PStr s)"
  by (auto simp: get_or_def split: option.splits)

lemma validate_oracle_section_ok: "validate_oracle_section name oracle = Inr () \<Longrightarrow> oracle_ok oracle"
proof -
  let ?cm = "get_or oracle ''client_mode'' PNone" and ?am = "get_or oracle ''auth_mode'' PNone"
  let ?rest = "case missing_keys (required_oracle_keys ?cm ?am) oracle of
               [] \<Rightarrow> (case dict_get oracle ''upcmpflg'' of None \<Rightarrow> Inr () | Some (PInt _) \<Rightarrow> Inr ()
                  | Some _ \<Rightarrow> Inl (CfgUpcmpflg name))
             | ks \<Rightarrow> Inl (CfgOracleKeys name ks)"
  assume a: "validate_oracle_section name oracle = Inr ()"
  then obtain ok where ok: "in_string_set ?cm ALLOWED_CLIENT_MODES = Inr ok" and
    "(if \<not> ok then Inl (CfgClientMode name)
      else py_bind (in_string_set ?am ALLOWED_AUTH_MODES) (\<lambda>ok.
          if \<not> ok then Inl (CfgAuthMode name)
          else if ?cm = PStr ''jdbc'' \<and> ?am \<noteq> PStr ''basic'' then Inl (CfgJdbcNeedsBasic name)
          else ?rest)) = Inr ()"
    unfolding validate_oracle_section_def Let_def py_bind_Inr_iff [of "in_string_set ?cm ALLOWED_CLIENT_MODES"] by blast
  then have okT: ok and "py_bind (in_string_set ?am ALLOWED_AUTH_MODES) (\<lambda>ok.
          if \<not> ok then Inl (CfgAuthMode name)
          else if ?cm = PStr ''jdbc'' \<and> ?am \<noteq> PStr ''basic'' then Inl (CfgJdbcNeedsBasic name)
          else ?rest) = Inr ()"
    by (cases ok; simp)+
  then obtain ok' where ok': "in_string_set ?am ALLOWED_AUTH_MODES = Inr ok'" and
    r: "(if \<not> ok' then Inl (CfgAuthMode name)
          else if ?cm = PStr ''jdbc'' \<and> ?am \<noteq> PStr ''basic'' then Inl (CfgJdbcNeedsBasic name)
          else ?rest) = Inr ()"
    unfolding py_bind_Inr_iff by blast
  from r have okT': ok' and jdbc: "\<not> (?cm = PStr ''jdbc'' \<and> ?am \<noteq> PStr ''basic'')"
    by (auto split: if_splits)
  with r have rest: "?rest = Inr ()" by simp
  have cm: "in_string_set ?cm ALLOWED_CLIENT_MODES = Inr True"
    and am: "in_string_set ?am ALLOWED_AUTH_MODES = Inr True"
    using ok ok' okT okT' by simp_all
  from in_string_set_Inr [OF cm] obtain c where c: "c \<in> set ALLOWED_CLIENT_MODES" "?cm = PStr c" by blast
  from in_string_set_Inr [OF am] obtain m where m: "m \<in> set ALLOWED_AUTH_MODES" "?am = PStr m" by blast
  from rest have nil: "missing_keys (required_oracle_keys ?cm ?am) oracle = []"
    and up: "(case dict_get oracle ''upcmpflg'' of None \<Rightarrow> Inr () | Some (PInt _) \<Rightarrow> Inr ()
        | Some _ \<Rightarrow> Inl (CfgUpcmpflg name)) = Inr ()"
    by (auto split: list.splits)
  from up have "\<forall>v. dict_get oracle ''upcmpflg'' = Some v \<longrightarrow> (\<exists>i. v = PInt i)"
    by (auto split: option.splits pyval.splits)
  moreover have "\<forall>k \<in> set (required_oracle_keys (PStr c) (PStr m)). \<exists>v. dict_get oracle k = Some v"
    using nil unfolding missing_keys_Nil c(2) m(2) .
  moreover have "c = ''jdbc'' \<longrightarrow> m = ''basic''" using jdbc c(2) m(2) by auto
  ultimately show ?thesis
    unfolding oracle_ok_def using c m get_or_str [OF c(2)] get_or_str [OF m(2)] by blast
qed

definition station_ok :: "pyval \<Rightarrow> bool" where
  "station_ok v = (\<exists>d. v = PDict d \<and> (\<forall>k \<in> set STATION_KEYS. \<exists>x. dict_get d k = Some x))"

lemma validate_optional_station_ok: "validate_optional_station name v = Inr () \<Longrightarrow> station_ok v"
  by (auto simp: validate_optional_station_def station_ok_def missing_keys_Nil split: pyval.splits list.splits)

definition profile_ok :: "pyval \<Rightarrow> bool" where
  "profile_ok p = (\<exists>po oracle servers.
      p = PDict po \<and> dict_get po ''oracle'' = Some (PDict oracle) \<and> oracle_ok oracle
      \<and> profile_servers p = Inr servers
      \<and> (\<forall>v. dict_get po ''station'' = Some v \<longrightarrow> station_ok v))"

lemma validate_profile_ok: "validate_profile (name, p) = Inr () \<Longrightarrow> profile_ok p"
proof -
  assume a: "validate_profile (name, p) = Inr ()"
  then obtain orac sntp servers where
      orc: "need_mapping (CfgNoOracle name) p ''oracle'' = Inr orac"
    and s: "need_mapping (CfgNoSntp name) p ''sntp'' = Inr sntp"
    and srv: "dict_get sntp ''servers'' = Some (PList servers)"
    and sec: "validate_oracle_section name orac = Inr ()"
    and sta: "validate_if_present validate_optional_station name p ''station'' = Inr ()"
    unfolding validate_profile_def prod.case
    by (elim py_bind_InrE) (auto split: option.splits pyval.splits elim!: py_bind_InrE)
  obtain po where po: "p = PDict po" "dict_get po ''oracle'' = Some (PDict orac)"
    using need_mapping_Inr [OF orc] by blast
  obtain po' where po': "p = PDict po'" "dict_get po' ''sntp'' = Some (PDict sntp)"
    using need_mapping_Inr [OF s] by blast
  have "profile_servers p = Inr servers"
    using po' srv by (simp add: profile_servers_def)
  moreover have "station_ok v" if "dict_get po ''station'' = Some v" for v
  proof -
    have "''station'' \<in> set (dict_keys po)"
      using that dict_get_None_iff [of po "''station''"] by force
    with sta po(1) that have "validate_optional_station name v = Inr ()"
      by (simp add: validate_if_present_def lift_py_def)
    then show ?thesis by (rule validate_optional_station_ok)
  qed
  ultimately show ?thesis
    unfolding profile_ok_def using po validate_oracle_section_ok [OF sec] by blast
qed

lemma validate_required_get:
  "validate_required data req = Inr () \<Longrightarrow> (sec, keys) \<in> set req \<Longrightarrow>
     \<exists>d. dict_get data sec = Some (PDict d) \<and> (\<forall>k \<in> set keys. \<exists>v. dict_get d k = Some v)"
  by (induction data req rule: validate_required.induct)
    (auto simp: missing_keys_Nil split: option.splits pyval.splits list.splits)

lemma load_profiles_ok:
  assumes "load_profiles_config env f = Inr data"
  shows "\<exists>ps pol. dict_get data ''profiles'' = Some (PDict ps)
    \<and> dict_get data ''unknown_ssid_policy'' = Some (PStr pol) \<and> pol \<in> set ALLOWED_UNKNOWN_POLICIES
    \<and> (\<forall>(name, p) \<in> set ps. profile_ok p)"
proof -
  from assms obtain data0 ps where ps: "dict_get data0 ''profiles'' = Some (PDict ps)"
    and pol: "in_string_set (get_or data0 ''unknown_ssid_policy'' (PStr ''hold'')) ALLOWED_UNKNOWN_POLICIES = Inr True"
    and val: "\<exists>us. map_cfg validate_profile ps = Inr us"
    and data: "data = dict_set ''unknown_ssid_policy'' (get_or data0 ''unknown_ssid_policy'' (PStr ''hold'')) data0"
    unfolding load_profiles_config_def Let_def
    by (elim py_bind_InrE) (auto split: option.splits pyval.splits if_splits elim!: py_bind_InrE)
  obtain s where s: "s \<in> set ALLOWED_UNKNOWN_POLICIES" "get_or data0 ''unknown_ssid_policy'' (PStr ''hold'') = PStr s"
    using in_string_set_Inr [OF pol] by blast
  have "profile_ok p" if "(name, p) \<in> set ps" for name p
    using val map_cfg_all [OF _ that] validate_profile_ok [of name p] by fastforce
  then show ?thesis using ps s data by auto
qed

section \<open>Properties\<close>


text \<open>Two accepted files, the smallest of their kind.\<close>

definition example_oracle :: "pyval dict" where
  "example_oracle = [(''client_mode'', PStr ''jdbc''), (''auth_mode'', PStr ''basic''), (''host'', PStr ''h''),
     (''port'', PInt 1521), (''service_name'', PStr ''s''), (''user'', PStr ''u''), (''password'', PStr ''p'')]"

definition example_profile :: pyval where
  "example_profile = PDict [(''oracle'', PDict example_oracle), (''sntp'', PDict [(''servers'', PList [])])]"

definition example_data :: "pyval dict" where
  "example_data = [(''profiles'', PDict [(''fab'', example_profile)]), (''unknown_ssid_policy'', PStr ''hold'')]"

definition example_device :: "pyval dict" where
  "example_device = [(''device_id'', PStr ''pi''), (''station'', PDict [(''sta_no1'', PStr ''1''),
     (''sta_no2'', PStr ''2''), (''sta_no3'', PStr ''3'')])]"

lemma example_accepted:
  "load_profiles_config (\<lambda>_. None) (Some (PDict example_data)) = Inr example_data"
  "load_device_config (\<lambda>_. None) None (Some (PDict example_device)) = Inr example_device"
  by code_simp+


text \<open>A reference \<open>${NAME}\<close> is replaced by the variable's value, which is not scanned again; text
  without a reference stays as it is, and an unset variable is an error that names it.\<close>

theorem env_reference_expanded:
  assumes "CHR ''$'' \<notin> set pre" and "CHR ''}'' \<notin> set v" and "v \<noteq> []"
  shows "expand_text env pre = Inr pre
    \<and> expand_text env (pre @ ''${'' @ v @ ''}'' @ post) =
       (case env v of
          None \<Rightarrow> Inl (CfgEnvNotSet v)
        | Some t \<Rightarrow> py_bind (expand_text env post) (\<lambda>q. Inr (pre @ t @ q)))"
proof -
  have here: "expand_text env (''${'' @ v @ ''}'' @ post) =
      (case env v of None \<Rightarrow> Inl (CfgEnvNotSet v) | Some t \<Rightarrow> py_bind (expand_text env post) (\<lambda>q. Inr (t @ q)))"
  proof -
    have "takeWhile (\<lambda>c. c \<noteq> CHR ''}'') (v @ CHR ''}'' # post) = v"
      "dropWhile (\<lambda>c. c \<noteq> CHR ''}'') (v @ CHR ''}'' # post) = CHR ''}'' # post"
      using assms(2) by (auto simp: takeWhile_append dropWhile_append)
    then have "env_ref (''${'' @ v @ ''}'' @ post) = Some (v, post)"
      using assms(3) by (simp add: env_ref_def)
    then show ?thesis by (subst expand_text.simps) simp
  qed
  have skip: "expand_text env (c # s) = py_bind (expand_text env s) (\<lambda>q. Inr (c # q))" if "c \<noteq> CHR ''$''" for c s
  proof -
    have "env_ref (c # s) = None" using that by (simp add: env_ref_def)
    then show ?thesis by (subst expand_text.simps) simp
  qed
  have walk: "expand_text env (p @ s) = py_bind (expand_text env s) (\<lambda>q. Inr (p @ q))" if "CHR ''$'' \<notin> set p" for p s
    using that
  proof (induction p)
    case Nil
    then show ?case by (cases "expand_text env s") simp_all
  next
    case (Cons c p)
    then have "c \<noteq> CHR ''$''" by auto
    from skip [OF this] Cons show ?case by (cases "expand_text env s") simp_all
  qed
  have nil: "expand_text env [] = Inr []" by (subst expand_text.simps) (simp add: env_ref_def)
  show ?thesis
    using walk [OF assms(1), of "[]"] walk [OF assms(1), of "''${'' @ v @ ''}'' @ post"] here nil
    by (cases "env v"; cases "expand_text env post") simp_all
qed

theorem env_reference_expanded_witness:
  "expand_text (\<lambda>v. if v = ''DB'' then Some ''orcl'' else None) (''jdbc:'' @ ''${'' @ ''DB'' @ ''}'' @ [])
    = Inr ''jdbc:orcl''"
  using env_reference_expanded [of "''jdbc:''" "''DB''" "\<lambda>v. if v = ''DB'' then Some ''orcl'' else None" "[]"]
  by (simp add: expand_text.simps [of _ "[]"] env_ref_def)

end
