(* ===== verification/Py_Time.thy ===== *)
theory Py_Time
  imports Py_Text
begin

text \<open>
  Aware datetimes of Python: an instant in microseconds since 0001-01-01T00:00:00 UTC and the
  zone's offset in minutes. The texts of \<open>isoformat()\<close> are what the SQLite stores keep and
  compare, so their order is proved to be the order of the instants.
\<close>

record datetime =
  dt_us :: int
  dt_off :: int

definition local_us :: "datetime \<Rightarrow> int" where
  "local_us d = dt_us d + dt_off d * 60000000"

definition dt_add :: "datetime \<Rightarrow> int \<Rightarrow> datetime" where
  "dt_add d us = d\<lparr>dt_us := dt_us d + us\<rparr>"

lemma dt_add_simps [simp]: "dt_us (dt_add d us) = dt_us d + us" "dt_off (dt_add d us) = dt_off d"
  by (simp_all add: dt_add_def)

lemma local_us_add: "local_us (dt_add d us) = local_us d + us"
  by (simp add: local_us_def)

section \<open>The proleptic Gregorian calendar\<close>

definition is_leap :: "int \<Rightarrow> bool" where
  "is_leap y = (y mod 4 = 0 \<and> (y mod 100 \<noteq> 0 \<or> y mod 400 = 0))"

definition days_in_year :: "int \<Rightarrow> int" where
  "days_in_year y = (if is_leap y then 366 else 365)"

definition month_lengths :: "int \<Rightarrow> int list" where
  "month_lengths y = [31, if is_leap y then 29 else 28, 31, 30, 31, 30, 31, 31, 30, 31, 30, 31]"

function year_of :: "int \<Rightarrow> int \<Rightarrow> int \<times> int" where
  "year_of y d = (if d < days_in_year y then (y, d) else year_of (y + 1) (d - days_in_year y))"
  by pat_completeness auto
termination
  by (relation "measure (\<lambda>(y, d). nat d)") (auto simp: days_in_year_def split: if_splits)

declare year_of.simps [simp del]

fun month_of :: "int \<Rightarrow> int list \<Rightarrow> int \<Rightarrow> int \<times> int" where
  "month_of m [] d = (m, d)"
| "month_of m (l # ls) d = (if d < l then (m, d) else month_of (m + 1) ls (d - l))"

definition date_text :: "int \<Rightarrow> string \<Rightarrow> string" where
  "date_text days sep =
     (let (y, r) = year_of 1 days; (m, r') = month_of 1 (month_lengths y) r
      in pad 4 (nat y) @ sep @ pad 2 (nat m) @ sep @ pad 2 (nat (r' + 1)))"

definition time_text :: "int \<Rightarrow> string \<Rightarrow> string" where
  "time_text t sep =
     pad 2 (nat (t div 3600000000)) @ sep @ pad 2 (nat (t mod 3600000000 div 60000000)) @ sep
       @ pad 2 (nat (t mod 60000000 div 1000000))"

definition offset_text :: "int \<Rightarrow> string" where
  "offset_text off = (if off < 0 then ''-'' else ''+'') @ pad 2 (nat (\<bar>off\<bar> div 60)) @ '':'' @ pad 2 (nat (\<bar>off\<bar> mod 60))"

text \<open>\<open>isoformat()\<close> leaves the fraction out when the microseconds are 0.\<close>

definition frac_text :: "int \<Rightarrow> string" where
  "frac_text us = (if us = 0 then [] else ''.'' @ pad 6 (nat us))"

definition isoformat :: "datetime \<Rightarrow> string" where
  "isoformat d =
     (let l = local_us d
      in date_text (l div 86400000000) ''-'' @ ''T'' @ time_text (l mod 86400000000) '':''
         @ frac_text (l mod 1000000) @ offset_text (dt_off d))"

text \<open>\<open>isoformat(timespec="milliseconds")\<close> truncates to milliseconds and always writes them.\<close>

definition isoformat_ms :: "datetime \<Rightarrow> string" where
  "isoformat_ms d =
     (let l = local_us d
      in date_text (l div 86400000000) ''-'' @ ''T'' @ time_text (l mod 86400000000) '':''
         @ ''.'' @ pad 3 (nat (l mod 1000000 div 1000)) @ offset_text (dt_off d))"

text \<open>\<open>strftime("%Y%m%d%H%M%S")\<close>.\<close>

definition strftime_compact :: "datetime \<Rightarrow> string" where
  "strftime_compact d =
     (let l = local_us d in date_text (l div 86400000000) [] @ time_text (l mod 86400000000) [])"

text \<open>\<open>astimezone\<close>: the same instant under another offset.\<close>

definition astimezone :: "int \<Rightarrow> datetime \<Rightarrow> datetime" where
  "astimezone off d = d\<lparr>dt_off := off\<rparr>"

text \<open>The years the type \<open>datetime\<close> reaches: 1 to 9999, read in the zone's local time.\<close>

definition dt_valid :: "datetime \<Rightarrow> bool" where
  "dt_valid d = (0 \<le> local_us d \<and> fst (year_of 1 (local_us d div 86400000000)) \<le> 9999)"

section \<open>Years, months and days are in order\<close>

lemma year_of_ge: "y \<le> fst (year_of y d)"
proof (induction y d rule: year_of.induct)
  case (1 y d)
  then show ?case by (subst year_of.simps) auto
qed

lemma year_of_range: "0 \<le> d \<Longrightarrow> 0 \<le> snd (year_of y d) \<and> snd (year_of y d) < days_in_year (fst (year_of y d))"
proof (induction y d rule: year_of.induct)
  case (1 y d)
  then show ?case by (subst (1 2 3) year_of.simps) auto
qed

lemma year_of_mono:
  "0 \<le> d \<Longrightarrow> d < e \<Longrightarrow> fst (year_of y d) < fst (year_of y e)
     \<or> fst (year_of y d) = fst (year_of y e) \<and> snd (year_of y d) < snd (year_of y e)"
proof (induction y d arbitrary: e rule: year_of.induct)
  case (1 y d)
  show ?case
  proof (cases "d < days_in_year y")
    case True
    then have d: "year_of y d = (y, d)" by (subst year_of.simps) simp
    show ?thesis
    proof (cases "e < days_in_year y")
      case True
      then have "year_of y e = (y, e)" by (subst year_of.simps) simp
      with d 1 show ?thesis by simp
    next
      case False
      then have "year_of y e = year_of (y + 1) (e - days_in_year y)" by (subst year_of.simps) simp
      with d year_of_ge [of "y + 1" "e - days_in_year y"] show ?thesis by simp
    qed
  next
    case False
    with 1 have "\<not> e < days_in_year y" by simp
    then have "year_of y e = year_of (y + 1) (e - days_in_year y)" by (subst year_of.simps) simp
    moreover from False have "year_of y d = year_of (y + 1) (d - days_in_year y)"
      by (subst year_of.simps) simp
    ultimately show ?thesis using 1 False by simp
  qed
qed

lemma month_of_ge: "m \<le> fst (month_of m ls d)"
proof (induction m ls d rule: month_of.induct)
  case (1 m d)
  then show ?case by simp
next
  case (2 m l ls d)
  then show ?case by auto
qed

lemma month_of_mono:
  "0 \<le> d \<Longrightarrow> d < e \<Longrightarrow> fst (month_of m ls d) < fst (month_of m ls e)
     \<or> fst (month_of m ls d) = fst (month_of m ls e) \<and> snd (month_of m ls d) < snd (month_of m ls e)"
proof (induction m ls d arbitrary: e rule: month_of.induct)
  case (1 m d)
  then show ?case by simp
next
  case (2 m l ls d)
  show ?case
  proof (cases "d < l \<and> \<not> e < l")
    case True
    with month_of_ge [of "m + 1" ls "e - l"] show ?thesis by simp
  next
    case False
    with 2 show ?thesis by auto
  qed
qed

lemma month_of_range:
  assumes "0 \<le> d" and "d < sum_list ls" and "\<forall>l \<in> set ls. 0 < l \<and> l \<le> 31"
  shows "0 \<le> snd (month_of m ls d) \<and> snd (month_of m ls d) \<le> 30 \<and> fst (month_of m ls d) < m + int (length ls)"
  using assms
proof (induction m ls d rule: month_of.induct)
  case (1 m d)
  then show ?case by simp
next
  case (2 m l ls d)
  show ?case
  proof (cases "d < l")
    case True
    with 2 show ?thesis by auto
  next
    case False
    with 2 have "d - l < sum_list ls" by simp
    with False 2 show ?thesis by auto
  qed
qed

lemma month_lengths_sum: "sum_list (month_lengths y) = days_in_year y"
  by (simp add: month_lengths_def days_in_year_def)

lemma month_lengths_range: "\<forall>l \<in> set (month_lengths y). 0 < l \<and> l \<le> 31"
  by (simp add: month_lengths_def)

text \<open>The fields of a day, with the bounds that make their texts fixed in length.\<close>

lemma date_fields:
  assumes "0 \<le> days"
  obtains y r m k where "year_of 1 days = (y, r)" and "month_of 1 (month_lengths y) r = (m, k)"
    and "1 \<le> y" and "1 \<le> m" and "m \<le> 12" and "0 \<le> k" and "k \<le> 30" and "0 \<le> r"
proof -
  obtain y r where y: "year_of 1 days = (y, r)" by (cases "year_of 1 days")
  obtain m k where m: "month_of 1 (month_lengths y) r = (m, k)"
    by (cases "month_of 1 (month_lengths y) r")
  have r: "0 \<le> r" "r < days_in_year y" using year_of_range [OF assms, of 1] y by simp_all
  have "0 \<le> k \<and> k \<le> 30 \<and> m < 1 + int (length (month_lengths y))"
    using month_of_range [of r "month_lengths y" 1] r m month_lengths_range [of y]
    by (simp add: month_lengths_sum)
  moreover have "1 \<le> m" using month_of_ge [of 1 "month_lengths y" r] m by simp
  moreover have "1 \<le> y" using year_of_ge [of 1 days] y by simp
  ultimately show thesis using that [OF y m] r by (simp add: month_lengths_def)
qed

lemma date_text_length [simp]: "length (date_text days sep) = 8 + 2 * length sep"
  by (simp add: date_text_def Let_def split: prod.split)

lemma date_text_less:
  assumes "0 \<le> d" and "d < e" and "fst (year_of 1 e) \<le> 9999"
  shows "date_text d sep < date_text e sep"
proof -
  have e0: "0 \<le> e" using assms by simp
  obtain y r m k where d: "year_of 1 d = (y, r)" "month_of 1 (month_lengths y) r = (m, k)"
    and db: "1 \<le> y" "1 \<le> m" "m \<le> 12" "0 \<le> k" "k \<le> 30" "0 \<le> r"
    by (rule date_fields [OF assms(1)])
  obtain y' r' m' k' where e: "year_of 1 e = (y', r')" "month_of 1 (month_lengths y') r' = (m', k')"
    and eb: "1 \<le> y'" "1 \<le> m'" "m' \<le> 12" "0 \<le> k'" "k' \<le> 30" "0 \<le> r'"
    by (rule date_fields [OF e0])
  consider "y < y'" | "y = y'" "m < m'" | "y = y'" "m = m'" "k < k'"
    using year_of_mono [OF assms(1,2), of 1] month_of_mono [of r r' 1 "month_lengths y"] d e db eb
    by auto
  then show ?thesis
  proof cases
    case 1
    with db assms(3) e have "pad 4 (nat y) < pad 4 (nat y')" by (intro pad_less) auto
    with d e show ?thesis by (simp add: date_text_def append_less_iff)
  next
    case 2
    with db eb have "pad 2 (nat m) < pad 2 (nat m')" by (intro pad_less) auto
    with d e 2 show ?thesis by (simp add: date_text_def append_less_iff)
  next
    case 3
    with db eb have "pad 2 (nat (k + 1)) < pad 2 (nat (k' + 1))" by (intro pad_less) auto
    with d e 3 show ?thesis by (simp add: date_text_def append_less_iff)
  qed
qed

lemma time_text_length [simp]: "length (time_text t sep) = 6 + 2 * length sep"
  by (simp add: time_text_def)

lemma div_mod_cases:
  fixes a b k :: int
  assumes "a < b" and "0 < k"
  shows "a div k < b div k \<or> a div k = b div k \<and> a mod k < b mod k"
proof -
  have "a div k \<le> b div k" using assms by (intro zdiv_mono1) auto
  moreover have "a div k = b div k \<Longrightarrow> a mod k < b mod k"
    using assms by (simp add: minus_mult_div_eq_mod [symmetric])
  ultimately show ?thesis by linarith
qed

lemma div_below: "0 < k \<Longrightarrow> a < n * k \<Longrightarrow> a div k < (n :: int)"
proof (rule ccontr)
  assume k: "0 < k" and a: "a < n * k" and "\<not> a div k < n"
  then have "n * k \<le> a div k * k" by (intro mult_right_mono) auto
  also have "\<dots> \<le> a" using k by (simp add: minus_mod_eq_div_mult [symmetric])
  finally show False using a by simp
qed

lemma field_less:
  fixes a b :: int
  assumes "0 \<le> a" and "a < b" and "b < 100"
  shows "pad 2 (nat a) < pad 2 (nat b)"
  using assms by (intro pad_less) auto

lemma fields_less:
  "pad 2 a < pad 2 a' \<Longrightarrow> pad 2 a @ sep @ pad 2 b @ sep @ pad 2 c < pad 2 a' @ sep @ pad 2 b' @ sep @ pad 2 c'"
  "a = a' \<Longrightarrow> pad 2 b < pad 2 b' \<Longrightarrow>
     pad 2 a @ sep @ pad 2 b @ sep @ pad 2 c < pad 2 a' @ sep @ pad 2 b' @ sep @ pad 2 c'"
  "a = a' \<Longrightarrow> b = b' \<Longrightarrow> pad 2 c < pad 2 c' \<Longrightarrow>
     pad 2 a @ sep @ pad 2 b @ sep @ pad 2 c < pad 2 a' @ sep @ pad 2 b' @ sep @ pad 2 c'"
  by (simp_all add: append_less_iff)

lemma time_text_cases:
  assumes "0 \<le> s" and "s < t" and "t < 86400000000"
  shows "time_text s sep < time_text t sep
     \<or> time_text s sep = time_text t sep \<and> s mod 1000000 < t mod 1000000"
proof -
  have m1: "x mod 3600000000 mod 60000000 = x mod 60000000" for x :: int
    by (rule mod_mod_cancel) simp
  have m2: "x mod 60000000 mod 1000000 = x mod 1000000" for x :: int
    by (rule mod_mod_cancel) simp
  have h: "t div 3600000000 < 100" by (rule div_below) (use assms in simp_all)
  have m: "x mod 3600000000 div 60000000 < 100" for x :: int
    by (rule div_below, simp) (rule less_trans [OF pos_mod_bound], simp_all)
  have c: "x mod 60000000 div 1000000 < 100" for x :: int
    by (rule div_below, simp) (rule less_trans [OF pos_mod_bound], simp_all)
  have n1: "0 \<le> s div 3600000000" using assms(1) by (simp add: pos_imp_zdiv_nonneg_iff)
  have n2: "0 \<le> s mod 3600000000 div 60000000" by (simp add: pos_imp_zdiv_nonneg_iff)
  have n3: "0 \<le> s mod 60000000 div 1000000" by (simp add: pos_imp_zdiv_nonneg_iff)
  have c1: "s div 3600000000 < t div 3600000000
      \<or> s div 3600000000 = t div 3600000000 \<and> s mod 3600000000 < t mod 3600000000"
    by (rule div_mod_cases [OF assms(2)]) simp
  have c2: "s mod 3600000000 < t mod 3600000000 \<Longrightarrow>
      s mod 3600000000 div 60000000 < t mod 3600000000 div 60000000
      \<or> s mod 3600000000 div 60000000 = t mod 3600000000 div 60000000
        \<and> s mod 60000000 < t mod 60000000"
    using div_mod_cases [of "s mod 3600000000" "t mod 3600000000" 60000000, unfolded m1] by simp
  have c3: "s mod 60000000 < t mod 60000000 \<Longrightarrow>
      s mod 60000000 div 1000000 < t mod 60000000 div 1000000
      \<or> s mod 60000000 div 1000000 = t mod 60000000 div 1000000
        \<and> s mod 1000000 < t mod 1000000"
    using div_mod_cases [of "s mod 60000000" "t mod 60000000" 1000000, unfolded m2] by simp
  consider "s div 3600000000 < t div 3600000000"
    | "s div 3600000000 = t div 3600000000"
      "s mod 3600000000 div 60000000 < t mod 3600000000 div 60000000"
    | "s div 3600000000 = t div 3600000000"
      "s mod 3600000000 div 60000000 = t mod 3600000000 div 60000000"
      "s mod 60000000 div 1000000 < t mod 60000000 div 1000000"
    | "s div 3600000000 = t div 3600000000"
      "s mod 3600000000 div 60000000 = t mod 3600000000 div 60000000"
      "s mod 60000000 div 1000000 = t mod 60000000 div 1000000"
      "s mod 1000000 < t mod 1000000"
    using c1 c2 c3 by blast
  then show ?thesis
  proof cases
    case 1
    then have "pad 2 (nat (s div 3600000000)) < pad 2 (nat (t div 3600000000))"
      by (rule field_less [OF n1 _ h])
    then show ?thesis unfolding time_text_def by (intro disjI1 fields_less(1))
  next
    case 2
    then have "pad 2 (nat (s mod 3600000000 div 60000000)) < pad 2 (nat (t mod 3600000000 div 60000000))"
      by (intro field_less [OF n2 _ m])
    with 2(1) show ?thesis unfolding time_text_def by (intro disjI1 fields_less(2)) (rule arg_cong)
  next
    case 3
    then have "pad 2 (nat (s mod 60000000 div 1000000)) < pad 2 (nat (t mod 60000000 div 1000000))"
      by (intro field_less [OF n3 _ c])
    with 3(1,2) show ?thesis unfolding time_text_def
      by (intro disjI1 fields_less(3)) (rule arg_cong, assumption)+
  next
    case 4
    then show ?thesis by (simp only: time_text_def) blast
  qed
qed

section \<open>The order of the texts is the order of the instants\<close>

lemma offset_text_hd: "\<exists>c r. offset_text off = c # r \<and> c < CHR ''.''"
  by (simp add: offset_text_def less_char_def)

lemma frac_text_less:
  assumes "0 \<le> a" and "a < b" and "b < 1000000"
  shows "frac_text a @ offset_text off < frac_text b @ offset_text off"
proof (cases "a = 0")
  case True
  obtain c r where "offset_text off = c # r" and "c < CHR ''.''" using offset_text_hd by blast
  with True assms show ?thesis by (simp add: frac_text_def)
next
  case False
  have "pad 6 (nat a) < pad 6 (nat b)" using assms by (intro pad_less) auto
  with False assms show ?thesis by (simp add: frac_text_def append_less_iff)
qed

lemma isoformat_less:
  assumes "dt_valid d" and "dt_valid e" and "dt_off d = dt_off e" and "dt_us d < dt_us e"
  shows "isoformat d < isoformat e"
proof -
  let ?D = "86400000000 :: int"
  have l: "local_us d < local_us e" "0 \<le> local_us d"
    using assms by (simp_all add: local_us_def dt_valid_def)
  have m: "x mod ?D mod 1000000 = x mod 1000000" for x :: int
    by (rule mod_mod_cancel) simp
  consider "local_us d div ?D < local_us e div ?D"
    | "local_us d div ?D = local_us e div ?D" "local_us d mod ?D < local_us e mod ?D"
    using div_mod_cases [OF l(1), of ?D] by auto
  then show ?thesis
  proof cases
    case 1
    have "date_text (local_us d div ?D) ''-'' < date_text (local_us e div ?D) ''-''"
      using 1 assms(2) l by (intro date_text_less) (simp_all add: dt_valid_def pos_imp_zdiv_nonneg_iff)
    then show ?thesis by (simp add: isoformat_def Let_def append_less_iff)
  next
    case 2
    have "time_text (local_us d mod ?D) '':'' < time_text (local_us e mod ?D) '':''
       \<or> time_text (local_us d mod ?D) '':'' = time_text (local_us e mod ?D) '':''
         \<and> local_us d mod 1000000 < local_us e mod 1000000"
      using time_text_cases [of "local_us d mod ?D" "local_us e mod ?D" "'':''"] 2 by (simp add: m)
    moreover have "local_us d mod 1000000 < local_us e mod 1000000
       \<Longrightarrow> frac_text (local_us d mod 1000000) @ offset_text (dt_off d)
           < frac_text (local_us e mod 1000000) @ offset_text (dt_off d)"
      by (rule frac_text_less) simp_all
    ultimately show ?thesis
      using 2 assms(3) by (auto simp: isoformat_def Let_def append_less_iff)
  qed
qed

theorem isoformat_le_iff:
  assumes "dt_valid d" and "dt_valid e" and "dt_off d = dt_off e"
  shows "isoformat d \<le> isoformat e \<longleftrightarrow> dt_us d \<le> dt_us e"
proof
  assume le: "isoformat d \<le> isoformat e"
  show "dt_us d \<le> dt_us e"
  proof (rule ccontr)
    assume "\<not> dt_us d \<le> dt_us e"
    then have "isoformat e < isoformat d" using assms by (intro isoformat_less) simp_all
    with le show False by simp
  qed
next
  assume "dt_us d \<le> dt_us e"
  then consider "dt_us d < dt_us e" | "d = e" using assms(3) by (cases "dt_us d = dt_us e") auto
  then show "isoformat d \<le> isoformat e"
    by cases (use isoformat_less [OF assms] in \<open>simp_all add: less_imp_le\<close>)
qed

lemma isoformat_inj:
  assumes "dt_valid d" and "dt_valid e" and "dt_off d = dt_off e" and "isoformat d = isoformat e"
  shows "d = e"
  using isoformat_le_iff [OF assms(1-3)] isoformat_le_iff [OF assms(2,1)] assms(3,4) by auto

end
