(* ===== verification/Retry_Policy.thy ===== *)
theory Retry_Policy
  imports Py_Time Complex_Main
begin

text \<open>
  \<open>retry.py\<close> of the bridge and of the detector (the two files agree): exponential backoff with
  a cap. The policy's numbers come from YAML, so each is an \<open>int\<close> or a \<open>float\<close>. Floats are
  exact rationals here: their rounding is not modelled, their range is.
\<close>

datatype pynum = NInt int | NFloat rat

definition num_val :: "pynum \<Rightarrow> rat" where
  "num_val x = (case x of NInt i \<Rightarrow> of_int i | NFloat q \<Rightarrow> q)"

lemma num_val_simps [simp]: "num_val (NInt i) = of_int i" "num_val (NFloat q) = q"
  by (simp_all add: num_val_def)

text \<open>The least magnitude that no \<open>float\<close> has.\<close>

definition float_bound :: rat where
  "float_bound = 2 ^ 1024 - 2 ^ 970"

text \<open>\<open>base ** n\<close> for \<open>0 \<le> n\<close>: a power of a \<open>float\<close> beyond the range raises.\<close>

definition py_pow :: "pynum \<Rightarrow> nat \<Rightarrow> pynum py" where
  "py_pow b n = (case b of
      NInt i \<Rightarrow> Inr (NInt (i ^ n))
    | NFloat q \<Rightarrow> if \<bar>q ^ n\<bar> \<ge> float_bound then Inl OverflowError else Inr (NFloat (q ^ n)))"

text \<open>\<open>x * y\<close>: an \<open>int\<close> beyond the range of \<open>float\<close> cannot be converted.\<close>

definition py_mul :: "pynum \<Rightarrow> pynum \<Rightarrow> pynum py" where
  "py_mul x y = (case (x, y) of
      (NInt i, NInt j) \<Rightarrow> Inr (NInt (i * j))
    | (NInt i, NFloat q) \<Rightarrow> if \<bar>of_int i\<bar> \<ge> float_bound then Inl OverflowError else Inr (NFloat (of_int i * q))
    | (NFloat q, NInt j) \<Rightarrow> if \<bar>of_int j\<bar> \<ge> float_bound then Inl OverflowError else Inr (NFloat (q * of_int j))
    | (NFloat q, NFloat r) \<Rightarrow> Inr (NFloat (q * r)))"

definition py_min :: "pynum \<Rightarrow> pynum \<Rightarrow> pynum" where
  "py_min x y = (if num_val y < num_val x then y else x)"

definition round_half_even :: "rat \<Rightarrow> int" where
  "round_half_even x =
     (let f = \<lfloor>x\<rfloor>; r = x - of_int f
      in if r < 1 / 2 then f else if 1 / 2 < r then f + 1 else if even f then f else f + 1)"

text \<open>\<open>timedelta(seconds=x)\<close> in microseconds.\<close>

definition timedelta_us :: "pynum \<Rightarrow> int" where
  "timedelta_us x = (case x of NInt i \<Rightarrow> i * 1000000 | NFloat q \<Rightarrow> round_half_even (q * 1000000))"

record backoff_policy =
  bp_initial :: pynum
  bp_multiplier :: pynum
  bp_cap :: pynum

definition next_retry_at :: "datetime \<Rightarrow> int \<Rightarrow> backoff_policy \<Rightarrow> datetime py" where
  "next_retry_at now attempt policy =
     (if attempt < 1 then Inl ValueError
      else py_bind (py_pow (bp_multiplier policy) (nat (attempt - 1)))
        (\<lambda>p. py_bind (py_mul (bp_initial policy) p)
          (\<lambda>raw. let delay = py_min raw (bp_cap policy)
                 in Inr (dt_add now (timedelta_us delay)))))"

text \<open>The policy of the shipped configuration files: whole seconds, as YAML integers.\<close>

definition int_policy :: "int \<Rightarrow> int \<Rightarrow> int \<Rightarrow> backoff_policy" where
  "int_policy i m c = \<lparr>bp_initial = NInt i, bp_multiplier = NInt m, bp_cap = NInt c\<rparr>"

text \<open>\<open>BackoffPolicy(initial=5.0, multiplier=3.0, cap=600.0)\<close>, the default of the senders.\<close>

definition default_policy :: backoff_policy where
  "default_policy = \<lparr>bp_initial = NFloat 5, bp_multiplier = NFloat 3, bp_cap = NFloat 600\<rparr>"

section \<open>Facts\<close>

lemma num_val_py_min: "num_val (py_min x y) = min (num_val x) (num_val y)"
  by (simp add: py_min_def min_def)

lemma round_half_even_mono_int: "x \<le> of_int n \<Longrightarrow> round_half_even x \<le> n"
proof -
  assume a: "x \<le> of_int n"
  show ?thesis
  proof (cases "x = of_int n")
    case True
    then show ?thesis by (simp add: round_half_even_def)
  next
    case False
    with a have "\<lfloor>x\<rfloor> < n" by (simp add: floor_less_iff)
    then show ?thesis by (auto simp: round_half_even_def Let_def)
  qed
qed

lemma timedelta_us_cap: "num_val x \<le> of_int c \<Longrightarrow> timedelta_us x \<le> c * 1000000"
proof (cases x)
  case (NInt i)
  moreover assume "num_val x \<le> of_int c"
  ultimately show ?thesis by (simp add: timedelta_us_def)
next
  case (NFloat q)
  moreover assume "num_val x \<le> of_int c"
  ultimately have "q * 1000000 \<le> of_int (c * 1000000)" by simp
  with NFloat show ?thesis by (simp only: timedelta_us_def pynum.case round_half_even_mono_int)
qed

lemma next_retry_at_int:
  assumes "1 \<le> attempt"
  shows "next_retry_at now attempt (int_policy i m c)
    = Inr (dt_add now (min (i * m ^ nat (attempt - 1)) c * 1000000))"
proof -
  have "py_min (NInt (i * m ^ nat (attempt - 1))) (NInt c) = NInt (min (i * m ^ nat (attempt - 1)) c)"
    by (auto simp: py_min_def min_def simp del: of_int_mult of_int_power)
  with assms show ?thesis
    by (simp add: next_retry_at_def int_policy_def py_pow_def py_mul_def timedelta_us_def)
qed

lemma next_retry_at_below_cap:
  assumes "next_retry_at now attempt p = Inr t" and "num_val (bp_cap p) \<le> of_int c"
  shows "dt_us t \<le> dt_us now + c * 1000000" and "dt_off t = dt_off now"
proof -
  from assms(1) obtain raw where t: "t = dt_add now (timedelta_us (py_min raw (bp_cap p)))"
    by (auto simp: next_retry_at_def py_bind_Inr_iff Let_def split: if_splits)
  have "num_val (py_min raw (bp_cap p)) \<le> of_int c"
    using assms(2) by (auto simp: num_val_py_min)
  with t show "dt_us t \<le> dt_us now + c * 1000000" by (simp add: timedelta_us_cap)
  from t show "dt_off t = dt_off now" by simp
qed

section \<open>Properties\<close>

text \<open>With the integer policies of the shipped configuration, \<open>next_retry_at\<close> never raises for
  an attempt of at least 1: the next retry lies strictly after now, never more than the cap
  later, and the delays do not shrink from one attempt to the next.\<close>

theorem backoff_total_and_bounded:
  assumes "1 \<le> attempt" and "0 < i" and "1 \<le> m" and "0 < c"
  shows "\<exists>t u. next_retry_at now attempt (int_policy i m c) = Inr t
     \<and> next_retry_at now (attempt + 1) (int_policy i m c) = Inr u
     \<and> dt_us now < dt_us t \<and> dt_us t \<le> dt_us u \<and> dt_us u \<le> dt_us now + c * 1000000"
proof -
  let ?d = "\<lambda>k. min (i * m ^ k) c"
  have step: "nat attempt = Suc (nat (attempt - 1))" using assms(1) by simp
  have pos: "0 < m ^ nat (attempt - 1)" using assms(3) by simp
  then have "0 < ?d (nat (attempt - 1))" using assms by simp
  moreover have "i * m ^ nat (attempt - 1) \<le> i * m ^ Suc (nat (attempt - 1))"
    using assms pos by (intro mult_left_mono power_increasing) auto
  then have "?d (nat (attempt - 1)) \<le> ?d (Suc (nat (attempt - 1)))" by (intro min.mono) auto
  ultimately show ?thesis
    using assms next_retry_at_int [of attempt now i m c] next_retry_at_int [of "attempt + 1" now i m c]
    by (simp add: step)
qed

theorem backoff_total_and_bounded_witness:
  "\<exists>t u. next_retry_at \<lparr>dt_us = 7, dt_off = 0\<rparr> 5 (int_policy 5 3 600) = Inr t
     \<and> next_retry_at \<lparr>dt_us = 7, dt_off = 0\<rparr> 6 (int_policy 5 3 600) = Inr u
     \<and> dt_us \<lparr>dt_us = 7, dt_off = 0\<rparr> < dt_us t \<and> dt_us t \<le> dt_us u
     \<and> dt_us u \<le> dt_us \<lparr>dt_us = 7, dt_off = 0\<rparr> + 600 * 1000000"
  using backoff_total_and_bounded [of 5 5 3 600 "\<lparr>dt_us = 7, dt_off = 0\<rparr>"] by simp

text \<open>Under the default policy of floats (5.0, 3.0, 600.0) the cap does not protect the power:
  from the 648th attempt on \<open>next_retry_at\<close> raises \<open>OverflowError\<close> instead of returning the cap.\<close>

theorem backoff_default_overflows:
  assumes "648 \<le> attempt"
  shows "next_retry_at now attempt default_policy = Inl OverflowError"
proof -
  have "float_bound \<le> (3::rat) ^ 647" by (simp add: float_bound_def)
  also have "\<dots> \<le> 3 ^ nat (attempt - 1)" using assms by (intro power_increasing) auto
  finally have "float_bound \<le> \<bar>(3::rat) ^ nat (attempt - 1)\<bar>" by simp
  with assms show ?thesis by (simp add: next_retry_at_def default_policy_def py_pow_def)
qed

theorem backoff_default_overflows_witness:
  "next_retry_at \<lparr>dt_us = 0, dt_off = 0\<rparr> 648 default_policy = Inl OverflowError"
  by (rule backoff_default_overflows) simp

end
