(* ===== verification/Config_Access.thy ===== *)
theory Config_Access
  imports Bridge_Config Retry_Policy
begin

text \<open>
  How the main programs of the bridge and of the detector read their loaded settings: subscription, defaults for
  missing keys, numbers and the policy of the retries.
\<close>

definition num_rat :: "pyval \<Rightarrow> rat py" where
  "num_rat v = (case v of PInt i \<Rightarrow> Inr (of_int i) | PFloat q \<Rightarrow> Inr q | _ \<Rightarrow> Inl TypeMismatch)"

definition num_py :: "pyval \<Rightarrow> pynum py" where
  "num_py v = (case v of PInt i \<Rightarrow> Inr (NInt i) | PFloat q \<Rightarrow> Inr (NFloat q) | _ \<Rightarrow> Inl TypeMismatch)"

definition dict_of :: "pyval \<Rightarrow> pyval dict py" where
  "dict_of v = (case v of PDict d \<Rightarrow> Inr d | _ \<Rightarrow> Inl TypeMismatch)"

text \<open>\<open>cfg["section"]["key"]\<close>.\<close>

definition cfg_at :: "pyval dict \<Rightarrow> string \<Rightarrow> string \<Rightarrow> pyval py" where
  "cfg_at cfg section_name key = py_bind (py_subscript (PDict cfg) section_name) (\<lambda>s. py_subscript s key)"

definition section_or_empty :: "pyval dict \<Rightarrow> string \<Rightarrow> pyval dict py" where
  "section_or_empty cfg k = dict_of (get_or cfg k (PDict []))"

definition bridge_policy :: "pyval dict \<Rightarrow> backoff_policy py" where
  "bridge_policy cfg =
     py_bind (py_bind (cfg_at cfg ''retry'' ''initial_delay_seconds'') num_py) (\<lambda>i.
     py_bind (py_bind (cfg_at cfg ''retry'' ''multiplier'') num_py) (\<lambda>m.
     py_bind (py_bind (cfg_at cfg ''retry'' ''max_delay_seconds'') num_py) (\<lambda>c.
       Inr \<lparr>bp_initial = i, bp_multiplier = m, bp_cap = c\<rparr>)))"

end
