(* ===== verification/Sql_Store.thy ===== *)
theory Sql_Store
  imports Py_Text "HOL-Library.Multiset"
begin

text \<open>
  The SQLite statements the repositories use, on a table read as the list of its rows in rowid
  order: \<open>INSERT .. ON CONFLICT DO NOTHING\<close>, \<open>UPDATE .. WHERE\<close>, \<open>SELECT .. ORDER BY\<close> (rows
  that tie keep their rowid order) and the eviction loop that the three repositories share.
\<close>

definition sql_insert_ignore :: "('r \<Rightarrow> 'k) \<Rightarrow> 'r \<Rightarrow> 'r list \<Rightarrow> 'r list" where
  "sql_insert_ignore key r t = (if key r \<in> key ` set t then t else t @ [r])"

definition sql_update :: "('r \<Rightarrow> bool) \<Rightarrow> ('r \<Rightarrow> 'r) \<Rightarrow> 'r list \<Rightarrow> 'r list" where
  "sql_update P f t = map (\<lambda>r. if P r then f r else r) t"

definition order_by :: "('r \<Rightarrow> string) \<Rightarrow> 'r list \<Rightarrow> 'r list" where
  "order_by f t = sort_key f t"

definition order_by_desc :: "('r \<Rightarrow> string) \<Rightarrow> 'r list \<Rightarrow> 'r list" where
  "order_by_desc f t = rev (sort_key f (rev t))"

definition sql_delete_keys :: "('r \<Rightarrow> 'k) \<Rightarrow> 'k list \<Rightarrow> 'r list \<Rightarrow> 'r list" where
  "sql_delete_keys key ids t = filter (\<lambda>r. key r \<notin> set ids) t"

text \<open>
  \<open>next_retry_at_iso IS NULL OR next_retry_at_iso <= ?\<close>
\<close>

definition due_at :: "string option \<Rightarrow> string \<Rightarrow> bool" where
  "due_at next now_iso = (case next of None \<Rightarrow> True | Some n \<Rightarrow> n \<le> now_iso)"

text \<open>
  The loop of \<open>ring_evict\<close>: for each status in turn, the oldest rows of that status, as many as
  still have to go. The result is the table and the number of rows deleted.
\<close>

fun evict_loop :: "('r \<Rightarrow> 'k) \<Rightarrow> ('r \<Rightarrow> 's) \<Rightarrow> ('r \<Rightarrow> string) \<Rightarrow> 's list \<Rightarrow> nat \<Rightarrow> nat \<Rightarrow> 'r list
    \<Rightarrow> 'r list \<times> nat" where
  "evict_loop key st age [] n d t = (t, d)"
| "evict_loop key st age (s # ss) n d t =
     (if n = 0 then (t, d)
      else let ids = map key (take n (order_by age (filter (\<lambda>r. st r = s) t)))
           in evict_loop key st age ss (n - length ids) (d + length ids) (sql_delete_keys key ids t))"

definition ring_evict_rows :: "('r \<Rightarrow> 'k) \<Rightarrow> ('r \<Rightarrow> 's) \<Rightarrow> ('r \<Rightarrow> string) \<Rightarrow> 's list \<Rightarrow> int \<Rightarrow> 'r list
    \<Rightarrow> 'r list \<times> nat" where
  "ring_evict_rows key st age ss max_rows t =
     evict_loop key st age ss (nat (int (length t) - max_rows)) 0 t"

section \<open>Insert, update, order\<close>

lemma sql_insert_keys: "key ` set (sql_insert_ignore key r t) = insert (key r) (key ` set t)"
  by (auto simp: sql_insert_ignore_def)

lemma sql_insert_distinct [row_laws]:
  "distinct (map key t) \<Longrightarrow> distinct (map key (sql_insert_ignore key r t))"
  by (auto simp: sql_insert_ignore_def)

lemma sql_insert_find:
  "find (\<lambda>x. key x = k) (sql_insert_ignore key r t)
     = (case find (\<lambda>x. key x = k) t of Some x \<Rightarrow> Some x | None \<Rightarrow> if key r = k then Some r else None)"
proof (cases "key r \<in> key ` set t")
  case True
  then show ?thesis
    by (auto simp: sql_insert_ignore_def find_key_None_iff split: option.split)
next
  case False
  then show ?thesis by (auto simp: sql_insert_ignore_def find_append split: option.split)
qed

lemma sql_update_keys [row_laws]:
  "(\<And>r. key (f r) = key r) \<Longrightarrow> map key (sql_update P f t) = map key t"
  by (simp add: sql_update_def)

lemma sql_update_find:
  assumes "\<And>r. key (f r) = key r"
  shows "find (\<lambda>x. key x = k) (sql_update (\<lambda>r. key r = j) f t)
     = (if k = j then map_option f (find (\<lambda>x. key x = k) t) else find (\<lambda>x. key x = k) t)"
  using assms by (induction t) (auto simp: sql_update_def)

lemma sql_update_length [simp]: "length (sql_update P f t) = length t"
  by (simp add: sql_update_def)

lemma set_order_by [simp]: "set (order_by f t) = set t" "set (order_by_desc f t) = set t"
  by (simp_all add: order_by_def order_by_desc_def)

lemma length_order_by [simp]: "length (order_by f t) = length t" "length (order_by_desc f t) = length t"
  by (simp_all add: order_by_def order_by_desc_def)

lemma sorted_order_by: "sorted (map f (order_by f t))"
  by (simp add: order_by_def)

lemma distinct_order_by:
  "distinct (map key (order_by f t)) = distinct (map key t)"
  "distinct (map key (order_by_desc f t)) = distinct (map key t)"
  by (simp_all add: order_by_def order_by_desc_def distinct_map)

lemma order_by_desc_sorted: "sorted_wrt (\<lambda>a b. f b \<le> f a) (order_by_desc f t)"
  using sorted_order_by [of f "rev t"]
  by (simp add: order_by_desc_def order_by_def sorted_map sorted_wrt_rev)

lemma sql_delete_distinct [row_laws]:
  "distinct (map key t) \<Longrightarrow> distinct (map key (sql_delete_keys key ids t))"
  by (simp add: sql_delete_keys_def distinct_map_filter)

lemma sql_delete_subset: "set (sql_delete_keys key ids t) \<subseteq> set t"
  by (auto simp: sql_delete_keys_def)

section \<open>Eviction\<close>

lemma delete_some_length:
  assumes "distinct (map key t)" and "distinct ids" and "set ids \<subseteq> key ` set t"
  shows "length (sql_delete_keys key ids t) + length ids = length t"
proof -
  let ?hit = "filter (\<lambda>r. key r \<in> set ids) t"
  have inj: "inj_on key (set t)" and dt: "distinct t" using assms(1) by (auto simp: distinct_map)
  have hit: "set ids = key ` set ?hit" using assms(3) by auto
  have "inj_on key (set ?hit)" by (rule inj_on_subset [OF inj]) auto
  then have "card (key ` set ?hit) = card (set ?hit)" by (rule card_image)
  then have "card (set ids) = card (set ?hit)" by (simp only: hit [symmetric])
  moreover have "card (set ids) = length ids" using assms(2) by (rule distinct_card)
  moreover have "card (set ?hit) = length ?hit" using dt by (intro distinct_card distinct_filter)
  ultimately show ?thesis
    using sum_length_filter_compl [of "\<lambda>r. key r \<in> set ids" t] by (simp only: sql_delete_keys_def)
qed

definition victims :: "('r \<Rightarrow> 's) \<Rightarrow> ('r \<Rightarrow> string) \<Rightarrow> 's \<Rightarrow> nat \<Rightarrow> 'r list \<Rightarrow> 'r list" where
  "victims st age s n t = take n (order_by age (filter (\<lambda>r. st r = s) t))"

lemma victims_set: "set (victims st age s n t) \<subseteq> {r \<in> set t. st r = s}"
  unfolding victims_def using set_take_subset [of n "order_by age (filter (\<lambda>r. st r = s) t)"] by auto

lemma victims_length: "length (victims st age s n t) = min n (length (filter (\<lambda>r. st r = s) t))"
  by (simp add: victims_def)

lemma victims_distinct:
  assumes "distinct (map key t)"
  shows "distinct (map key (victims st age s n t))"
proof -
  have "distinct (map key (order_by age (filter (\<lambda>r. st r = s) t)))"
    using assms by (simp add: distinct_order_by distinct_map_filter)
  then show ?thesis by (simp add: victims_def take_map distinct_take flip: take_map)
qed

lemma victims_oldest:
  assumes "distinct (map key t)" and "v \<in> set (victims st age s n t)"
    and "r \<in> set t" and "st r = s" and "key r \<notin> key ` set (victims st age s n t)"
  shows "age v \<le> age r"
proof -
  let ?o = "order_by age (filter (\<lambda>r. st r = s) t)"
  have "r \<in> set ?o" using assms by simp
  moreover have "r \<notin> set (take n ?o)" using assms(5) by (auto simp: victims_def)
  ultimately have "r \<in> set (drop n ?o)" by (metis UnE append_take_drop_id set_append)
  moreover have "sorted (map age (take n ?o) @ map age (drop n ?o))"
    using sorted_order_by [of age] by (simp flip: map_append)
  ultimately show ?thesis using assms(2) by (auto simp: sorted_append victims_def)
qed

lemma evict_loop_step:
  "n \<noteq> 0 \<Longrightarrow> evict_loop key st age (s # ss) n d t =
     evict_loop key st age ss (n - length (victims st age s n t)) (d + length (victims st age s n t))
       (sql_delete_keys key (map key (victims st age s n t)) t)"
  by (simp add: victims_def Let_def)

lemma evict_loop_distinct:
  "distinct (map key t) \<Longrightarrow> distinct (map key (fst (evict_loop key st age ss n d t)))"
  by (induction ss arbitrary: n d t) (auto simp: Let_def sql_delete_distinct)

lemma evict_loop_subset: "set (fst (evict_loop key st age ss n d t)) \<subseteq> set t"
proof (induction ss arbitrary: n d t)
  case Nil
  then show ?case by simp
next
  case (Cons s ss)
  show ?case
  proof (cases "n = 0")
    case True
    then show ?thesis by simp
  next
    case False
    show ?thesis
      unfolding evict_loop_step [OF False] by (rule subset_trans [OF Cons.IH sql_delete_subset])
  qed
qed

lemma evict_loop_count:
  "distinct (map key t) \<Longrightarrow>
     length (fst (evict_loop key st age ss n d t)) + snd (evict_loop key st age ss n d t) = length t + d
     \<and> d \<le> snd (evict_loop key st age ss n d t) \<and> snd (evict_loop key st age ss n d t) \<le> d + n"
proof (induction ss arbitrary: n d t)
  case Nil
  then show ?case by simp
next
  case (Cons s ss)
  show ?case
  proof (cases "n = 0")
    case True
    then show ?thesis by simp
  next
    case False
    let ?v = "victims st age s n t"
    let ?t = "sql_delete_keys key (map key ?v) t"
    have "length ?t + length (map key ?v) = length t"
      using Cons.prems victims_set [of st age s n t]
      by (intro delete_some_length victims_distinct) auto
    moreover have "distinct (map key ?t)" using Cons.prems by (rule sql_delete_distinct)
    moreover have "length ?v \<le> n" by (simp add: victims_length)
    ultimately show ?thesis
      unfolding evict_loop_step [OF False]
      using Cons.IH [of ?t "n - length ?v" "d + length ?v"] by auto
  qed
qed

text \<open>When the statuses cover the whole table, exactly the excess is deleted.\<close>

lemma evict_loop_exact:
  "distinct (map key t) \<Longrightarrow> \<forall>r \<in> set t. st r \<in> set ss \<Longrightarrow> n \<le> length t \<Longrightarrow>
     snd (evict_loop key st age ss n d t) = d + n"
proof (induction ss arbitrary: n d t)
  case Nil
  then show ?case by simp
next
  case (Cons s ss)
  show ?case
  proof (cases "n = 0")
    case True
    then show ?thesis by simp
  next
    case False
    let ?v = "victims st age s n t"
    let ?t = "sql_delete_keys key (map key ?v) t"
    have len: "length ?t + length ?v = length t"
      using Cons.prems victims_set [of st age s n t]
        delete_some_length [of key t "map key ?v"] victims_distinct [of key t st age s n] by auto
    have d: "distinct (map key ?t)" using Cons.prems(1) by (rule sql_delete_distinct)
    show ?thesis
    proof (cases "length ?v = n")
      case True
      then show ?thesis
        unfolding evict_loop_step [OF False]
        using evict_loop_count [OF d, of st age ss 0 "d + n"] by simp
    next
      case small: False
      then have all: "set ?v = set (filter (\<lambda>r. st r = s) t)"
        by (simp add: victims_def min_def split: if_splits)
      have "\<forall>r \<in> set ?t. st r \<in> set ss"
        using Cons.prems(2) all by (auto simp: sql_delete_keys_def)
      then have "snd (evict_loop key st age ss (n - length ?v) (d + length ?v) ?t)
          = d + length ?v + (n - length ?v)"
        using Cons.IH [OF d] len Cons.prems(3) by simp
      moreover have "length ?v \<le> n" by (simp add: victims_length)
      ultimately show ?thesis unfolding evict_loop_step [OF False] by simp
    qed
  qed
qed

text \<open>A row of a status later in the list goes only when no row of an earlier status is left.\<close>

lemma evict_loop_order:
  assumes "distinct (map key t)" and "distinct ss"
    and "ss = us @ s # vs" and "u \<in> set us"
    and "r \<in> set t" and "st r = s" and "r \<notin> set (fst (evict_loop key st age ss n d t))"
    and "q \<in> set (fst (evict_loop key st age ss n d t))"
  shows "st q \<noteq> u"
  using assms
proof (induction us arbitrary: ss n d t)
  case Nil
  then show ?case by simp
next
  case (Cons w us)
  let ?v = "victims st age w n t"
  let ?t = "sql_delete_keys key (map key ?v) t"
  let ?rest = "us @ s # vs"
  have n: "n \<noteq> 0" using Cons.prems by (intro notI) simp
  have loop: "evict_loop key st age ss n d t
      = evict_loop key st age ?rest (n - length ?v) (d + length ?v) ?t"
    unfolding Cons.prems(3) append_Cons by (rule evict_loop_step [OF n])
  have d: "distinct (map key ?t)" using Cons.prems(1) by (rule sql_delete_distinct)
  have "s \<noteq> w" using Cons.prems(2,3) by auto
  then have rv: "r \<notin> set ?v" using victims_set [of st age w n t] Cons.prems(6) by auto
  then have rt: "r \<in> set ?t"
    using Cons.prems(1,5) victims_set [of st age w n t]
    by (auto simp: sql_delete_keys_def distinct_map dest: inj_onD)
  show ?case
  proof (cases "u = w")
    case False
    then show ?thesis using Cons.IH [OF d _ refl _ rt Cons.prems(6)] Cons.prems loop by auto
  next
    case True
    have "n - length ?v \<noteq> 0"
    proof
      assume "n - length ?v = 0"
      then have "set (fst (evict_loop key st age ?rest (n - length ?v) (d + length ?v) ?t)) = set ?t"
        by (cases us) simp_all
      with loop rt Cons.prems(7) show False by simp
    qed
    then have "set ?v = set (filter (\<lambda>r. st r = w) t)"
      by (simp add: victims_def min_def split: if_splits)
    then have "\<forall>x \<in> set ?t. st x \<noteq> w" by (auto simp: sql_delete_keys_def)
    then show ?thesis using evict_loop_subset Cons.prems(8) loop True by (metis subsetD)
  qed
qed

section \<open>The contract of the bounded stores\<close>

text \<open>
  Each repository names its key, its statuses in the order in which they may be dropped and the
  column that tells a row's age. What its users rely on is stated once.
\<close>

locale bounded_store =
  fixes key :: "'r \<Rightarrow> 'k" and st :: "'r \<Rightarrow> 's" and age :: "'r \<Rightarrow> string"
    and statuses :: "'s list"
    and evict :: "int \<Rightarrow> 'r list \<Rightarrow> 'r list \<times> nat"
  assumes evict_is_loop: "evict m t = ring_evict_rows key st age statuses m t"
    and statuses_cover: "s \<in> set statuses"
    and statuses_distinct: "distinct statuses"
begin

lemma evict_distinct: "distinct (map key t) \<Longrightarrow> distinct (map key (fst (evict m t)))"
  by (simp add: evict_is_loop ring_evict_rows_def evict_loop_distinct)

lemma evict_subset: "set (fst (evict m t)) \<subseteq> set t"
  by (simp add: evict_is_loop ring_evict_rows_def evict_loop_subset)

lemma evict_count:
  assumes "distinct (map key t)" and "0 \<le> m"
  shows "snd (evict m t) = length t - nat m" and "length (fst (evict m t)) = min (length t) (nat m)"
proof -
  let ?n = "nat (int (length t) - m)"
  have n: "?n = length t - nat m" using assms(2) by simp
  have c: "snd (evict m t) = 0 + ?n"
    unfolding evict_is_loop ring_evict_rows_def
    using assms by (intro evict_loop_exact) (auto simp: statuses_cover)
  with n show "snd (evict m t) = length t - nat m" by simp
  have "length (fst (evict m t)) + snd (evict m t) = length t + 0"
    using evict_loop_count [OF assms(1), of st age statuses ?n 0]
    by (simp add: evict_is_loop ring_evict_rows_def)
  with c n show "length (fst (evict m t)) = min (length t) (nat m)" by simp
qed

lemma evict_keeps_later_status:
  assumes "distinct (map key t)" and "statuses = us @ s # vs" and "u \<in> set us"
    and "r \<in> set t" and "st r = s" and "r \<notin> set (fst (evict m t))"
    and "q \<in> set (fst (evict m t))"
  shows "st q \<noteq> u"
proof -
  note law = evict_loop_order [where key = key and st = st and age = age and ss = statuses
      and us = us and s = s and vs = vs and u = u and r = r and q = q and d = 0
      and t = t and n = "nat (int (length t) - m)"]
  show ?thesis
    using law assms statuses_distinct by (simp add: evict_is_loop ring_evict_rows_def)
qed

end

end
