(* ===== verification/Inbox.thy ===== *)
theory Inbox
  imports Sql_Store Py_Time Complex_Main
begin

text \<open>
  \<open>services/bridge/src/inbox.py\<close>: the durable table of ENTER/EXIT events. A table is the list of
  its rows in rowid order; every operation is one connection and one statement of the code.
\<close>

datatype inbox_status = Received | Sent

record inbox_event =
  ie_event_id :: string
  ie_event_type :: string
  ie_mk_date :: "string option"
  ie_monotonic_ns :: int
  ie_wall_synced :: bool
  ie_device_id :: "string option"
  ie_score :: "rat option"
  ie_raw_payload :: string
  ie_status :: inbox_status
  ie_ssid_at_receive :: "string option"
  ie_profile_at_send :: "string option"
  ie_mk_date_committed :: "string option"
  ie_received_at_iso :: string
  ie_sent_at_iso :: "string option"
  ie_retry_count :: int
  ie_next_retry_at_iso :: "string option"
  ie_last_error :: "string option"

type_synonym inbox = "inbox_event list"

text \<open>The integers SQLite stores are 64-bit; binding a larger one raises.\<close>

definition sqlite_int_ok :: "int \<Rightarrow> bool" where
  "sqlite_int_ok i = (- (2 ^ 63) \<le> i \<and> i < 2 ^ 63)"

text \<open>
  The \<open>CHECK\<close> of the schema. It is verified before the conflict clause, which only covers the
  primary key.
\<close>

definition inbox_check :: "inbox_event \<Rightarrow> bool" where
  "inbox_check e = (ie_event_type e = ''ENTER'' \<or> ie_event_type e = ''EXIT'')"

definition inbox_insert_received :: "inbox_event \<Rightarrow> inbox \<Rightarrow> inbox py" where
  "inbox_insert_received e t =
     (if \<not> sqlite_int_ok (ie_monotonic_ns e) \<or> \<not> sqlite_int_ok (ie_retry_count e) then Inl OverflowError
      else if \<not> inbox_check e then Inl IntegrityError
      else Inr (sql_insert_ignore ie_event_id e t))"

definition inbox_mark_sent :: "string \<Rightarrow> string \<Rightarrow> string \<Rightarrow> string \<Rightarrow> inbox \<Rightarrow> inbox" where
  "inbox_mark_sent event_id mk_date_committed profile_at_send sent_at_iso t =
     sql_update (\<lambda>r. ie_event_id r = event_id)
       (\<lambda>r. r\<lparr>ie_status := Sent, ie_mk_date_committed := Some mk_date_committed,
              ie_profile_at_send := Some profile_at_send, ie_sent_at_iso := Some sent_at_iso\<rparr>) t"

definition inbox_update_retry :: "string \<Rightarrow> int \<Rightarrow> string \<Rightarrow> string \<Rightarrow> inbox \<Rightarrow> inbox" where
  "inbox_update_retry event_id retry_count next_retry_at_iso last_error t =
     sql_update (\<lambda>r. ie_event_id r = event_id)
       (\<lambda>r. r\<lparr>ie_retry_count := retry_count, ie_next_retry_at_iso := Some next_retry_at_iso,
              ie_last_error := Some last_error\<rparr>) t"

definition inbox_get :: "string \<Rightarrow> inbox \<Rightarrow> inbox_event option" where
  "inbox_get event_id t = find (\<lambda>r. ie_event_id r = event_id) t"

definition inbox_iter_received_due :: "string \<Rightarrow> inbox \<Rightarrow> inbox_event list" where
  "inbox_iter_received_due now_iso t =
     order_by ie_received_at_iso
       (filter (\<lambda>r. ie_status r = Received \<and> due_at (ie_next_retry_at_iso r) now_iso) t)"

definition inbox_iter_sent_without_ack :: "inbox \<Rightarrow> inbox_event list" where
  "inbox_iter_sent_without_ack t = order_by ie_received_at_iso (filter (\<lambda>r. ie_status r = Sent) t)"

definition inbox_all_rows :: "inbox \<Rightarrow> inbox_event list" where
  "inbox_all_rows t = order_by ie_received_at_iso t"

definition inbox_count :: "inbox \<Rightarrow> nat" where
  "inbox_count t = length t"

definition inbox_sent_age :: "inbox_event \<Rightarrow> string" where
  "inbox_sent_age r = (case ie_sent_at_iso r of Some s \<Rightarrow> s | None \<Rightarrow> ie_received_at_iso r)"

definition inbox_delete_sent :: "int \<Rightarrow> inbox \<Rightarrow> inbox \<times> string list" where
  "inbox_delete_sent keep_newest t =
     (let rows = map ie_event_id (order_by_desc inbox_sent_age (filter (\<lambda>r. ie_status r = Sent) t));
          ids = drop (nat (max 0 keep_newest)) rows
      in (sql_delete_keys ie_event_id ids t, ids))"

definition inbox_ring_evict :: "int \<Rightarrow> inbox \<Rightarrow> inbox \<times> nat" where
  "inbox_ring_evict max_rows t =
     ring_evict_rows ie_event_id ie_status ie_received_at_iso [Sent, Received] max_rows t"

section \<open>Facts\<close>

definition inbox_row_wf :: "inbox_event \<Rightarrow> bool" where
  "inbox_row_wf r = (inbox_check r
     \<and> (ie_status r = Sent \<longrightarrow> ie_mk_date_committed r \<noteq> None \<and> ie_profile_at_send r \<noteq> None
                              \<and> ie_sent_at_iso r \<noteq> None))"

definition inbox_wf :: "inbox \<Rightarrow> bool" where
  "inbox_wf t = (distinct (map ie_event_id t) \<and> (\<forall>r \<in> set t. inbox_row_wf r))"

lemma inbox_wf_empty [simp]: "inbox_wf []"
  by (simp add: inbox_wf_def)

lemma inbox_wf_sub: "inbox_wf t \<Longrightarrow> distinct (map ie_event_id u) \<Longrightarrow> set u \<subseteq> set t \<Longrightarrow> inbox_wf u"
  by (auto simp: inbox_wf_def)

lemma inbox_wf_update:
  assumes "inbox_wf t" and "\<And>r. ie_event_id (f r) = ie_event_id r"
    and "\<And>r. inbox_row_wf r \<Longrightarrow> inbox_row_wf (f r)"
  shows "inbox_wf (sql_update P f t)"
proof -
  have "map ie_event_id (sql_update P f t) = map ie_event_id t"
    by (rule sql_update_keys) (rule assms(2))
  moreover have "\<forall>r \<in> set (sql_update P f t). inbox_row_wf r"
    using assms(1,3) by (auto simp: sql_update_def inbox_wf_def)
  ultimately show ?thesis using assms(1) by (simp add: inbox_wf_def)
qed

lemma inbox_mark_sent_keys [row_laws]:
  "map ie_event_id (inbox_mark_sent i m p s t) = map ie_event_id t"
  by (simp add: inbox_mark_sent_def sql_update_keys)

lemma inbox_update_retry_keys [row_laws]:
  "map ie_event_id (inbox_update_retry i n x e t) = map ie_event_id t"
  by (simp add: inbox_update_retry_def sql_update_keys)

lemma inbox_mark_sent_get:
  "inbox_get k (inbox_mark_sent i m p s t)
     = (if k = i then map_option (\<lambda>r. r\<lparr>ie_status := Sent, ie_mk_date_committed := Some m,
          ie_profile_at_send := Some p, ie_sent_at_iso := Some s\<rparr>) (inbox_get k t) else inbox_get k t)"
  unfolding inbox_get_def inbox_mark_sent_def by (rule sql_update_find) simp

lemma inbox_update_retry_get:
  "inbox_get k (inbox_update_retry i n x e t)
     = (if k = i then map_option (\<lambda>r. r\<lparr>ie_retry_count := n, ie_next_retry_at_iso := Some x,
          ie_last_error := Some e\<rparr>) (inbox_get k t) else inbox_get k t)"
  unfolding inbox_get_def inbox_update_retry_def by (rule sql_update_find) simp

lemma inbox_insert_get:
  "inbox_insert_received e t = Inr t' \<Longrightarrow>
     inbox_get k t' = (case inbox_get k t of Some x \<Rightarrow> Some x
                       | None \<Rightarrow> if ie_event_id e = k then Some e else None)"
  by (auto simp: inbox_insert_received_def inbox_get_def sql_insert_find split: if_splits)

lemma inbox_get_iff: "inbox_wf t \<Longrightarrow> inbox_get k t = Some r \<longleftrightarrow> r \<in> set t \<and> ie_event_id r = k"
  by (simp add: inbox_get_def inbox_wf_def find_key_Some_iff)

lemma inbox_wf_mark_sent [step_laws]: "inbox_wf t \<Longrightarrow> inbox_wf (inbox_mark_sent i m p s t)"
  unfolding inbox_mark_sent_def
  by (rule inbox_wf_update) (simp_all add: inbox_row_wf_def inbox_check_def)

lemma inbox_wf_update_retry [step_laws]: "inbox_wf t \<Longrightarrow> inbox_wf (inbox_update_retry i n x e t)"
  unfolding inbox_update_retry_def
  by (rule inbox_wf_update) (simp_all add: inbox_row_wf_def inbox_check_def)

lemma inbox_wf_insert [step_laws]:
  "inbox_wf t \<Longrightarrow> inbox_insert_received e t = Inr t' \<Longrightarrow> ie_status e = Received \<Longrightarrow> inbox_wf t'"
  by (auto simp: inbox_insert_received_def inbox_wf_def sql_insert_ignore_def inbox_row_wf_def
      split: if_splits)

lemma inbox_delete_sent_eq:
  "inbox_delete_sent n t = (u, ids) \<Longrightarrow> u = sql_delete_keys ie_event_id ids t"
  by (auto simp: inbox_delete_sent_def Let_def)

lemma inbox_wf_delete_sent [step_laws]: "inbox_wf t \<Longrightarrow> inbox_wf (fst (inbox_delete_sent n t))"
  using sql_delete_distinct [of ie_event_id t] sql_delete_subset [of ie_event_id _ t]
  by (auto simp: inbox_delete_sent_def Let_def intro!: inbox_wf_sub [of t]) (auto simp: inbox_wf_def)

lemma inbox_status_set: "s \<in> set [Sent, Received]"
  by (cases s) simp_all

interpretation inbox_ring: bounded_store ie_event_id ie_status ie_received_at_iso
  "[Sent, Received]" inbox_ring_evict
  by unfold_locales (simp add: inbox_ring_evict_def, rule inbox_status_set, simp)

lemma inbox_wf_ring_evict [step_laws]: "inbox_wf t \<Longrightarrow> inbox_wf (fst (inbox_ring_evict m t))"
  using inbox_ring.evict_distinct [of t m] inbox_ring.evict_subset [of m t]
  by (auto intro!: inbox_wf_sub [of t]) (auto simp: inbox_wf_def)

lemma inbox_due_member:
  "r \<in> set (inbox_iter_received_due now t)
     \<longleftrightarrow> r \<in> set t \<and> ie_status r = Received \<and> due_at (ie_next_retry_at_iso r) now"
  by (auto simp: inbox_iter_received_due_def)

lemma inbox_due_distinct: "inbox_wf t \<Longrightarrow> distinct (map ie_event_id (inbox_iter_received_due now t))"
  by (simp add: inbox_iter_received_due_def distinct_order_by distinct_map_filter inbox_wf_def)

lemma drop_newest:
  assumes "distinct (map key rows)" and "sorted_wrt (\<lambda>a b. f b \<le> f a) rows"
    and "x \<in> set rows" and "key x \<in> set (drop n (map key rows))"
    and "y \<in> set rows" and "key y \<notin> set (drop n (map key rows))"
  shows "f x \<le> (f y :: string)"
proof -
  have x: "x \<in> set (drop n rows)"
    using assms(1,3,4) by (auto simp: drop_map distinct_map dest: in_set_dropD inj_onD)
  have y: "y \<in> set (take n rows)"
  proof -
    have "y \<notin> set (drop n rows)" using assms(6) by (auto simp: drop_map)
    moreover have "set rows = set (take n rows) \<union> set (drop n rows)"
      by (metis append_take_drop_id set_append)
    ultimately show ?thesis using assms(5) by blast
  qed
  have "sorted_wrt (\<lambda>a b. f b \<le> f a) (take n rows @ drop n rows)" using assms(2) by simp
  with x y show ?thesis unfolding sorted_wrt_append by blast
qed

section \<open>Properties\<close>

text \<open>The SQL comparison of ISO texts selects by time. When every retry time in the inbox is the
  text of a datetime with now's offset, the rows \<open>iter_received_due\<close> yields are exactly the
  unsent ones that have no retry time or one that is not after now, oldest received first.\<close>

theorem inbox_due_is_chronological:
  assumes "dt_valid now"
    and "\<forall>r \<in> set t. \<forall>x. ie_next_retry_at_iso r = Some x \<longrightarrow>
           (\<exists>d. x = isoformat d \<and> dt_valid d \<and> dt_off d = dt_off now)"
  shows "set (inbox_iter_received_due (isoformat now) t)
      = {r \<in> set t. ie_status r = Received
           \<and> (\<forall>d. ie_next_retry_at_iso r = Some (isoformat d) \<longrightarrow> dt_valid d \<longrightarrow> dt_off d = dt_off now
                  \<longrightarrow> dt_us d \<le> dt_us now)}
     \<and> sorted (map ie_received_at_iso (inbox_iter_received_due (isoformat now) t))"
proof -
  have due: "due_at (ie_next_retry_at_iso r) (isoformat now)
      \<longleftrightarrow> (\<forall>d. ie_next_retry_at_iso r = Some (isoformat d) \<longrightarrow> dt_valid d \<longrightarrow> dt_off d = dt_off now
               \<longrightarrow> dt_us d \<le> dt_us now)" if "r \<in> set t" for r
  proof (cases "ie_next_retry_at_iso r")
    case None
    then show ?thesis by (simp add: due_at_def)
  next
    case (Some x)
    with that assms(2) obtain d where d: "x = isoformat d" "dt_valid d" "dt_off d = dt_off now"
      by blast
    with Some isoformat_le_iff [OF d(2) assms(1) d(3)] show ?thesis
      by (auto simp: due_at_def dest: isoformat_inj)
  qed
  have "set (inbox_iter_received_due (isoformat now) t)
      = {r \<in> set t. ie_status r = Received
           \<and> (\<forall>d. ie_next_retry_at_iso r = Some (isoformat d) \<longrightarrow> dt_valid d \<longrightarrow> dt_off d = dt_off now
                  \<longrightarrow> dt_us d \<le> dt_us now)}"
    by (rule set_eqI, simp only: inbox_due_member mem_Collect_eq) (use due in blast)
  moreover have "sorted (map ie_received_at_iso (inbox_iter_received_due (isoformat now) t))"
    unfolding inbox_iter_received_due_def by (rule sorted_order_by)
  ultimately show ?thesis by blast
qed

theorem inbox_due_is_chronological_witness:
  fixes r :: inbox_event
  defines "r \<equiv> \<lparr>ie_event_id = ''e1'', ie_event_type = ''ENTER'', ie_mk_date = None,
     ie_monotonic_ns = 5, ie_wall_synced = True, ie_device_id = None, ie_score = None,
     ie_raw_payload = [], ie_status = Received, ie_ssid_at_receive = None,
     ie_profile_at_send = None, ie_mk_date_committed = None, ie_received_at_iso = ''2026'',
     ie_sent_at_iso = None, ie_retry_count = 1,
     ie_next_retry_at_iso = Some (isoformat \<lparr>dt_us = 1000000, dt_off = 0\<rparr>), ie_last_error = None\<rparr>"
  shows "r \<in> set (inbox_iter_received_due (isoformat \<lparr>dt_us = 2500000, dt_off = 0\<rparr>) [r])"
proof -
  let ?n = "\<lparr>dt_us = 2500000, dt_off = 0\<rparr>" and ?d = "\<lparr>dt_us = 1000000, dt_off = 0\<rparr>"
  have y: "year_of 1 0 = (1, 0)" by (simp add: year_of.simps days_in_year_def is_leap_def)
  have v: "dt_valid ?n" "dt_valid ?d" by (simp_all add: dt_valid_def local_us_def y)
  have "\<forall>q \<in> set [r]. \<forall>x. ie_next_retry_at_iso q = Some x \<longrightarrow>
      (\<exists>d. x = isoformat d \<and> dt_valid d \<and> dt_off d = dt_off ?n)"
    using v(2) by (auto simp: r_def intro!: exI [of _ ?d])
  note law = inbox_due_is_chronological [OF v(1) this]
  have "dt_us d \<le> dt_us ?n"
    if "ie_next_retry_at_iso r = Some (isoformat d)" "dt_valid d" "dt_off d = dt_off ?n" for d
    using isoformat_inj [OF that(2) v(2)] that by (simp add: r_def)
  with law show ?thesis by (simp add: r_def)
qed

text \<open>\<open>delete_sent\<close> only drops rows Oracle has confirmed, keeps the \<open>keep_newest\<close> most recently
  sent of them (all others are at most as recent) and touches no unsent row.\<close>

theorem inbox_delete_sent_keeps_unsent_and_newest:
  assumes "inbox_wf t" and "inbox_delete_sent keep t = (u, ids)"
  shows "set u = {r \<in> set t. ie_event_id r \<notin> set ids}
    \<and> (\<forall>r \<in> set t. ie_event_id r \<in> set ids \<longrightarrow> ie_status r = Sent
         \<and> (\<forall>q \<in> set u. ie_status q = Sent \<longrightarrow> inbox_sent_age r \<le> inbox_sent_age q))
    \<and> length ids = length (filter (\<lambda>r. ie_status r = Sent) t) - nat (max 0 keep)"
proof -
  let ?rows = "order_by_desc inbox_sent_age (filter (\<lambda>r. ie_status r = Sent) t)"
  have ids: "ids = drop (nat (max 0 keep)) (map ie_event_id ?rows)"
    and u: "u = sql_delete_keys ie_event_id ids t"
    using assms(2) by (auto simp: inbox_delete_sent_def Let_def)
  have rows: "set ?rows = {r \<in> set t. ie_status r = Sent}" by auto
  have dist: "distinct (map ie_event_id ?rows)" and inj: "inj_on ie_event_id (set t)"
    using assms(1) by (auto simp: inbox_wf_def distinct_order_by distinct_map_filter)
       (simp add: distinct_map)
  have sub: "set ids \<subseteq> ie_event_id ` set ?rows"
    using set_drop_subset [of "nat (max 0 keep)" "map ie_event_id ?rows"] ids by auto
  have sent: "r \<in> set ?rows" if "r \<in> set t" "ie_event_id r \<in> set ids" for r
    using sub that inj rows by (auto dest: inj_onD)
  have newest: "inbox_sent_age r \<le> inbox_sent_age q"
    if "r \<in> set t" "ie_event_id r \<in> set ids" "q \<in> set u" "ie_status q = Sent" for r q
    using that sent [OF that(1,2)] u ids
      drop_newest [OF dist order_by_desc_sorted, of r "nat (max 0 keep)" q] rows
    by (auto simp: sql_delete_keys_def)
  have "set u = {r \<in> set t. ie_event_id r \<notin> set ids}" by (simp add: u sql_delete_keys_def)
  moreover have "ie_status r = Sent" if "r \<in> set t" "ie_event_id r \<in> set ids" for r
    using sent [OF that] rows by blast
  moreover have "length ids = length (filter (\<lambda>r. ie_status r = Sent) t) - nat (max 0 keep)"
    by (simp only: ids length_drop length_map length_order_by)
  ultimately show ?thesis using newest by blast
qed

theorem inbox_delete_sent_keeps_unsent_and_newest_witness:
  fixes r :: "string \<Rightarrow> inbox_status \<Rightarrow> string \<Rightarrow> inbox_event"
  defines "r i s w \<equiv> \<lparr>ie_event_id = i, ie_event_type = ''EXIT'', ie_mk_date = None,
     ie_monotonic_ns = 5, ie_wall_synced = True, ie_device_id = None, ie_score = None,
     ie_raw_payload = [], ie_status = s, ie_ssid_at_receive = None,
     ie_profile_at_send = Some ''P'', ie_mk_date_committed = Some ''2026'', ie_received_at_iso = w,
     ie_sent_at_iso = Some w, ie_retry_count = 1, ie_next_retry_at_iso = None, ie_last_error = None\<rparr>"
  shows "inbox_delete_sent 1 [r ''a'' Sent ''1'', r ''b'' Received ''2'', r ''c'' Sent ''3'']
       = ([r ''b'' Received ''2'', r ''c'' Sent ''3''], [''a''])
    \<and> inbox_sent_age (r ''a'' Sent ''1'') \<le> inbox_sent_age (r ''c'' Sent ''3'')"
proof -
  let ?t = "[r ''a'' Sent ''1'', r ''b'' Received ''2'', r ''c'' Sent ''3'']"
  have e: "inbox_delete_sent 1 ?t = ([r ''b'' Received ''2'', r ''c'' Sent ''3''], [''a''])"
    by (simp add: inbox_delete_sent_def order_by_desc_def inbox_sent_age_def sql_delete_keys_def
        r_def less_char_def)
  have "inbox_wf ?t" by (simp add: inbox_wf_def inbox_row_wf_def inbox_check_def r_def)
  note law = inbox_delete_sent_keeps_unsent_and_newest [OF this e]
  show ?thesis using e law by (simp add: r_def)
qed

text \<open>\<open>ring_evict\<close> brings the inbox to \<open>max_rows\<close> exactly, counts what it deleted, and deletes an
  unsent event only when no sent event is left in the table.\<close>

theorem inbox_ring_evict_bounds_and_prefers_sent:
  assumes "inbox_wf t" and "0 \<le> m"
  shows "length (fst (inbox_ring_evict m t)) = min (length t) (nat m)
    \<and> snd (inbox_ring_evict m t) = length t - nat m
    \<and> (\<forall>r \<in> set t - set (fst (inbox_ring_evict m t)). ie_status r = Received \<longrightarrow>
         (\<forall>q \<in> set (fst (inbox_ring_evict m t)). ie_status q = Received))"
proof -
  have d: "distinct (map ie_event_id t)" using assms(1) by (simp add: inbox_wf_def)
  have "ie_status q = Received"
    if "r \<in> set t" "r \<notin> set (fst (inbox_ring_evict m t))" "ie_status r = Received"
      "q \<in> set (fst (inbox_ring_evict m t))" for r q
    using inbox_ring.evict_keeps_later_status [OF d, of "[Sent]" Received "[]" Sent r m q] that
    by (cases "ie_status q") auto
  with inbox_ring.evict_count [OF d assms(2)] show ?thesis by blast
qed

theorem inbox_ring_evict_bounds_and_prefers_sent_witness:
  fixes r :: "string \<Rightarrow> inbox_status \<Rightarrow> string \<Rightarrow> inbox_event"
  defines "r i s w \<equiv> \<lparr>ie_event_id = i, ie_event_type = ''EXIT'', ie_mk_date = None,
     ie_monotonic_ns = 5, ie_wall_synced = True, ie_device_id = None, ie_score = None,
     ie_raw_payload = [], ie_status = s, ie_ssid_at_receive = None,
     ie_profile_at_send = Some ''P'', ie_mk_date_committed = Some ''2026'', ie_received_at_iso = w,
     ie_sent_at_iso = Some w, ie_retry_count = 1, ie_next_retry_at_iso = None, ie_last_error = None\<rparr>"
  shows "length (fst (inbox_ring_evict 1 [r ''a'' Received ''1'', r ''b'' Sent ''2'', r ''c'' Received ''3''])) = 1
    \<and> snd (inbox_ring_evict 1 [r ''a'' Received ''1'', r ''b'' Sent ''2'', r ''c'' Received ''3'']) = 2"
proof -
  let ?t = "[r ''a'' Received ''1'', r ''b'' Sent ''2'', r ''c'' Received ''3'']"
  have "inbox_wf ?t" by (simp add: inbox_wf_def inbox_row_wf_def inbox_check_def r_def)
  from inbox_ring_evict_bounds_and_prefers_sent [OF this, of 1] show ?thesis by simp
qed

end
