(* ===== verification/Record_Inbox.thy ===== *)
theory Record_Inbox
  imports Inbox
begin

text \<open>
  \<open>services/bridge/src/record_inbox.py\<close>: the durable table of the child devices' records. Beside
  \<open>received\<close> and \<open>sent\<close> a row can be \<open>failed\<close>: given up, never retried.
\<close>

datatype record_status = RReceived | RSent | RFailed

text \<open>The order in which rows are given up: confirmed ones first, those still to be sent last.\<close>

fun status_worth :: "record_status \<Rightarrow> nat" where
  "status_worth RSent = 0"
| "status_worth RFailed = 1"
| "status_worth RReceived = 2"

lemma status_worth_inj [simp]: "status_worth a = status_worth b \<longleftrightarrow> a = b"
  by (cases a; cases b) simp_all

instantiation record_status :: linorder
begin

definition less_eq_record_status :: "record_status \<Rightarrow> record_status \<Rightarrow> bool" where
  "less_eq_record_status a b = (status_worth a \<le> status_worth b)"

definition less_record_status :: "record_status \<Rightarrow> record_status \<Rightarrow> bool" where
  "less_record_status a b = (status_worth a < status_worth b)"

instance
  by standard (auto simp: less_eq_record_status_def less_record_status_def)

end

record record_event =
  re_event_id :: string
  re_mk_date :: string
  re_sta_no1 :: string
  re_sta_no2 :: string
  re_sta_no3 :: string
  re_t1_status :: int
  re_device_id :: "string option"
  re_raw_payload :: string
  re_status :: record_status
  re_received_at_iso :: string
  re_sent_at_iso :: "string option"
  re_mk_date_committed :: "string option"
  re_retry_count :: int
  re_next_retry_at_iso :: "string option"
  re_last_error :: "string option"
  re_failed_at_iso :: "string option"

type_synonym record_inbox = "record_event list"

text \<open>The column list of the \<open>INSERT\<close> leaves \<open>failed_at_iso\<close> out, so it is NULL.\<close>

definition rec_insert_received :: "record_event \<Rightarrow> record_inbox \<Rightarrow> record_inbox py" where
  "rec_insert_received e t =
     (if \<not> sqlite_int_ok (re_t1_status e) \<or> \<not> sqlite_int_ok (re_retry_count e) then Inl OverflowError
      else Inr (sql_insert_ignore re_event_id (e\<lparr>re_failed_at_iso := None\<rparr>) t))"

definition rec_mark_sent :: "string \<Rightarrow> string \<Rightarrow> string \<Rightarrow> record_inbox \<Rightarrow> record_inbox" where
  "rec_mark_sent event_id mk_date_committed sent_at_iso t =
     sql_update (\<lambda>r. re_event_id r = event_id)
       (\<lambda>r. r\<lparr>re_status := RSent, re_mk_date_committed := Some mk_date_committed,
              re_sent_at_iso := Some sent_at_iso\<rparr>) t"

definition rec_mark_failed :: "string \<Rightarrow> string \<Rightarrow> string \<Rightarrow> record_inbox \<Rightarrow> record_inbox" where
  "rec_mark_failed event_id failed_at_iso last_error t =
     sql_update (\<lambda>r. re_event_id r = event_id)
       (\<lambda>r. r\<lparr>re_status := RFailed, re_failed_at_iso := Some failed_at_iso,
              re_last_error := Some last_error\<rparr>) t"

definition rec_update_retry :: "string \<Rightarrow> int \<Rightarrow> string \<Rightarrow> string \<Rightarrow> record_inbox \<Rightarrow> record_inbox" where
  "rec_update_retry event_id retry_count next_retry_at_iso last_error t =
     sql_update (\<lambda>r. re_event_id r = event_id)
       (\<lambda>r. r\<lparr>re_retry_count := retry_count, re_next_retry_at_iso := Some next_retry_at_iso,
              re_last_error := Some last_error\<rparr>) t"

definition rec_iter_received_due :: "string \<Rightarrow> record_inbox \<Rightarrow> record_event list" where
  "rec_iter_received_due now_iso t =
     order_by re_received_at_iso
       (filter (\<lambda>r. re_status r = RReceived \<and> due_at (re_next_retry_at_iso r) now_iso) t)"

definition rec_get :: "string \<Rightarrow> record_inbox \<Rightarrow> record_event option" where
  "rec_get event_id t = find (\<lambda>r. re_event_id r = event_id) t"

definition rec_count :: "record_inbox \<Rightarrow> nat" where
  "rec_count t = length t"

definition rec_sent_age :: "record_event \<Rightarrow> string" where
  "rec_sent_age r = (case re_sent_at_iso r of Some s \<Rightarrow> s | None \<Rightarrow> re_received_at_iso r)"

definition rec_delete_sent :: "int \<Rightarrow> record_inbox \<Rightarrow> record_inbox \<times> string list" where
  "rec_delete_sent keep_newest t =
     (let rows = map re_event_id (order_by_desc rec_sent_age (filter (\<lambda>r. re_status r = RSent) t));
          ids = drop (nat (max 0 keep_newest)) rows
      in (sql_delete_keys re_event_id ids t, ids))"

definition rec_ring_evict :: "int \<Rightarrow> record_inbox \<Rightarrow> record_inbox \<times> nat" where
  "rec_ring_evict max_rows t =
     ring_evict_rows re_event_id re_status re_received_at_iso [RSent, RFailed, RReceived] max_rows t"

text \<open>
  The file on disk: whether its table already has the column \<open>failed_at_iso\<close>, and the rows. An
  older table is rebuilt and the rows copied column by column; the new column is NULL.
\<close>

record record_db =
  rdb_has_failed_at :: bool
  rdb_rows :: record_inbox

definition migrate_add_failed_status :: "record_db \<Rightarrow> record_db" where
  "migrate_add_failed_status db =
     (if rdb_has_failed_at db then db
      else \<lparr>rdb_has_failed_at = True, rdb_rows = map (\<lambda>r. r\<lparr>re_failed_at_iso := None\<rparr>) (rdb_rows db)\<rparr>)"

text \<open>\<open>init\<close>: create the table when there is none, then migrate.\<close>

definition record_inbox_init :: "record_db option \<Rightarrow> record_db" where
  "record_inbox_init db =
     migrate_add_failed_status (case db of None \<Rightarrow> \<lparr>rdb_has_failed_at = True, rdb_rows = []\<rparr> | Some d \<Rightarrow> d)"

section \<open>Facts\<close>

definition rec_row_wf :: "record_event \<Rightarrow> bool" where
  "rec_row_wf r = (case re_status r of
      RReceived \<Rightarrow> True
    | RSent \<Rightarrow> re_mk_date_committed r \<noteq> None \<and> re_sent_at_iso r \<noteq> None
    | RFailed \<Rightarrow> re_failed_at_iso r \<noteq> None \<and> re_last_error r \<noteq> None)"

definition rec_wf :: "record_inbox \<Rightarrow> bool" where
  "rec_wf t = (distinct (map re_event_id t) \<and> (\<forall>r \<in> set t. rec_row_wf r))"

lemma rec_wf_empty [simp]: "rec_wf []"
  by (simp add: rec_wf_def)

lemma rec_wf_sub: "rec_wf t \<Longrightarrow> distinct (map re_event_id u) \<Longrightarrow> set u \<subseteq> set t \<Longrightarrow> rec_wf u"
  by (auto simp: rec_wf_def)

lemma rec_wf_update:
  assumes "rec_wf t" and "\<And>r. re_event_id (f r) = re_event_id r"
    and "\<And>r. r \<in> set t \<Longrightarrow> P r \<Longrightarrow> rec_row_wf r \<Longrightarrow> rec_row_wf (f r)"
  shows "rec_wf (sql_update P f t)"
proof -
  have "map re_event_id (sql_update P f t) = map re_event_id t"
    by (rule sql_update_keys) (rule assms(2))
  moreover have "\<forall>r \<in> set (sql_update P f t). rec_row_wf r"
    using assms(1,3) by (auto simp: sql_update_def rec_wf_def)
  ultimately show ?thesis using assms(1) by (simp add: rec_wf_def)
qed

lemma rec_update_keys [row_laws]:
  "map re_event_id (rec_mark_sent i m s t) = map re_event_id t"
  "map re_event_id (rec_mark_failed i x e t) = map re_event_id t"
  "map re_event_id (rec_update_retry i n x e t) = map re_event_id t"
  by (simp_all add: rec_mark_sent_def rec_mark_failed_def rec_update_retry_def sql_update_keys)

lemma rec_mark_sent_get:
  "rec_get k (rec_mark_sent i m s t)
     = (if k = i then map_option (\<lambda>r. r\<lparr>re_status := RSent, re_mk_date_committed := Some m,
          re_sent_at_iso := Some s\<rparr>) (rec_get k t) else rec_get k t)"
  unfolding rec_get_def rec_mark_sent_def by (rule sql_update_find) simp

lemma rec_mark_failed_get:
  "rec_get k (rec_mark_failed i x e t)
     = (if k = i then map_option (\<lambda>r. r\<lparr>re_status := RFailed, re_failed_at_iso := Some x,
          re_last_error := Some e\<rparr>) (rec_get k t) else rec_get k t)"
  unfolding rec_get_def rec_mark_failed_def by (rule sql_update_find) simp

lemma rec_update_retry_get:
  "rec_get k (rec_update_retry i n x e t)
     = (if k = i then map_option (\<lambda>r. r\<lparr>re_retry_count := n, re_next_retry_at_iso := Some x,
          re_last_error := Some e\<rparr>) (rec_get k t) else rec_get k t)"
  unfolding rec_get_def rec_update_retry_def by (rule sql_update_find) simp

lemma rec_insert_get:
  "rec_insert_received e t = Inr t' \<Longrightarrow>
     rec_get k t' = (case rec_get k t of Some x \<Rightarrow> Some x
        | None \<Rightarrow> if re_event_id e = k then Some (e\<lparr>re_failed_at_iso := None\<rparr>) else None)"
  by (auto simp: rec_insert_received_def rec_get_def sql_insert_find split: if_splits)

lemma rec_get_iff: "rec_wf t \<Longrightarrow> rec_get k t = Some r \<longleftrightarrow> r \<in> set t \<and> re_event_id r = k"
  by (simp add: rec_get_def rec_wf_def find_key_Some_iff)

lemma rec_wf_mark_sent [step_laws]: "rec_wf t \<Longrightarrow> rec_wf (rec_mark_sent i m s t)"
  unfolding rec_mark_sent_def by (rule rec_wf_update) (simp_all add: rec_row_wf_def)

lemma rec_wf_mark_failed [step_laws]: "rec_wf t \<Longrightarrow> rec_wf (rec_mark_failed i x e t)"
  unfolding rec_mark_failed_def by (rule rec_wf_update) (simp_all add: rec_row_wf_def)

lemma rec_wf_update_retry [step_laws]: "rec_wf t \<Longrightarrow> rec_wf (rec_update_retry i n x e t)"
  unfolding rec_update_retry_def
  by (rule rec_wf_update) (simp_all add: rec_row_wf_def split: record_status.splits)

lemma rec_wf_insert [step_laws]:
  "rec_wf t \<Longrightarrow> rec_insert_received e t = Inr t' \<Longrightarrow> re_status e = RReceived \<Longrightarrow> rec_wf t'"
  by (auto simp: rec_insert_received_def rec_wf_def sql_insert_ignore_def rec_row_wf_def
      split: if_splits)

lemma rec_wf_delete_sent [step_laws]: "rec_wf t \<Longrightarrow> rec_wf (fst (rec_delete_sent n t))"
  using sql_delete_distinct [of re_event_id t] sql_delete_subset [of re_event_id _ t]
  by (auto simp: rec_delete_sent_def Let_def intro!: rec_wf_sub [of t]) (auto simp: rec_wf_def)

lemma record_status_set: "s \<in> set [RSent, RFailed, RReceived]"
  by (cases s) simp_all

interpretation rec_ring: bounded_store re_event_id re_status re_received_at_iso
  "[RSent, RFailed, RReceived]" rec_ring_evict
  by unfold_locales (simp add: rec_ring_evict_def, rule record_status_set, simp)

lemma rec_wf_ring_evict [step_laws]: "rec_wf t \<Longrightarrow> rec_wf (fst (rec_ring_evict m t))"
  using rec_ring.evict_distinct [of t m] rec_ring.evict_subset [of m t]
  by (auto intro!: rec_wf_sub [of t]) (auto simp: rec_wf_def)

lemma rec_due_member:
  "r \<in> set (rec_iter_received_due now t)
     \<longleftrightarrow> r \<in> set t \<and> re_status r = RReceived \<and> due_at (re_next_retry_at_iso r) now"
  by (auto simp: rec_iter_received_due_def)

lemma rec_due_distinct: "rec_wf t \<Longrightarrow> distinct (map re_event_id (rec_iter_received_due now t))"
  by (simp add: rec_iter_received_due_def distinct_order_by distinct_map_filter rec_wf_def)

section \<open>Properties\<close>

text \<open>Opening the record store is safe to repeat: a second \<open>init\<close> changes nothing, and the
  migration of an old file keeps every row in order with all its old columns.\<close>

theorem record_init_idempotent_and_lossless:
  "record_inbox_init (Some (record_inbox_init db)) = record_inbox_init db
   \<and> rdb_has_failed_at (record_inbox_init db)
   \<and> (\<forall>d. db = Some d \<longrightarrow> list_all2 (\<lambda>old new. new = old \<or> new = old\<lparr>re_failed_at_iso := None\<rparr>)
        (rdb_rows d) (rdb_rows (record_inbox_init db)))"
  by (auto simp: record_inbox_init_def migrate_add_failed_status_def list_all2_map2
      split: option.splits intro: list_all2_refl)

definition example_old_row :: record_event where
  "example_old_row =
     \<lparr>re_event_id = ''r1'', re_mk_date = ''20260101000000'', re_sta_no1 = ''A'', re_sta_no2 = ''B'', re_sta_no3 = ''C'',
      re_t1_status = 1, re_device_id = Some ''pi'', re_raw_payload = ''x'', re_status = RReceived,
      re_received_at_iso = ''2026-01-01T00:00:00+00:00'', re_sent_at_iso = None, re_mk_date_committed = None,
      re_retry_count = 0, re_next_retry_at_iso = None, re_last_error = None, re_failed_at_iso = None\<rparr>"

theorem record_init_idempotent_and_lossless_witness:
  "list_all2 (\<lambda>old new. new = old \<or> new = old\<lparr>re_failed_at_iso := None\<rparr>) [example_old_row]
     (rdb_rows (record_inbox_init (Some \<lparr>rdb_has_failed_at = False, rdb_rows = [example_old_row]\<rparr>)))"
  using record_init_idempotent_and_lossless [of "Some \<lparr>rdb_has_failed_at = False, rdb_rows = [example_old_row]\<rparr>",
      THEN conjunct2, THEN conjunct2, rule_format, OF refl]
  by (simp only: record_db.select_convs)

text \<open>C38: under pressure the record store gives up confirmed rows first, then rows already given up,
  and an unsent record only when the table holds nothing else.\<close>

theorem record_ring_evict_unsent_last:
  assumes "rec_wf t" and "0 \<le> m"
  shows "length (fst (rec_ring_evict m t)) = min (length t) (nat m)
    \<and> (\<forall>r \<in> set t - set (fst (rec_ring_evict m t)). \<forall>q \<in> set (fst (rec_ring_evict m t)). re_status r \<le> re_status q)"
proof -
  have d: "distinct (map re_event_id t)" using assms(1) by (simp add: rec_wf_def)
  note law = rec_ring.evict_keeps_later_status [OF d]
  have "re_status r \<le> re_status q"
    if "r \<in> set t" "r \<notin> set (fst (rec_ring_evict m t))" "q \<in> set (fst (rec_ring_evict m t))" for r q
    using law [of "[RSent, RFailed]" RReceived "[]" RSent r m q] law [of "[RSent, RFailed]" RReceived "[]" RFailed r m q]
      law [of "[RSent]" RFailed "[RReceived]" RSent r m q] that
    by (cases "re_status r"; cases "re_status q") (auto simp: less_eq_record_status_def)
  then show ?thesis using rec_ring.evict_count [OF d assms(2)] by blast
qed

theorem record_ring_evict_unsent_last_witness:
  fixes r :: "string \<Rightarrow> record_status \<Rightarrow> string \<Rightarrow> record_event"
  defines "r i s w \<equiv> \<lparr>re_event_id = i, re_mk_date = ''20260610173000'', re_sta_no1 = ''1'',
     re_sta_no2 = ''2'', re_sta_no3 = ''3'', re_t1_status = 1, re_device_id = None,
     re_raw_payload = [], re_status = s, re_received_at_iso = w, re_sent_at_iso = Some w,
     re_mk_date_committed = Some ''20260610173000'', re_retry_count = 0,
     re_next_retry_at_iso = None, re_last_error = Some [], re_failed_at_iso = Some w\<rparr>"
  shows "length (fst (rec_ring_evict 1 [r ''a'' RReceived ''1'', r ''b'' RFailed ''2'', r ''c'' RSent ''3''])) = 1"
proof -
  have "rec_wf [r ''a'' RReceived ''1'', r ''b'' RFailed ''2'', r ''c'' RSent ''3'']"
    by (simp add: rec_wf_def rec_row_wf_def r_def)
  from record_ring_evict_unsent_last [OF this, of 1] show ?thesis by simp
qed

end
