(* ===== verification/Circuit_Breaker.thy ===== *)
theory Circuit_Breaker
  imports Py_Prelude
begin

text \<open>
  \<open>services/bridge/src/circuit_breaker.py\<close>: one entry per Oracle profile. Times are the instants
  of aware datetimes, in microseconds; the timeout is in microseconds as well
  (\<open>timedelta(seconds=half_open_after_seconds)\<close>).
\<close>

datatype circuit_state = CClosed | COpen | CHalfOpen

record profile_entry =
  cb_state :: circuit_state
  cb_opened_at :: "int option"
  cb_last_ora_code :: "int option"

definition fresh_entry :: profile_entry where
  "fresh_entry = \<lparr>cb_state = CClosed, cb_opened_at = None, cb_last_ora_code = None\<rparr>"

record circuit_breaker =
  cb_timeout :: int
  cb_permanent :: "int list"
  cb_entries :: "string \<rightharpoonup> profile_entry"

definition new_breaker :: "int \<Rightarrow> int list \<Rightarrow> circuit_breaker" where
  "new_breaker half_open_after_seconds permanent_codes =
     \<lparr>cb_timeout = half_open_after_seconds * 1000000, cb_permanent = permanent_codes,
      cb_entries = Map.empty\<rparr>"

definition is_permanent_error :: "int option \<Rightarrow> int list \<Rightarrow> bool" where
  "is_permanent_error ora_code permanent_codes =
     (case ora_code of None \<Rightarrow> False | Some c \<Rightarrow> c \<in> set permanent_codes)"

text \<open>\<open>setdefault\<close>: the entry of the profile, a fresh one when there is none.\<close>

definition cb_entry :: "circuit_breaker \<Rightarrow> string \<Rightarrow> profile_entry" where
  "cb_entry b p = (case cb_entries b p of None \<Rightarrow> fresh_entry | Some e \<Rightarrow> e)"

definition cb_put :: "string \<Rightarrow> profile_entry \<Rightarrow> circuit_breaker \<Rightarrow> circuit_breaker" where
  "cb_put p e b = b\<lparr>cb_entries := (cb_entries b)(p \<mapsto> e)\<rparr>"

definition state_for :: "string \<Rightarrow> int option \<Rightarrow> circuit_breaker \<Rightarrow> circuit_state \<times> circuit_breaker" where
  "state_for p now b =
     (let e = cb_entry b p;
          e' = (case (cb_state e, cb_opened_at e, now) of
                  (COpen, Some opened, Some t) \<Rightarrow>
                    if t - opened \<ge> cb_timeout b then e\<lparr>cb_state := CHalfOpen\<rparr> else e
                | _ \<Rightarrow> e)
      in (cb_state e', cb_put p e' b))"

definition record_failure :: "string \<Rightarrow> int option \<Rightarrow> int \<Rightarrow> circuit_breaker \<Rightarrow> circuit_breaker" where
  "record_failure p ora_code now b =
     (let e = cb_entry b p
      in if \<not> is_permanent_error ora_code (cb_permanent b) then cb_put p e b
         else cb_put p (e\<lparr>cb_state := COpen, cb_opened_at := Some now, cb_last_ora_code := ora_code\<rparr>) b)"

definition record_success :: "string \<Rightarrow> circuit_breaker \<Rightarrow> circuit_breaker" where
  "record_success p b =
     cb_put p ((cb_entry b p)\<lparr>cb_state := CClosed, cb_opened_at := None, cb_last_ora_code := None\<rparr>) b"

section \<open>Facts\<close>

lemmas breaker_defs = state_for_def record_failure_def record_success_def cb_put_def cb_entry_def
  fresh_entry_def Let_def

lemma cb_timeout_unchanged [simp, step_laws]:
  "cb_timeout (snd (state_for p now b)) = cb_timeout b"
  "cb_timeout (record_failure p c t b) = cb_timeout b"
  "cb_timeout (record_success p b) = cb_timeout b"
  by (simp_all add: breaker_defs)

lemma cb_permanent_unchanged [simp, step_laws]:
  "cb_permanent (snd (state_for p now b)) = cb_permanent b"
  "cb_permanent (record_failure p c t b) = cb_permanent b"
  "cb_permanent (record_success p b) = cb_permanent b"
  by (simp_all add: breaker_defs)

lemma cb_put_entry [simp]: "cb_entry (cb_put q e b) p = (if p = q then e else cb_entry b p)"
  by (simp add: cb_entry_def cb_put_def)

lemma cb_other_profile [step_laws]:
  assumes "p \<noteq> q"
  shows "cb_entry (snd (state_for q now b)) p = cb_entry b p"
    and "cb_entry (record_failure q c t b) p = cb_entry b p"
    and "cb_entry (record_success q b) p = cb_entry b p"
  using assms by (simp_all add: state_for_def record_failure_def record_success_def Let_def)

text \<open>The entry's shape: an open or half-open entry remembers when it opened and why.\<close>

definition entry_wf :: "int list \<Rightarrow> profile_entry \<Rightarrow> bool" where
  "entry_wf perm e =
     (case cb_state e of
        CClosed \<Rightarrow> cb_opened_at e = None \<and> cb_last_ora_code e = None
      | _ \<Rightarrow> cb_opened_at e \<noteq> None \<and> is_permanent_error (cb_last_ora_code e) perm)"

definition breaker_wf :: "circuit_breaker \<Rightarrow> bool" where
  "breaker_wf b = (\<forall>p e. cb_entries b p = Some e \<longrightarrow> entry_wf (cb_permanent b) e)"

lemma breaker_wf_entry: "breaker_wf b \<Longrightarrow> entry_wf (cb_permanent b) (cb_entry b p)"
  by (auto simp: breaker_wf_def cb_entry_def entry_wf_def fresh_entry_def split: option.splits)

lemma breaker_wf_put: "breaker_wf b \<Longrightarrow> entry_wf (cb_permanent b) e \<Longrightarrow> breaker_wf (cb_put p e b)"
  by (simp add: breaker_wf_def cb_put_def)

lemma new_breaker_simps [simp]:
  "cb_timeout (new_breaker secs perm) = secs * 1000000"
  "cb_permanent (new_breaker secs perm) = perm"
  "cb_entry (new_breaker secs perm) p = fresh_entry"
  by (simp_all add: new_breaker_def cb_entry_def)

lemma breaker_wf_new: "breaker_wf (new_breaker s cs)"
  by (simp add: breaker_wf_def new_breaker_def)

lemma breaker_wf_state_for: "breaker_wf b \<Longrightarrow> breaker_wf (snd (state_for p now b))"
  using breaker_wf_entry [of b p]
  by (auto simp: state_for_def Let_def entry_wf_def intro!: breaker_wf_put
      split: circuit_state.splits option.splits)

lemma breaker_wf_failure: "breaker_wf b \<Longrightarrow> breaker_wf (record_failure p c t b)"
  using breaker_wf_entry [of b p]
  by (auto simp: record_failure_def Let_def entry_wf_def intro!: breaker_wf_put)

lemma breaker_wf_success: "breaker_wf b \<Longrightarrow> breaker_wf (record_success p b)"
  by (auto simp: record_success_def entry_wf_def intro!: breaker_wf_put)

lemmas breaker_wf_steps = breaker_wf_new breaker_wf_state_for breaker_wf_failure breaker_wf_success

text \<open>What the sender asks: may this profile be used at \<open>t\<close>?\<close>

lemma state_for_open_iff:
  assumes "breaker_wf b"
  shows "fst (state_for p (Some t) b) = COpen
     \<longleftrightarrow> cb_state (cb_entry b p) = COpen
         \<and> t - the (cb_opened_at (cb_entry b p)) < cb_timeout b"
  using breaker_wf_entry [OF assms, of p]
  by (auto simp: state_for_def Let_def entry_wf_def split: circuit_state.splits option.splits)

text \<open>
  A run of the breaker over one profile. The abstract reading of the state is the time of the
  permanent failure that has not been followed by a success.
\<close>

datatype breaker_op = Ask int | Fail "int option" int | Succeed

fun breaker_step :: "string \<Rightarrow> breaker_op \<Rightarrow> circuit_breaker \<Rightarrow> circuit_breaker" where
  "breaker_step p (Ask t) b = snd (state_for p (Some t) b)"
| "breaker_step p (Fail c t) b = record_failure p c t b"
| "breaker_step p Succeed b = record_success p b"

fun last_trip :: "int list \<Rightarrow> breaker_op list \<Rightarrow> int option \<Rightarrow> int option" where
  "last_trip perm [] acc = acc"
| "last_trip perm (Ask t # ops) acc = last_trip perm ops acc"
| "last_trip perm (Fail c t # ops) acc =
     last_trip perm ops (if is_permanent_error c perm then Some t else acc)"
| "last_trip perm (Succeed # ops) acc = last_trip perm ops None"

lemma breaker_step_opened:
  "cb_opened_at (cb_entry (breaker_step p op b) p)
     = last_trip (cb_permanent b) [op] (cb_opened_at (cb_entry b p))"
  by (cases op) (auto simp: state_for_def record_failure_def record_success_def Let_def
      split: circuit_state.splits option.splits)

lemma breaker_step_permanent [simp]: "cb_permanent (breaker_step p op b) = cb_permanent b"
  by (cases op) simp_all

lemma breaker_step_timeout [simp]: "cb_timeout (breaker_step p op b) = cb_timeout b"
  by (cases op) simp_all

lemma breaker_step_wf: "breaker_wf b \<Longrightarrow> breaker_wf (breaker_step p op b)"
  by (cases op) (simp_all add: breaker_wf_steps)

lemma last_trip_cons: "last_trip perm (op # ops) acc = last_trip perm ops (last_trip perm [op] acc)"
  by (cases op) simp_all

lemma breaker_run_opened:
  "cb_opened_at (cb_entry (fold (breaker_step p) ops b) p)
     = last_trip (cb_permanent b) ops (cb_opened_at (cb_entry b p))"
proof (induction ops arbitrary: b)
  case Nil
  then show ?case by simp
next
  case (Cons op ops)
  have "cb_opened_at (cb_entry (fold (breaker_step p) ops (breaker_step p op b)) p)
      = last_trip (cb_permanent b) ops (cb_opened_at (cb_entry (breaker_step p op b) p))"
    using Cons.IH [of "breaker_step p op b"] by simp
  then show ?case by (simp add: breaker_step_opened last_trip_cons [of _ op ops])
qed

lemma breaker_run_wf: "breaker_wf b \<Longrightarrow> breaker_wf (fold (breaker_step p) ops b)"
  by (induction ops arbitrary: b) (simp_all add: breaker_step_wf)

text \<open>A half-open entry only comes from an open one whose timeout has passed.\<close>

lemma state_for_open_recent:
  assumes "breaker_wf b" and "fst (state_for p (Some t) b) = COpen"
  shows "\<exists>t0. cb_opened_at (cb_entry b p) = Some t0 \<and> t - t0 < cb_timeout b"
  using assms breaker_wf_entry [OF assms(1), of p]
  by (auto simp: state_for_open_iff entry_wf_def)

lemma breaker_run_timeout [simp]: "cb_timeout (fold (breaker_step p) ops b) = cb_timeout b"
  by (induction ops arbitrary: b) simp_all

section \<open>Properties\<close>

text \<open>C31: the breaker blocks a profile only within the timeout of a permanent ORA failure that no
  success has followed, whatever the sequence of questions, failures and successes was.\<close>

theorem breaker_blocks_only_after_permanent_failure:
  assumes "fst (state_for p (Some t) (fold (breaker_step p) ops (new_breaker secs perm))) = COpen"
  shows "\<exists>t0. last_trip perm ops None = Some t0 \<and> t - t0 < secs * 1000000"
proof -
  let ?b = "fold (breaker_step p) ops (new_breaker secs perm)"
  have wf: "breaker_wf ?b" by (intro breaker_run_wf breaker_wf_new)
  obtain t0 where "cb_opened_at (cb_entry ?b p) = Some t0" and "t - t0 < cb_timeout ?b"
    using state_for_open_recent [OF wf assms] by blast
  then show ?thesis
    by (simp add: breaker_run_opened fresh_entry_def)
qed

theorem breaker_blocks_only_after_permanent_failure_witness:
  "\<exists>t0. last_trip [942] [Fail (Some 942) 7] None = Some t0 \<and> 8 - t0 < 900 * 1000000"
proof -
  have "fst (state_for ''P'' (Some 8)
      (fold (breaker_step ''P'') [Fail (Some 942) 7] (new_breaker 900 [942]))) = COpen"
    by (simp add: breaker_defs new_breaker_def is_permanent_error_def)
  then show ?thesis by (rule breaker_blocks_only_after_permanent_failure)
qed

end
