(* ===== verification/Profile_Resolver.thy ===== *)
theory Profile_Resolver
  imports Py_Value
begin

text \<open>
  \<open>services/bridge/src/profile_resolver.py\<close>: which Oracle profile the current SSID selects, what
  happens under an unknown SSID, and the redaction of secrets for the log.
\<close>

datatype action = ASend | AHold | ADrop

record resolver_decision =
  rd_action :: action
  rd_profile_name :: "string option"

record profile_resolver =
  pr_profiles :: "pyval dict"
  pr_policy :: string
  pr_last_known :: "string option"

definition new_resolver :: "pyval dict \<Rightarrow> string \<Rightarrow> profile_resolver" where
  "new_resolver profiles unknown_policy =
     \<lparr>pr_profiles = profiles, pr_policy = unknown_policy, pr_last_known = None\<rparr>"

definition known_ssid :: "profile_resolver \<Rightarrow> string option \<Rightarrow> bool" where
  "known_ssid r ssid = (truthy_str ssid \<and> the ssid \<in> set (dict_keys (pr_profiles r)))"

definition unknown_decision :: "profile_resolver \<Rightarrow> resolver_decision" where
  "unknown_decision r =
     (if pr_policy r = ''use_last'' \<and> truthy_str (pr_last_known r)
        then \<lparr>rd_action = ASend, rd_profile_name = pr_last_known r\<rparr>
      else if pr_policy r = ''drop'' then \<lparr>rd_action = ADrop, rd_profile_name = None\<rparr>
      else \<lparr>rd_action = AHold, rd_profile_name = None\<rparr>)"

definition resolve :: "string option \<Rightarrow> profile_resolver \<Rightarrow> resolver_decision \<times> profile_resolver" where
  "resolve ssid r =
     (if known_ssid r ssid
        then (\<lparr>rd_action = ASend, rd_profile_name = ssid\<rparr>, r\<lparr>pr_last_known := ssid\<rparr>)
      else (unknown_decision r, r))"

definition peek :: "string option \<Rightarrow> profile_resolver \<Rightarrow> resolver_decision" where
  "peek ssid r =
     (if known_ssid r ssid then \<lparr>rd_action = ASend, rd_profile_name = ssid\<rparr> else unknown_decision r)"

definition resolver_get :: "profile_resolver \<Rightarrow> string \<Rightarrow> pyval py" where
  "resolver_get r profile_name =
     (case dict_get (pr_profiles r) profile_name of None \<Rightarrow> Inl KeyError | Some p \<Rightarrow> Inr p)"

section \<open>Redaction\<close>

definition redacted :: string where
  "redacted = ''***''"

definition secret_keys :: "string list" where
  "secret_keys = [''password'', ''wallet_password'']"

fun is_str :: "pyval \<Rightarrow> bool" where
  "is_str (PStr _) = True"
| "is_str _ = False"

fun redact_for_logging :: "pyval \<Rightarrow> pyval" where
  "redact_for_logging (PDict d) =
     PDict (map (\<lambda>(k, v). if k \<in> set secret_keys \<and> is_str v then (k, PStr redacted)
                          else (k, redact_for_logging v)) d)"
| "redact_for_logging (PList xs) = PList (map redact_for_logging xs)"
| "redact_for_logging v = v"

text \<open>The places a value holds: the dict keys and list positions that lead to each string.\<close>

fun secrets_of :: "pyval \<Rightarrow> string list" where
  "secrets_of (PDict d) =
     concat (map (\<lambda>(k, v). case v of PStr s \<Rightarrow> if k \<in> set secret_keys then [s] else [] | _ \<Rightarrow> secrets_of v) d)"
| "secrets_of (PList xs) = concat (map secrets_of xs)"
| "secrets_of _ = []"

section \<open>Facts\<close>

lemma peek_is_resolve: "peek ssid r = fst (resolve ssid r)"
  by (simp add: peek_def resolve_def)

lemma resolve_profiles [simp, step_laws]:
  "pr_profiles (snd (resolve ssid r)) = pr_profiles r"
  "pr_policy (snd (resolve ssid r)) = pr_policy r"
  by (simp_all add: resolve_def)

text \<open>The resolver remembers only names of profiles it has.\<close>

definition resolver_wf :: "profile_resolver \<Rightarrow> bool" where
  "resolver_wf r = (\<forall>p. pr_last_known r = Some p \<longrightarrow> p \<in> set (dict_keys (pr_profiles r)))"

lemma new_resolver_simps [simp]:
  "pr_profiles (new_resolver ps pol) = ps"
  "pr_policy (new_resolver ps pol) = pol"
  "pr_last_known (new_resolver ps pol) = None"
  by (simp_all add: new_resolver_def)

lemma resolver_wf_new [simp]: "resolver_wf (new_resolver ps pol)"
  by (simp add: resolver_wf_def)

lemma resolver_wf_resolve [step_laws]: "resolver_wf r \<Longrightarrow> resolver_wf (snd (resolve ssid r))"
  by (auto simp: resolver_wf_def resolve_def known_ssid_def)

lemma peek_send_known:
  assumes "resolver_wf r" and "rd_action (peek ssid r) = ASend"
  shows "\<exists>p v. rd_profile_name (peek ssid r) = Some p \<and> resolver_get r p = Inr v
     \<and> p \<in> set (dict_keys (pr_profiles r))"
proof -
  obtain p where "rd_profile_name (peek ssid r) = Some p" and p: "p \<in> set (dict_keys (pr_profiles r))"
    using assms by (cases ssid; cases "pr_last_known r")
      (auto simp: peek_def unknown_decision_def known_ssid_def resolver_wf_def split: if_splits)
  moreover from p obtain v where "dict_get (pr_profiles r) p = Some v"
    using dict_get_None_iff [of "pr_profiles r" p] by (cases "dict_get (pr_profiles r) p") auto
  ultimately show ?thesis by (auto simp: resolver_get_def)
qed

lemma resolve_run_wf: "resolver_wf (fold (\<lambda>s. snd \<circ> resolve s) ssids (new_resolver ps pol))"
proof -
  have "resolver_wf (fold (\<lambda>s. snd \<circ> resolve s) ssids r)" if "resolver_wf r" for r
    using that by (induction ssids arbitrary: r) (simp_all add: resolver_wf_resolve)
  then show ?thesis by simp
qed

lemma resolve_run_policy:
  "pr_policy (fold (\<lambda>s. snd \<circ> resolve s) ssids r) = pr_policy r"
  "pr_profiles (fold (\<lambda>s. snd \<circ> resolve s) ssids r) = pr_profiles r"
  by (induction ssids arbitrary: r) simp_all

text \<open>What \<open>_last_known\<close> is after a run of lookups: the last known SSID of the run.\<close>

definition last_known_of :: "pyval dict \<Rightarrow> string option list \<Rightarrow> string option" where
  "last_known_of ps ssids =
     (case filter (\<lambda>s. truthy_str s \<and> the s \<in> set (dict_keys ps)) ssids of [] \<Rightarrow> None | xs \<Rightarrow> last xs)"

lemma resolve_run_last_known:
  "pr_last_known (fold (\<lambda>s. snd \<circ> resolve s) ssids r)
     = (case filter (\<lambda>s. truthy_str s \<and> the s \<in> set (dict_keys (pr_profiles r))) ssids of
          [] \<Rightarrow> pr_last_known r | xs \<Rightarrow> last xs)"
proof (induction ssids arbitrary: r)
  case Nil
  then show ?case by simp
next
  case (Cons s ssids)
  show ?case
    using Cons.IH [of "snd (resolve s r)"]
    by (auto simp: resolve_def known_ssid_def split: list.splits)
qed

text \<open>One entry of a dict.\<close>

definition redact_entry :: "string \<times> pyval \<Rightarrow> string \<times> pyval" where
  "redact_entry = (\<lambda>(k, v). if k \<in> set secret_keys \<and> is_str v then (k, PStr redacted)
                            else (k, redact_for_logging v))"

definition secrets_of_entry :: "string \<times> pyval \<Rightarrow> string list" where
  "secrets_of_entry = (\<lambda>(k, v). case v of PStr s \<Rightarrow> if k \<in> set secret_keys then [s] else []
                                       | _ \<Rightarrow> secrets_of v)"

lemma redact_dict: "redact_for_logging (PDict d) = PDict (map redact_entry d)"
  by (simp add: redact_entry_def)

lemma secrets_of_dict: "secrets_of (PDict d) = concat (map secrets_of_entry d)"
  by (simp add: secrets_of_entry_def)

lemma is_str_redact [simp]: "is_str (redact_for_logging v) = is_str v"
  by (cases v) simp_all

lemma redact_str: "is_str v \<Longrightarrow> redact_for_logging v = v"
  by (cases v) simp_all

lemma secrets_of_entry_nonstr: "\<not> is_str v \<Longrightarrow> secrets_of_entry (k, v) = secrets_of v"
  by (cases v) (simp_all add: secrets_of_entry_def)

lemma secrets_of_entry_str: "k \<notin> set secret_keys \<Longrightarrow> is_str v \<Longrightarrow> secrets_of_entry (k, v) = []"
  by (cases v) (simp_all add: secrets_of_entry_def)

lemma redact_entry_masked:
  assumes "\<not> (k \<in> set secret_keys \<and> is_str v) \<Longrightarrow>
      set (secrets_of (redact_for_logging v)) \<subseteq> {redacted}
      \<and> redact_for_logging (redact_for_logging v) = redact_for_logging v"
  shows "set (secrets_of_entry (redact_entry (k, v))) \<subseteq> {redacted}
      \<and> redact_entry (redact_entry (k, v)) = redact_entry (k, v)"
proof (cases "is_str v")
  case True
  show ?thesis
  proof (cases "k \<in> set secret_keys")
    case True
    with \<open>is_str v\<close> show ?thesis by (simp add: redact_entry_def secrets_of_entry_def)
  next
    case False
    with \<open>is_str v\<close> show ?thesis by (simp add: redact_entry_def redact_str secrets_of_entry_str)
  qed
next
  case False
  with assms show ?thesis by (simp add: redact_entry_def secrets_of_entry_nonstr)
qed

section \<open>Properties\<close>

text \<open>Whatever SSIDs were seen before, a decision to send names a profile that is configured,
  \<open>peek\<close> decides as \<open>resolve\<close> would, an unknown SSID is sent only under the policy \<open>use_last\<close>
  and then to the last known profile, and under \<open>drop\<close> and \<open>hold\<close> it never is.\<close>

theorem resolver_decides_by_policy:
  fixes ssid :: "string option" and ps :: "pyval dict"
  defines "r ssids pol \<equiv> fold (\<lambda>s. snd \<circ> resolve s) ssids (new_resolver ps pol)"
  shows "peek ssid (r ssids pol) = fst (resolve ssid (r ssids pol))
    \<and> (rd_action (peek ssid (r ssids pol)) = ASend \<longrightarrow>
         (\<exists>p v. rd_profile_name (peek ssid (r ssids pol)) = Some p
            \<and> resolver_get (r ssids pol) p = Inr v
            \<and> (ssid = Some p \<or> pol = ''use_last'' \<and> last_known_of ps ssids = Some p)))
    \<and> (\<not> known_ssid (r ssids pol) ssid \<and> pol = ''drop'' \<longrightarrow> rd_action (peek ssid (r ssids pol)) = ADrop)
    \<and> (\<not> known_ssid (r ssids pol) ssid \<and> pol = ''hold'' \<longrightarrow> rd_action (peek ssid (r ssids pol)) = AHold)"
proof -
  have wf: "resolver_wf (r ssids pol)" unfolding r_def by (rule resolve_run_wf)
  have pol: "pr_policy (r ssids pol) = pol" "pr_profiles (r ssids pol) = ps"
    by (simp_all add: r_def resolve_run_policy)
  have last: "pr_last_known (r ssids pol) = last_known_of ps ssids"
    by (simp add: r_def resolve_run_last_known last_known_of_def split: list.split)
  have send: "\<exists>p v. rd_profile_name (peek ssid (r ssids pol)) = Some p
            \<and> resolver_get (r ssids pol) p = Inr v
            \<and> (ssid = Some p \<or> pol = ''use_last'' \<and> last_known_of ps ssids = Some p)"
    if "rd_action (peek ssid (r ssids pol)) = ASend"
    using peek_send_known [OF wf that] that pol last
    by (auto simp: peek_def unknown_decision_def split: if_splits)
  show ?thesis
    using send pol by (auto simp: peek_is_resolve [symmetric]) (auto simp: peek_def unknown_decision_def)
qed

theorem resolver_decides_by_policy_witness:
  "rd_action (peek (Some ''home'') (fold (\<lambda>s. snd \<circ> resolve s) [Some ''fab'']
      (new_resolver [(''fab'', PNone)] ''drop''))) = ADrop"
  using resolver_decides_by_policy [of "Some ''home''" "[Some ''fab'']" "[(''fab'', PNone)]" "''drop''"]
  by (simp add: known_ssid_def resolve_def new_resolver_def dict_keys_def unknown_decision_def)

text \<open>The text for the log holds no secret: every string under a secret key of the redacted
  profile, at any depth, is the mask, while redacting twice changes nothing more.\<close>

theorem redaction_masks_every_secret:
  "set (secrets_of (redact_for_logging v)) \<subseteq> {redacted}
   \<and> redact_for_logging (redact_for_logging v) = redact_for_logging v"
proof (induction v rule: redact_for_logging.induct)
  case (1 d)
  have entry: "set (secrets_of_entry (redact_entry p)) \<subseteq> {redacted}
      \<and> redact_entry (redact_entry p) = redact_entry p" if "p \<in> set d" for p
  proof -
    obtain k w where p: "p = (k, w)" by (rule prod.exhaust)
    show ?thesis unfolding p by (rule redact_entry_masked) (rule 1 [OF that p [symmetric]])
  qed
  show ?case
    unfolding redact_dict secrets_of_dict set_concat set_map
    using entry by (auto simp del: redact_for_logging.simps)
qed auto

end
