(* ===== verification/Network_Watcher.thy ===== *)
theory Network_Watcher
  imports Py_Text
begin

text \<open>
  \<open>services/bridge/src/network_watcher.py\<close>: reading the output of \<open>nmcli -t -f ACTIVE,SSID\<close> and
  choosing the SSID to report. Running the command is the environment: its outcome is an input.
\<close>

section \<open>The outcome of a command\<close>

text \<open>\<open>subprocess.run\<close>: the exceptions the callers tell apart, or return code and output.\<close>

datatype cmd_outcome =
    CmdNotFound
  | CmdTimeout
  | CmdOSError
  | CmdDone (cmd_rc: int) (cmd_stdout: string)

section \<open>Parsing\<close>

fun split_colon :: "string \<Rightarrow> string \<Rightarrow> string list" where
  "split_colon [] buf = (if buf = [] then [] else [rev buf])"
| "split_colon [c] buf = (if c = CHR '':'' then [rev buf, []] else [rev (c # buf)])"
| "split_colon (c # d # cs) buf =
     (if c = CHR 0x5C then split_colon cs (d # c # buf)
      else if c = CHR '':'' then [rev buf, d # cs]
      else split_colon (d # cs) (c # buf))"

definition split_first_unescaped_colon :: "string \<Rightarrow> string list" where
  "split_first_unescaped_colon line = split_colon line []"

text \<open>\<open>ssid.replace("\\:", ":")\<close>.\<close>

fun unescape_colons :: "string \<Rightarrow> string" where
  "unescape_colons (c # d # cs) =
     (if c = CHR 0x5C \<and> d = CHR '':'' then CHR '':'' # unescape_colons cs
      else c # unescape_colons (d # cs))"
| "unescape_colons s = s"

fun ssid_of_parts :: "string list \<Rightarrow> string list" where
  "ssid_of_parts (active # ssid # _) =
     (if lower (strip active) = ''yes'' then [unescape_colons ssid] else [])"
| "ssid_of_parts _ = []"

definition parse_active_ssids :: "string \<Rightarrow> string list" where
  "parse_active_ssids stdout =
     concat (map (ssid_of_parts \<circ> split_first_unescaped_colon) (splitlines stdout))"

definition parse_nmcli_output :: "string \<Rightarrow> string option" where
  "parse_nmcli_output stdout = (case parse_active_ssids stdout of [] \<Rightarrow> None | s # _ \<Rightarrow> Some s)"

section \<open>The watcher\<close>

record network_watcher =
  nw_preferred :: "string set"
  nw_cached :: "string option"

definition new_network_watcher :: "string set option \<Rightarrow> network_watcher" where
  "new_network_watcher preferred =
     \<lparr>nw_preferred = (case preferred of None \<Rightarrow> {} | Some p \<Rightarrow> p), nw_cached = None\<rparr>"

definition select_ssid :: "network_watcher \<Rightarrow> string list \<Rightarrow> string option" where
  "select_ssid w active =
     (case find (\<lambda>s. s \<in> nw_preferred w) active of
        Some s \<Rightarrow> Some s
      | None \<Rightarrow> (case active of [] \<Rightarrow> None | s # _ \<Rightarrow> Some s))"

definition get_current_ssid :: "cmd_outcome \<Rightarrow> network_watcher \<Rightarrow> string option \<times> network_watcher" where
  "get_current_ssid out w =
     (case out of
        CmdDone rc stdout \<Rightarrow>
          if rc \<noteq> 0 then (nw_cached w, w)
          else (let ssid = select_ssid w (parse_active_ssids stdout) in (ssid, w\<lparr>nw_cached := ssid\<rparr>))
      | _ \<Rightarrow> (nw_cached w, w))"

section \<open>What nmcli prints is read back\<close>

text \<open>A row of the terse output: the separator is escaped in the values.\<close>

definition escape_colons :: "string \<Rightarrow> string" where
  "escape_colons s = concat (map (\<lambda>c. if c = CHR '':'' then [CHR 0x5C, c] else [c]) s)"

definition nmcli_row :: "bool \<times> string \<Rightarrow> string" where
  "nmcli_row = (\<lambda>(active, ssid). (if active then ''yes'' else ''no'') @ '':'' @ escape_colons ssid)"

lemma unescape_cons_plain: "c \<noteq> CHR 0x5C \<Longrightarrow> unescape_colons (c # s) = c # unescape_colons s"
  by (cases s) simp_all

lemma unescape_escape: "CHR 0x5C \<notin> set s \<Longrightarrow> unescape_colons (escape_colons s) = s"
  by (induction s) (auto simp: escape_colons_def unescape_cons_plain)

lemma split_colon_yes: "split_colon (''yes:'' @ s) [] = [''yes'', s]"
  by (cases s) simp_all

lemma split_colon_no: "split_colon (''no:'' @ s) [] = [''no'', s]"
  by (cases s) simp_all

lemma row_read:
  assumes "CHR 0x5C \<notin> set s"
  shows "ssid_of_parts (split_first_unescaped_colon (nmcli_row (a, s))) = (if a then [s] else [])"
proof -
  have w: "lower (strip ''yes'') = ''yes''" "lower (strip ''no'') \<noteq> ''yes''" by code_simp+
  then show ?thesis
    using assms split_colon_yes split_colon_no
    by (cases a) (simp_all add: split_first_unescaped_colon_def nmcli_row_def unescape_escape)
qed

lemma row_no_newline:
  assumes "\<forall>c \<in> set s. \<not> is_newline c"
  shows "\<forall>c \<in> set (nmcli_row (a, s)). \<not> is_newline c"
  using assms by (auto simp: nmcli_row_def escape_colons_def is_newline_def Let_def split: if_splits)

section \<open>Properties\<close>

text \<open>The list of access points nmcli prints is read back: the active SSIDs, all of them and in
  order, colons inside an SSID included.\<close>

theorem nmcli_rows_read_back:
  assumes "\<forall>(a, s) \<in> set rows. CHR 0x5C \<notin> set s \<and> (\<forall>c \<in> set s. \<not> is_newline c)"
  shows "parse_active_ssids (concat (map (\<lambda>p. nmcli_row p @ [CHR 0x0A]) rows))
    = map snd (filter fst rows)"
proof -
  have "\<forall>l \<in> set (map nmcli_row rows). \<forall>c \<in> set l. \<not> is_newline c"
    using assms row_no_newline by fastforce
  from splitlines_lines [OF this]
  have "splitlines (concat (map (\<lambda>p. nmcli_row p @ [CHR 0x0A]) rows)) = map nmcli_row rows"
    by (simp add: o_def)
  moreover have "concat (map (\<lambda>p. ssid_of_parts (split_first_unescaped_colon (nmcli_row p))) rows)
      = map snd (filter fst rows)"
    using assms by (induction rows) (auto simp: row_read)
  ultimately show ?thesis by (simp add: parse_active_ssids_def o_def)
qed

theorem nmcli_rows_read_back_witness:
  "parse_active_ssids (concat (map (\<lambda>p. nmcli_row p @ [CHR 0x0A])
     [(False, ''guest''), (True, ''fab:2''), (True, ''home'')])) = [''fab:2'', ''home'']"
  using nmcli_rows_read_back [of "[(False, ''guest''), (True, ''fab:2''), (True, ''home'')]"]
  by (simp add: is_newline_def)

text \<open>A lookup that succeeds reports an SSID that is active; when one of the active ones has a
  profile it reports the first such, otherwise the first of all; a lookup that fails reports what
  the last good one did and leaves it in place.\<close>

theorem current_ssid_prefers_profiled:
  "(case out of
      CmdDone rc stdout \<Rightarrow>
        (rc \<noteq> 0 \<longrightarrow> get_current_ssid out w = (nw_cached w, w))
        \<and> (rc = 0 \<longrightarrow>
             fst (get_current_ssid out w) = nw_cached (snd (get_current_ssid out w))
             \<and> (\<forall>s. fst (get_current_ssid out w) = Some s \<longrightarrow> s \<in> set (parse_active_ssids stdout)
                  \<and> (s \<in> nw_preferred w
                     \<or> set (parse_active_ssids stdout) \<inter> nw_preferred w = {} \<and> parse_nmcli_output stdout = Some s))
             \<and> (fst (get_current_ssid out w) = None \<longleftrightarrow> parse_active_ssids stdout = []))
    | _ \<Rightarrow> get_current_ssid out w = (nw_cached w, w))"
proof (cases out)
  case (CmdDone rc stdout)
  let ?a = "parse_active_ssids stdout"
  have sel: "s \<in> set ?a \<and> (s \<in> nw_preferred w \<or> set ?a \<inter> nw_preferred w = {} \<and> parse_nmcli_output stdout = Some s)"
    if "select_ssid w ?a = Some s" for s
  proof (cases "find (\<lambda>s. s \<in> nw_preferred w) ?a")
    case None
    then have "set ?a \<inter> nw_preferred w = {}" by (auto simp: find_None_iff)
    with None that show ?thesis
      by (auto simp: select_ssid_def parse_nmcli_output_def split: list.splits)
  next
    case (Some t)
    then have "t \<in> set ?a" "t \<in> nw_preferred w" by (auto simp: find_Some_iff)
    with Some that show ?thesis by (simp add: select_ssid_def)
  qed
  have none: "select_ssid w ?a = None \<longleftrightarrow> ?a = []"
    by (auto simp: select_ssid_def split: option.splits list.splits)
  show ?thesis using sel none CmdDone by (simp add: get_current_ssid_def Let_def)
qed (simp_all add: get_current_ssid_def)

theorem current_ssid_prefers_profiled_witness:
  "(let w = new_network_watcher (Some {''fab''}); r = get_current_ssid (CmdDone 0 (''yes:home'' @ CHR 0x0A # ''yes:fab'')) w
    in nw_cached (snd r) = fst r \<and> fst r \<noteq> None
       \<and> get_current_ssid CmdTimeout (snd r) = (nw_cached (snd r), snd r))"
proof -
  let ?w = "new_network_watcher (Some {''fab''})"
  let ?o = "CmdDone 0 (''yes:home'' @ CHR 0x0A # ''yes:fab'')"
  have "parse_active_ssids (''yes:home'' @ CHR 0x0A # ''yes:fab'') \<noteq> []" by code_simp
  then show ?thesis
    using current_ssid_prefers_profiled [of ?o ?w]
      current_ssid_prefers_profiled [of CmdTimeout "snd (get_current_ssid ?o ?w)"]
    by (auto simp add: Let_def) metis
qed

end
