(* ===== verification/Time_Sync.thy ===== *)
theory Time_Sync
  imports Network_Watcher Py_Time Retry_Policy
begin

text \<open>
  \<open>services/bridge/src/time_watcher.py\<close> and \<open>time_correction.py\<close>: whether the host clock is
  synchronised, the baseline taken when it becomes so, and the wall time of an event that was
  stamped before.
\<close>

record sync_baseline =
  sync_wall :: datetime
  sync_monotonic_ns :: int

record time_watcher =
  tw_synced :: bool
  tw_baseline :: "sync_baseline option"

definition new_time_watcher :: time_watcher where
  "new_time_watcher = \<lparr>tw_synced = False, tw_baseline = None\<rparr>"

text \<open>\<open>_query\<close>: what \<open>timedatectl\<close> says; a host without it, or an unknown answer, is trusted.\<close>

definition sync_query :: "cmd_outcome \<Rightarrow> bool" where
  "sync_query out =
     (case out of
        CmdNotFound \<Rightarrow> True
      | CmdTimeout \<Rightarrow> False
      | CmdOSError \<Rightarrow> False
      | CmdDone rc stdout \<Rightarrow>
          (let t = lower (strip stdout) in if t = ''yes'' then True else if t = ''no'' then False else True))"

text \<open>\<open>poll\<close>: the monotonic clock is read before the query, the wall clock after it.\<close>

definition sync_poll :: "int \<Rightarrow> cmd_outcome \<Rightarrow> datetime \<Rightarrow> time_watcher \<Rightarrow> time_watcher" where
  "sync_poll mono_ns out wall w =
     (let synced_now = sync_query out
      in \<lparr>tw_synced = synced_now,
          tw_baseline =
            (if synced_now \<and> \<not> tw_synced w then Some \<lparr>sync_wall = wall, sync_monotonic_ns = mono_ns\<rparr>
             else if \<not> synced_now \<and> tw_synced w then None
             else tw_baseline w)\<rparr>)"

text \<open>
  \<open>correct_event_wall\<close>: \<open>timedelta(microseconds=delta_ns / 1000)\<close> rounds half to even. The quotient
  is exact here; in the code it is a float, which agrees while it stays below \<open>2 ^ 43\<close>
  microseconds, about a hundred days.
\<close>

definition correct_event_wall :: "datetime \<Rightarrow> int \<Rightarrow> int \<Rightarrow> datetime" where
  "correct_event_wall wall sync_ns event_ns =
     dt_add wall (- round_half_even (of_int (sync_ns - event_ns) / 1000))"

definition jst_offset :: int where
  "jst_offset = 540"

definition format_mk_date_jst :: "datetime \<Rightarrow> string" where
  "format_mk_date_jst d = strftime_compact (astimezone jst_offset d)"

section \<open>Facts\<close>

text \<open>A run of polls, oldest first.\<close>

type_synonym poll = "int \<times> cmd_outcome \<times> datetime"

definition sync_run :: "poll list \<Rightarrow> time_watcher \<Rightarrow> time_watcher" where
  "sync_run ps w = fold (\<lambda>(m, out, wall). sync_poll m out wall) ps w"

definition sync_wf :: "time_watcher \<Rightarrow> bool" where
  "sync_wf w = (tw_synced w = (tw_baseline w \<noteq> None))"

lemma sync_wf_poll [step_laws]: "sync_wf w \<Longrightarrow> sync_wf (sync_poll m out wall w)"
  by (auto simp: sync_wf_def sync_poll_def Let_def)

lemma sync_run_append: "sync_run (ps @ qs) w = sync_run qs (sync_run ps w)"
  by (simp add: sync_run_def)

lemma sync_run_simps [simp]:
  "sync_run [] w = w"
  "sync_run ((m, out, d) # ps) w = sync_run ps (sync_poll m out d w)"
  by (simp_all add: sync_run_def)

lemma sync_run_kept:
  assumes "tw_synced w" and "\<forall>(m, out, d) \<in> set ps. sync_query out"
  shows "tw_synced (sync_run ps w) \<and> tw_baseline (sync_run ps w) = tw_baseline w"
  using assms
proof (induction ps arbitrary: w)
  case Nil
  then show ?case by simp
next
  case (Cons p ps)
  then show ?case by (cases p) (simp add: sync_poll_def Let_def)
qed

lemma round_half_even_error: "\<bar>of_int (round_half_even x) - x\<bar> \<le> 1 / 2"
proof -
  have "of_int \<lfloor>x\<rfloor> \<le> x" "x < of_int \<lfloor>x\<rfloor> + 1" by linarith+
  then show ?thesis by (auto simp: round_half_even_def Let_def abs_le_iff)
qed

lemma round_half_even_mono: "x \<le> y \<Longrightarrow> round_half_even x \<le> round_half_even y"
proof -
  assume le: "x \<le> y"
  show ?thesis
  proof (cases "\<lfloor>x\<rfloor> = \<lfloor>y\<rfloor>")
    case True
    with le show ?thesis by (auto simp: round_half_even_def Let_def)
  next
    case False
    with le have "\<lfloor>x\<rfloor> + 1 \<le> \<lfloor>y\<rfloor>" using floor_mono [OF le] by linarith
    moreover have "round_half_even x \<le> \<lfloor>x\<rfloor> + 1" by (simp add: round_half_even_def Let_def)
    moreover have "\<lfloor>y\<rfloor> \<le> round_half_even y" by (simp add: round_half_even_def Let_def)
    ultimately show ?thesis by linarith
  qed
qed

lemma strftime_compact_mono:
  assumes "dt_valid d" and "dt_valid e" and "local_us d \<le> local_us e"
  shows "strftime_compact d \<le> strftime_compact e"
proof (cases "local_us d = local_us e")
  case True
  then show ?thesis by (simp add: strftime_compact_def)
next
  case False
  let ?D = "86400000000 :: int"
  have l: "local_us d < local_us e" "0 \<le> local_us d"
    using assms False by (simp_all add: dt_valid_def)
  have m: "x mod ?D mod 1000000 = x mod 1000000" for x :: int
    by (rule mod_mod_cancel) simp
  consider "local_us d div ?D < local_us e div ?D"
    | "local_us d div ?D = local_us e div ?D" "local_us d mod ?D < local_us e mod ?D"
    using div_mod_cases [OF l(1), of ?D] by auto
  then show ?thesis
  proof cases
    case 1
    have "date_text (local_us d div ?D) [] < date_text (local_us e div ?D) []"
      using 1 assms(2) l by (intro date_text_less) (simp_all add: dt_valid_def pos_imp_zdiv_nonneg_iff)
    then show ?thesis by (simp add: strftime_compact_def Let_def append_less_iff less_imp_le)
  next
    case 2
    have "time_text (local_us d mod ?D) [] < time_text (local_us e mod ?D) []
       \<or> time_text (local_us d mod ?D) [] = time_text (local_us e mod ?D) []"
      using time_text_cases [of "local_us d mod ?D" "local_us e mod ?D" "[]"] 2 by auto
    with 2 show ?thesis
      by (auto simp: strftime_compact_def Let_def append_less_iff less_imp_le)
  qed
qed

lemma strftime_compact_digits:
  "length (strftime_compact d) = 14 \<and> (\<forall>c \<in> set (strftime_compact d). is_digit c)"
  using pad_digits
  by (auto simp: strftime_compact_def date_text_def time_text_def Let_def split: prod.split)

section \<open>Properties\<close>

text \<open>The baseline is the clock pair of the poll that found the clock synchronised after it was
  not, and stays that one for as long as every later poll finds it so; losing the synchronisation
  drops it, and without one there is none.\<close>

theorem baseline_is_start_of_sync:
  fixes m :: int and wall :: datetime
  assumes "\<not> tw_synced (sync_run ps new_time_watcher)" and "sync_query out"
    and "\<forall>(m, o', d) \<in> set qs. sync_query o'" and "\<not> sync_query lost"
  defines "w \<equiv> sync_run (ps @ [(m, out, wall)] @ qs) new_time_watcher"
  shows "tw_synced w \<and> tw_baseline w = Some \<lparr>sync_wall = wall, sync_monotonic_ns = m\<rparr>
    \<and> tw_baseline (sync_poll m' lost wall' w) = None
    \<and> tw_baseline (sync_run ps new_time_watcher) = None"
proof -
  let ?s = "sync_poll m out wall (sync_run ps new_time_watcher)"
  have start: "tw_synced ?s" "tw_baseline ?s = Some \<lparr>sync_wall = wall, sync_monotonic_ns = m\<rparr>"
    using assms by (simp_all add: sync_poll_def)
  have w: "w = sync_run qs ?s" by (simp add: w_def sync_run_append)
  have "sync_wf (sync_run ps new_time_watcher)"
  proof -
    have "sync_wf (sync_run ps v)" if "sync_wf v" for v
      using that by (induction ps arbitrary: v) (auto simp: sync_wf_poll)
    then show ?thesis by (simp add: sync_wf_def new_time_watcher_def)
  qed
  then have "tw_baseline (sync_run ps new_time_watcher) = None" using assms(1) by (simp add: sync_wf_def)
  then show ?thesis
    using sync_run_kept [OF start(1) assms(3)] start(2) assms(4) by (simp add: w sync_poll_def)
qed

theorem baseline_is_start_of_sync_witness:
  "tw_baseline (sync_run ([(1, CmdTimeout, \<lparr>dt_us = 0, dt_off = 540\<rparr>)]
        @ [(5, CmdDone 0 ''yes'', \<lparr>dt_us = 70, dt_off = 540\<rparr>)]
        @ [(9, CmdNotFound, \<lparr>dt_us = 90, dt_off = 540\<rparr>)]) new_time_watcher)
    = Some \<lparr>sync_wall = \<lparr>dt_us = 70, dt_off = 540\<rparr>, sync_monotonic_ns = 5\<rparr>"
proof -
  have "sync_query (CmdDone 0 ''yes'')" by code_simp
  then show ?thesis
    using baseline_is_start_of_sync [of "[(1, CmdTimeout, \<lparr>dt_us = 0, dt_off = 540\<rparr>)]"
        "CmdDone 0 ''yes''" "[(9, CmdNotFound, \<lparr>dt_us = 90, dt_off = 540\<rparr>)]" CmdTimeout 5 "\<lparr>dt_us = 70, dt_off = 540\<rparr>"]
    by (simp add: sync_poll_def sync_query_def new_time_watcher_def)
qed


lemma early_valid: "dt_off d = 540 \<Longrightarrow> 0 \<le> dt_us d \<Longrightarrow> dt_us d < 1000000000 \<Longrightarrow> dt_valid d"
proof -
  assume a: "dt_off d = 540" "0 \<le> dt_us d" "dt_us d < 1000000000"
  then have "local_us d div 86400000000 = 0" by (intro div_pos_pos_trivial) (simp_all add: local_us_def)
  moreover have "year_of 1 0 = (1, 0)" by (subst year_of.simps) (simp add: days_in_year_def)
  ultimately show ?thesis using a by (simp add: dt_valid_def local_us_def)
qed


end
