(* ===== verification/Oracle_Client.thy ===== *)
theory Oracle_Client
  imports Bridge_Config
begin

text \<open>
  \<open>services/bridge/src/oracle_client.py\<close>: the MERGE statement, the connection, and how a failure of
  the database becomes a result. The driver (\<open>oracledb\<close>) is a parameter: a record of the calls
  the code makes, over a state of its own.
\<close>

text \<open>\<open>MergeResult\<close>. The message is annotated \<open>str\<close>; one caller compares it with \<open>None\<close>.\<close>

record merge_result =
  mr_rows :: int
  mr_code :: "int option"
  mr_msg :: "string option"

text \<open>What one MERGE writes.\<close>

record merge_row =
  mw_mk_date :: string
  mw_sta_no1 :: pyval
  mw_sta_no2 :: pyval
  mw_sta_no3 :: pyval
  mw_t1_status :: int

section \<open>Errors of the driver\<close>

text \<open>
  A \<open>DatabaseError\<close>: the error object in \<open>args[0]\<close> when there is one with a code, the text of the
  exception, and the database error that caused it.
\<close>

record db_err =
  er_code :: pyval
  er_full_code :: string
  er_message :: string

datatype db_error = DbError (de_obj: "db_err option") (de_text: string) (de_cause: "db_error option")

definition DPY_TO_ORA :: "(string \<times> int) list" where
  "DPY_TO_ORA = [(''DPY-6001'', 12514)]"

text \<open>The code of the error object itself: 0 and what is no number count as none.\<close>

definition own_code :: "db_err \<Rightarrow> int option" where
  "own_code err =
     (let raw = er_code err;
          c = (if py_truthy raw then (case py_int raw of Inr i \<Rightarrow> Some i | Inl _ \<Rightarrow> None) else None)
      in if c = None then map_of DPY_TO_ORA (er_full_code err) else c)"

fun extract_ora_code :: "db_error \<Rightarrow> int option \<times> string" where
  "extract_ora_code (DbError None t cause) = (None, t)"
| "extract_ora_code (DbError (Some err) t cause) =
     ((if own_code err = None
       then (case cause of None \<Rightarrow> None | Some c \<Rightarrow> fst (extract_ora_code c))
       else own_code err),
      if er_message err = [] then t else er_message err)"

section \<open>The statement\<close>

abbreviation NL :: string where
  "NL \<equiv> [CHR 0x0A]"

definition using_clause :: "bool \<Rightarrow> string" where
  "using_clause include_upcmpflg =
     (if include_upcmpflg then
        ''USING (SELECT :1 AS MK_DATE, :2 AS STA_NO1, :3 AS STA_NO2, ''
        @ '':4 AS STA_NO3, :5 AS T1_STATUS, :6 AS UPCMPFLG FROM dual) s''
      else
        ''USING (SELECT :1 AS MK_DATE, :2 AS STA_NO1, :3 AS STA_NO2, ''
        @ '':4 AS STA_NO3, :5 AS T1_STATUS FROM dual) s'')"

definition insert_cols :: "bool \<Rightarrow> string" where
  "insert_cols include_upcmpflg =
     (if include_upcmpflg then ''INSERT (MK_DATE, STA_NO1, STA_NO2, STA_NO3, T1_STATUS, UPCMPFLG)''
      else ''INSERT (MK_DATE, STA_NO1, STA_NO2, STA_NO3, T1_STATUS)'')"

definition insert_vals :: "bool \<Rightarrow> string" where
  "insert_vals include_upcmpflg =
     (if include_upcmpflg
      then ''VALUES (s.MK_DATE, s.STA_NO1, s.STA_NO2, s.STA_NO3, s.T1_STATUS, s.UPCMPFLG)''
      else ''VALUES (s.MK_DATE, s.STA_NO1, s.STA_NO2, s.STA_NO3, s.T1_STATUS)'')"

definition build_merge_statement :: "string \<Rightarrow> bool \<Rightarrow> string" where
  "build_merge_statement table_name include_upcmpflg =
     ''MERGE INTO '' @ table_name @ '' t'' @ NL
     @ using_clause include_upcmpflg @ NL
     @ ''ON (t.MK_DATE = s.MK_DATE'' @ NL
     @ ''    AND t.STA_NO1 = s.STA_NO1'' @ NL
     @ ''    AND t.STA_NO2 = s.STA_NO2'' @ NL
     @ ''    AND t.STA_NO3 = s.STA_NO3'' @ NL
     @ ''    AND t.T1_STATUS = s.T1_STATUS)'' @ NL
     @ ''WHEN NOT MATCHED THEN'' @ NL
     @ ''  '' @ insert_cols include_upcmpflg @ NL
     @ ''  '' @ insert_vals include_upcmpflg"

definition merge_binds :: "merge_row \<Rightarrow> int option \<Rightarrow> pyval list" where
  "merge_binds w upcmpflg =
     [PStr (mw_mk_date w), mw_sta_no1 w, mw_sta_no2 w, mw_sta_no3 w, PInt (mw_t1_status w)]
     @ (case upcmpflg of None \<Rightarrow> [] | Some u \<Rightarrow> [PInt u])"

section \<open>Connecting and executing\<close>

text \<open>What is passed to \<open>oracledb.connect\<close>.\<close>

datatype connect_args =
    ConnBasic pyval pyval pyval pyval pyval
  | ConnWallet pyval pyval pyval pyval "pyval option"

record 'db driver =
  dr_connect :: "connect_args \<Rightarrow> 'db \<Rightarrow> db_error option \<times> 'db"
  dr_execute :: "string \<Rightarrow> pyval list \<Rightarrow> 'db \<Rightarrow> (db_error + int) \<times> 'db"
  dr_commit :: "'db \<Rightarrow> db_error option \<times> 'db"

definition init_oracle_client_for_profiles :: "pyval dict \<Rightarrow> bool \<Rightarrow> string py" where
  "init_oracle_client_for_profiles profiles client_dir_exists =
     py_bind (needs_thick_mode profiles) (\<lambda>thick.
       if \<not> thick then Inr ''thin''
       else if \<not> client_dir_exists then Inl RuntimeError
       else Inr ''thick'')"

definition sub :: "pyval dict \<Rightarrow> string \<Rightarrow> pyval py" where
  "sub d k = (case dict_get d k of None \<Rightarrow> Inl KeyError | Some v \<Rightarrow> Inr v)"

definition connect_args_of :: "pyval dict \<Rightarrow> connect_args py" where
  "connect_args_of cfg =
     py_bind (sub cfg ''user'') (\<lambda>user. py_bind (sub cfg ''password'') (\<lambda>password.
     py_bind (sub cfg ''auth_mode'') (\<lambda>am.
       if am = PStr ''basic'' then
         py_bind (sub cfg ''host'') (\<lambda>h. py_bind (sub cfg ''port'') (\<lambda>p.
         py_bind (sub cfg ''service_name'') (\<lambda>s. Inr (ConnBasic user password h p s))))
       else if am = PStr ''wallet'' then
         py_bind (sub cfg ''dsn'') (\<lambda>dsn. py_bind (sub cfg ''wallet_dir'') (\<lambda>dir.
           let wp = get_or cfg ''wallet_password'' PNone
           in Inr (ConnWallet user password dsn dir (if py_truthy wp then Some wp else None))))
       else Inl ValueError)))"

definition failed_result :: "db_error \<Rightarrow> merge_result" where
  "failed_result e = (case extract_ora_code e of (oc, message) \<Rightarrow>
     \<lparr>mr_rows = 0, mr_code = oc, mr_msg = Some message\<rparr>)"

definition execute_merge :: "'db driver \<Rightarrow> string \<Rightarrow> merge_row \<Rightarrow> int option \<Rightarrow> 'db \<Rightarrow> merge_result \<times> 'db" where
  "execute_merge dr table_name w upcmpflg db =
     (case dr_execute dr (build_merge_statement table_name (upcmpflg \<noteq> None)) (merge_binds w upcmpflg) db of
        (Inl e, db') \<Rightarrow> (failed_result e, db')
      | (Inr rows, db') \<Rightarrow>
          (case dr_commit dr db' of
             (Some e, db'') \<Rightarrow> (failed_result e, db'')
           | (None, db'') \<Rightarrow> (\<lparr>mr_rows = rows, mr_code = None, mr_msg = Some []\<rparr>, db'')))"

text \<open>Closing the connection cannot fail visibly: its errors are swallowed.\<close>

definition open_and_merge :: "'db driver \<Rightarrow> pyval dict \<Rightarrow> string \<Rightarrow> merge_row \<Rightarrow> int option \<Rightarrow> 'db
    \<Rightarrow> merge_result py \<times> 'db" where
  "open_and_merge dr profile_oracle table_name w upcmpflg db =
     (case connect_args_of profile_oracle of
        Inl x \<Rightarrow> (Inl x, db)
      | Inr args \<Rightarrow>
          (case dr_connect dr args db of
             (Some e, db') \<Rightarrow> (Inr (failed_result e), db')
           | (None, db') \<Rightarrow>
               (case execute_merge dr table_name w upcmpflg db' of (r, db'') \<Rightarrow> (Inr r, db''))))"

section \<open>Facts\<close>

lemma execute_merge_msg: "\<exists>m. mr_msg (fst (execute_merge dr t w u db)) = Some m"
  by (auto simp: execute_merge_def failed_result_def split: prod.split sum.split option.split)

lemma open_and_merge_msg: "fst (open_and_merge dr cfg t w u db) = Inr r \<Longrightarrow> \<exists>m. mr_msg r = Some m"
  using execute_merge_msg [of dr t w u]
  by (auto simp: open_and_merge_def failed_result_def split: prod.splits sum.splits option.splits)
    (metis fst_conv)+

lemma connect_args_accepted:
  assumes "oracle_ok cfg" and "dict_get cfg ''client_mode'' \<noteq> Some (PStr ''jdbc'')"
  shows "\<exists>a. connect_args_of cfg = Inr a"
proof -
  from assms obtain cm am where "dict_get cfg ''client_mode'' = Some (PStr cm)" and
    am: "dict_get cfg ''auth_mode'' = Some (PStr am)" "am \<in> set ALLOWED_AUTH_MODES" and
    keys: "\<forall>k \<in> set (required_oracle_keys (PStr cm) (PStr am)). \<exists>v. dict_get cfg k = Some v" and "cm \<noteq> ''jdbc''"
    unfolding oracle_ok_def by blast
  then consider "am = ''basic''" "\<forall>k \<in> set BASIC_REQUIRED. \<exists>v. dict_get cfg k = Some v"
    | "am = ''wallet''" "\<forall>k \<in> set WALLET_REQUIRED. \<exists>v. dict_get cfg k = Some v"
    by (auto simp: ALLOWED_AUTH_MODES_def required_oracle_keys_def)
  then show ?thesis
    by cases (use am in \<open>auto simp: connect_args_of_def sub_def BASIC_REQUIRED_def WALLET_REQUIRED_def Let_def\<close>)
qed

lemma count_list_append: "count_list (xs @ ys) c = count_list xs c + count_list ys c"
  by (induction xs) auto

section \<open>Properties\<close>

text \<open>The statement has as many bind variables as the code passes values, with and without the
  UPCMPFLG column, and the column is named exactly when its value is passed.\<close>

theorem merge_binds_match_statement:
  assumes "CHR '':'' \<notin> set table_name"
  shows "count_list (build_merge_statement table_name (upcmpflg \<noteq> None)) CHR '':'' = length (merge_binds w upcmpflg)
    \<and> is_infix ''UPCMPFLG'' (insert_cols (upcmpflg \<noteq> None)) = (upcmpflg \<noteq> None)"
proof -
  have t: "count_list table_name CHR '':'' = 0" using assms by (simp add: count_list_0_iff)
  have u: "count_list (using_clause b) CHR '':'' = (if b then 6 else 5)"
    "count_list (insert_cols b) CHR '':'' = 0" "count_list (insert_vals b) CHR '':'' = 0"
    "is_infix ''UPCMPFLG'' (insert_cols b) = b" for b
    by (cases b; simp add: using_clause_def insert_cols_def insert_vals_def)+
  show ?thesis
    by (cases upcmpflg) (simp_all add: build_merge_statement_def count_list_append t u merge_binds_def)
qed

theorem merge_binds_match_statement_witness:
  "count_list (build_merge_statement ''T'' True) CHR '':'' = 6"
  using merge_binds_match_statement [of "''T''" "Some 1" "\<lparr>mw_mk_date = [], mw_sta_no1 = PNone,
      mw_sta_no2 = PNone, mw_sta_no3 = PNone, mw_t1_status = 1\<rparr>"]
  by (simp add: merge_binds_def)

end
