(* ===== verification/Oracle_Jdbc.thy ===== *)
theory Oracle_Jdbc
  imports Oracle_Client
begin

text \<open>
  \<open>services/bridge/src/oracle_jdbc_client.py\<close> and the adapter of \<open>main.py\<close> that chooses between the
  two ways to the database. The HTTP request is a parameter over a state of its own.
\<close>

section \<open>The sidecar\<close>

definition build_jdbc_url :: "(pyval \<Rightarrow> string) \<Rightarrow> pyval dict \<Rightarrow> string py" where
  "build_jdbc_url rp cfg =
     py_bind (sub cfg ''host'') (\<lambda>h. py_bind (sub cfg ''port'') (\<lambda>p. py_bind (sub cfg ''service_name'') (\<lambda>s.
       Inr (''jdbc:oracle:thin:@'' @ py_str rp h @ '':'' @ py_str rp p @ ''/'' @ py_str rp s))))"

definition kv_line :: "string \<Rightarrow> string dict \<Rightarrow> string dict" where
  "kv_line line out =
     (if line = [] \<or> CHR ''='' \<notin> set line then out
      else (case partition_on (CHR ''='') line of (key, _, v) \<Rightarrow> dict_set (strip key) v out))"

definition parse_kv_body :: "string \<Rightarrow> string dict" where
  "parse_kv_body body = fold kv_line (splitlines body) []"

text \<open>
  The outcome of the request: the body, an HTTP error status, an address that cannot be reached
  (\<open>URLError\<close>, \<open>TimeoutError\<close>), or an exception the code does not name, such as a connection closed
  before the answer.
\<close>

datatype http_outcome =
    HttpBody string
  | HttpStatus int string
  | HttpUnreachable string
  | HttpOther py_exc

record http_request =
  hr_url :: string
  hr_fields :: "(string \<times> string) list"

text \<open>The request and the reply, each on its own.\<close>

definition rstrip_slash :: "string \<Rightarrow> string" where
  "rstrip_slash s = rev (dropWhile (\<lambda>c. c = CHR ''/'') (rev s))"

definition jdbc_request :: "(pyval \<Rightarrow> string) \<Rightarrow> string \<Rightarrow> int \<Rightarrow> int \<Rightarrow> pyval dict \<Rightarrow> string \<Rightarrow> merge_row
    \<Rightarrow> int option \<Rightarrow> http_request py" where
  "jdbc_request rp proxy_url connect_ms read_ms cfg table_name w upcmpflg =
     py_bind (build_jdbc_url rp cfg) (\<lambda>url. py_bind (sub cfg ''user'') (\<lambda>user.
     py_bind (sub cfg ''password'') (\<lambda>password.
       Inr \<lparr>hr_url = rstrip_slash proxy_url @ ''/merge'',
            hr_fields =
              [(''url'', url), (''user'', py_str rp user), (''password'', py_str rp password),
               (''table_name'', table_name), (''mk_date'', mw_mk_date w),
               (''sta_no1'', py_str rp (mw_sta_no1 w)), (''sta_no2'', py_str rp (mw_sta_no2 w)),
               (''sta_no3'', py_str rp (mw_sta_no3 w)), (''t1_status'', int_text (mw_t1_status w)),
               (''connect_timeout_ms'', int_text connect_ms), (''read_timeout_ms'', int_text read_ms)]
              @ (case upcmpflg of None \<Rightarrow> [] | Some u \<Rightarrow> [(''upcmpflg_value'', int_text u)])\<rparr>)))"

definition kv_get :: "string dict \<Rightarrow> string \<Rightarrow> string \<Rightarrow> string" where
  "kv_get d k v = (case dict_get d k of None \<Rightarrow> v | Some x \<Rightarrow> x)"

definition jdbc_reply :: "string \<Rightarrow> merge_result" where
  "jdbc_reply body =
     (let fields = parse_kv_body body;
          raw_code = strip (kv_get fields ''ora_code'' []);
          ora_code = (if raw_code = [] then None else int_of_text raw_code);
          raw_rows = strip (kv_get fields ''rows_affected'' ''0'');
          rows = (case int_of_text (if raw_rows = [] then ''0'' else raw_rows) of None \<Rightarrow> 0 | Some i \<Rightarrow> i)
      in \<lparr>mr_rows = rows, mr_code = ora_code, mr_msg = Some (kv_get fields ''error_message'' [])\<rparr>)"

definition jdbc_result :: "http_outcome \<Rightarrow> merge_result py" where
  "jdbc_result out =
     (case out of
        HttpStatus st reason \<Rightarrow>
          Inr \<lparr>mr_rows = 0, mr_code = None,
               mr_msg = Some (''jdbc-proxy HTTP '' @ int_text st @ '': '' @ reason)\<rparr>
      | HttpUnreachable t \<Rightarrow>
          Inr \<lparr>mr_rows = 0, mr_code = None, mr_msg = Some (''jdbc-proxy unreachable: '' @ t)\<rparr>
      | HttpOther e \<Rightarrow> Inl e
      | HttpBody body \<Rightarrow> Inr (jdbc_reply body))"

definition execute_merge_via_jdbc :: "(pyval \<Rightarrow> string) \<Rightarrow> (http_request \<Rightarrow> 'db \<Rightarrow> http_outcome \<times> 'db)
    \<Rightarrow> string \<Rightarrow> int \<Rightarrow> int \<Rightarrow> pyval dict \<Rightarrow> string \<Rightarrow> merge_row \<Rightarrow> int option \<Rightarrow> 'db
    \<Rightarrow> merge_result py \<times> 'db" where
  "execute_merge_via_jdbc rp http proxy_url connect_ms read_ms cfg table_name w upcmpflg db =
     (case jdbc_request rp proxy_url connect_ms read_ms cfg table_name w upcmpflg of
        Inl e \<Rightarrow> (Inl e, db)
      | Inr req \<Rightarrow> (case http req db of (out, db') \<Rightarrow> (jdbc_result out, db')))"

section \<open>The adapter\<close>

text \<open>
  \<open>_OracleAdapter\<close>: its settings and the two ways out. \<open>oa_override\<close> is the text of the override
  file at each call, \<open>None\<close> when the adapter has no such file or it cannot be read.
\<close>

record 'db adapter =
  oa_url :: string
  oa_connect_ms :: int
  oa_read_ms :: int
  oa_override :: "'db \<Rightarrow> string option"
  oa_driver :: "'db driver"
  oa_http :: "http_request \<Rightarrow> 'db \<Rightarrow> http_outcome \<times> 'db"
  oa_repr :: "pyval \<Rightarrow> string"

definition upcmpflg_of :: "pyval dict \<Rightarrow> string option \<Rightarrow> int option py" where
  "upcmpflg_of cfg override =
     (case read_upcmpflg_override override of
        Some u \<Rightarrow> Inr (Some u)
      | None \<Rightarrow>
          (case get_or cfg ''upcmpflg'' PNone of
             PNone \<Rightarrow> Inr None
           | v \<Rightarrow> py_bind (py_int v) (\<lambda>u. Inr (Some u))))"

definition as_table :: "pyval \<Rightarrow> string py" where
  "as_table v = (case v of PStr s \<Rightarrow> Inr s | _ \<Rightarrow> Inl TypeMismatch)"

definition execute_merge_for_profile :: "'db adapter \<Rightarrow> pyval \<Rightarrow> merge_row \<Rightarrow> 'db \<Rightarrow> merge_result py \<times> 'db" where
  "execute_merge_for_profile oa profile w db =
     (case py_bind (py_subscript profile ''oracle'') (\<lambda>v. case v of PDict cfg \<Rightarrow>
           py_bind (upcmpflg_of cfg (oa_override oa db)) (\<lambda>u.
           py_bind (sub cfg ''table_name'') (\<lambda>t. py_bind (as_table t) (\<lambda>table. Inr (cfg, u, table))))
         | _ \<Rightarrow> Inl TypeMismatch) of
        Inl e \<Rightarrow> (Inl e, db)
      | Inr (cfg, u, table) \<Rightarrow>
          if get_or cfg ''client_mode'' PNone = PStr ''jdbc''
          then execute_merge_via_jdbc (oa_repr oa) (oa_http oa) (oa_url oa) (oa_connect_ms oa) (oa_read_ms oa)
                 cfg table w u db
          else open_and_merge (oa_driver oa) cfg table w u db)"

section \<open>Facts\<close>

lemma jdbc_result_msg: "jdbc_result out = Inr r \<Longrightarrow> \<exists>m. mr_msg r = Some m"
  by (cases out) (auto simp: jdbc_result_def jdbc_reply_def Let_def)

lemma jdbc_msg: "fst (execute_merge_via_jdbc rp http u c r cfg t w f db) = Inr res \<Longrightarrow> \<exists>m. mr_msg res = Some m"
  by (auto simp: execute_merge_via_jdbc_def split: sum.splits prod.splits dest: jdbc_result_msg)

lemma adapter_msg: "fst (execute_merge_for_profile oa p w db) = Inr r \<Longrightarrow> \<exists>m. mr_msg r = Some m"
  by (auto simp: execute_merge_for_profile_def split: sum.splits prod.splits if_splits
      dest: jdbc_msg open_and_merge_msg)

lemma rev_dropWhile_rev_end: "\<exists>s. t = rev (dropWhile P (rev t)) @ s \<and> (\<forall>c \<in> set s. P c)"
proof -
  have "rev t = takeWhile P (rev t) @ dropWhile P (rev t)" by simp
  then have "t = rev (dropWhile P (rev t)) @ rev (takeWhile P (rev t))" by (metis rev_append rev_rev_ident)
  moreover have "\<forall>c \<in> set (rev (takeWhile P (rev t))). P c" by (auto dest: set_takeWhileD)
  ultimately show ?thesis by blast
qed

section \<open>The reply is read back\<close>

text \<open>The lines the sidecar writes.\<close>

definition kv_text :: "(string \<times> string) list \<Rightarrow> string" where
  "kv_text kvs = concat (map (\<lambda>(k, v). k @ ''='' @ v @ NL) kvs)"

definition plain_key :: "string \<Rightarrow> bool" where
  "plain_key k = (k \<noteq> [] \<and> (\<forall>c \<in> set k. \<not> is_space c \<and> \<not> is_newline c \<and> c \<noteq> CHR ''=''))"

definition plain_line :: "string \<Rightarrow> bool" where
  "plain_line s = (\<forall>c \<in> set s. \<not> is_newline c)"

lemma kv_line_plain: "plain_key k \<Longrightarrow> kv_line (k @ ''='' @ v) out = dict_set k v out"
proof -
  assume k: "plain_key k"
  then have "partition_on (CHR ''='') (k @ CHR ''='' # v) = (k, True, v)"
    by (intro partition_on_first) (auto simp: plain_key_def)
  moreover have "strip k = k" using k by (intro strip_idem) (simp add: plain_key_def)
  ultimately show ?thesis by (simp add: kv_line_def)
qed

lemma parse_kv_text:
  assumes "\<forall>(k, v) \<in> set kvs. plain_key k \<and> plain_line v"
  shows "parse_kv_body (kv_text kvs) = fold (\<lambda>(k, v). dict_set k v) kvs []"
proof -
  have lines: "kv_text kvs = concat (map (\<lambda>l. l @ NL) (map (\<lambda>(k, v). k @ ''='' @ v) kvs))"
    by (induction kvs) (auto simp: kv_text_def)
  have "\<not> is_newline CHR ''=''" by (simp add: is_newline_def)
  then have "\<forall>l \<in> set (map (\<lambda>(k, v). k @ ''='' @ v) kvs). \<forall>c \<in> set l. \<not> is_newline c"
    using assms by (fastforce simp: plain_key_def plain_line_def)
  from splitlines_lines [OF this]
  have "splitlines (kv_text kvs) = map (\<lambda>(k, v). k @ ''='' @ v) kvs" unfolding lines .
  moreover have "fold kv_line (map (\<lambda>(k, v). k @ ''='' @ v) kvs) d = fold (\<lambda>(k, v). dict_set k v) kvs d" for d
    using assms
  proof (induction kvs arbitrary: d)
    case Nil
    then show ?case by simp
  next
    case (Cons p kvs)
    then show ?case using kv_line_plain by (cases p) simp
  qed
  ultimately show ?thesis by (simp add: parse_kv_body_def)
qed

text \<open>The reply the sidecar writes for a MERGE.\<close>

definition merge_reply_text :: "int \<Rightarrow> int option \<Rightarrow> string \<Rightarrow> string" where
  "merge_reply_text rows c msg =
     kv_text [(''rows_affected'', int_text rows), (''ora_code'', case c of None \<Rightarrow> [] | Some i \<Rightarrow> int_text i),
       (''error_message'', msg)]"

lemma int_text_chars: "c \<in> set (int_text i) \<Longrightarrow> is_digit c \<or> c = CHR ''-''"
  using nat_text_digits by (auto simp: int_text_def split: if_splits)

lemma int_text_no_space: "c \<in> set (int_text i) \<Longrightarrow> \<not> is_space c \<and> \<not> is_newline c"
  using int_text_chars [of c i]
  by (auto simp: is_digit_def digit_val_def is_space_def is_newline_def Let_def split: if_splits)

lemma strip_int_text [simp]: "strip (int_text i) = int_text i"
  using int_text_no_space by (intro strip_idem) blast

lemma int_text_nonempty [simp]: "int_text i \<noteq> []"
  by (simp add: int_text_def)

section \<open>Properties\<close>

text \<open>What the sidecar reports comes back: the number of rows, the error number or its absence, and
  the message, whatever characters other than line ends it has.\<close>

theorem jdbc_reply_read_back:
  assumes "plain_line msg"
  shows "jdbc_result (HttpBody (merge_reply_text rows c msg))
    = Inr \<lparr>mr_rows = rows, mr_code = c, mr_msg = Some msg\<rparr>"
proof -
  have keys: "plain_key ''rows_affected''" "plain_key ''ora_code''" "plain_key ''error_message''"
    by (simp_all add: plain_key_def is_space_def is_newline_def)
  have vals: "plain_line (int_text i)" "plain_line []" for i
    using int_text_no_space by (auto simp: plain_line_def)
  have "parse_kv_body (merge_reply_text rows c msg) =
      [(''rows_affected'', int_text rows), (''ora_code'', case c of None \<Rightarrow> [] | Some i \<Rightarrow> int_text i), (''error_message'', msg)]"
    unfolding merge_reply_text_def
    by (subst parse_kv_text) (use keys vals assms in \<open>auto split: option.split\<close>)
  moreover have "strip [] = []" by (simp add: strip_def lstrip_def rstrip_def)
  ultimately show ?thesis
    by (cases c) (simp_all add: jdbc_result_def jdbc_reply_def Let_def kv_get_def dict_get_def int_text_roundtrip)
qed

theorem jdbc_reply_read_back_witness:
  "jdbc_result (HttpBody (merge_reply_text 0 (Some 12514) ''ORA-12514: no service=x''))
    = Inr \<lparr>mr_rows = 0, mr_code = Some 12514, mr_msg = Some ''ORA-12514: no service=x''\<rparr>"
  by (rule jdbc_reply_read_back) (simp add: plain_line_def is_newline_def)

text \<open>The checks of the profiles do not ask for the table name, so a profile they accept can make
  the adapter raise at its first MERGE, before the database is asked.\<close>

theorem accepted_profile_without_table_raises:
  "load_profiles_config (\<lambda>_. None) (Some (PDict example_data)) = Inr example_data
   \<and> dict_get example_data ''profiles'' = Some (PDict [(''fab'', example_profile)])
   \<and> execute_merge_for_profile oa example_profile w db = (Inl KeyError, db)"
proof -
  have "execute_merge_for_profile oa example_profile w db = (Inl KeyError, db)"
    by (cases "read_upcmpflg_override (oa_override oa db)")
      (simp_all add: execute_merge_for_profile_def example_profile_def example_oracle_def dict_get_def
        upcmpflg_of_def get_or_def sub_def)
  moreover have "dict_get example_data ''profiles'' = Some (PDict [(''fab'', example_profile)])"
    by (simp add: example_data_def dict_get_def)
  ultimately show ?thesis using example_accepted(1) by simp
qed

end
