(* ===== verification/Send_Loop.thy ===== *)
theory Send_Loop
  imports Py_Prelude
begin

text \<open>
  The loop both senders of the bridge and the resender of the detector share: a list of rows taken
  at the start, one step per row over a store, and an exception that stops the rest.
\<close>

type_synonym 's run = "'s \<times> py_exc option"

fun run_rows :: "('r \<Rightarrow> 's \<Rightarrow> 's run) \<Rightarrow> 'r list \<Rightarrow> 's \<Rightarrow> 's run" where
  "run_rows f [] s = (s, None)"
| "run_rows f (r # rs) s =
     (case f r s of
        (s', None) \<Rightarrow> run_rows f rs s'
      | (s', Some e) \<Rightarrow> (s', Some e))"

lemma run_rows_append:
  "run_rows f (xs @ ys) s =
     (case run_rows f xs s of (s', None) \<Rightarrow> run_rows f ys s' | (s', Some e) \<Rightarrow> (s', Some e))"
  by (induction xs arbitrary: s) (auto split: prod.split option.split)

lemma run_rows_invariant:
  assumes "\<And>r s. r \<in> set rs \<Longrightarrow> I s \<Longrightarrow> I (fst (f r s))" and "I s"
  shows "I (fst (run_rows f rs s))"
  using assms
proof (induction rs arbitrary: s)
  case Nil
  then show ?case by simp
next
  case (Cons r rs)
  have "I (fst (f r s))" using Cons.prems by simp
  moreover have "I (fst (run_rows f rs t))" if "I t" for t using Cons.IH [OF _ that] Cons.prems(1) by simp
  ultimately show ?case by (auto split: prod.split option.split)
qed

text \<open>Two parts of a run: an exception stops the second.\<close>

definition run_then :: "'s run \<Rightarrow> ('s \<Rightarrow> 's run) \<Rightarrow> 's run" where
  "run_then r f = (case r of (s, None) \<Rightarrow> f s | (s, Some e) \<Rightarrow> (s, Some e))"

lemma run_then_fst: "fst (run_then r f) = (case snd r of None \<Rightarrow> fst (f (fst r)) | Some _ \<Rightarrow> fst r)"
  by (auto simp: run_then_def split: prod.split option.split)

lemma run_then_invariant: "I (fst r) \<Longrightarrow> (\<And>h. I h \<Longrightarrow> I (fst (f h))) \<Longrightarrow> I (fst (run_then r f))"
  by (simp add: run_then_fst split: option.split)

text \<open>
  What the loop relies on: a row is found again under its key, a step leaves the rows of other keys
  alone, keeps the invariant of the store and never takes back what was sent.
\<close>

locale send_loop =
  fixes key :: "'r \<Rightarrow> 'k" and row :: "'k \<Rightarrow> 's \<Rightarrow> 'q option" and step :: "'r \<Rightarrow> 's \<Rightarrow> 's run"
    and I :: "'s \<Rightarrow> bool" and sent :: "'s \<Rightarrow> 'm list"
  assumes step_other: "k \<noteq> key r \<Longrightarrow> row k (fst (step r s)) = row k s"
    and step_keeps: "I s \<Longrightarrow> I (fst (step r s))"
    and step_sent: "\<exists>ms. sent (fst (step r s)) = sent s @ ms"
begin

lemma run_sent: "\<exists>ms. sent (fst (run_rows step rs s)) = sent s @ ms"
proof (induction rs arbitrary: s)
  case Nil
  then show ?case by simp
next
  case (Cons r rs)
  obtain ms where ms: "sent (fst (step r s)) = sent s @ ms" using step_sent by blast
  obtain v f where v: "step r s = (v, f)" by (cases "step r s")
  from Cons.IH [of v] obtain ms' where "sent (fst (run_rows step rs v)) = sent v @ ms'" by blast
  with ms v show ?case by (cases f) auto
qed

lemma run_keeps: "I s \<Longrightarrow> I (fst (run_rows step rs s))"
  by (rule run_rows_invariant) (simp_all add: step_keeps)

lemma run_other: "k \<notin> key ` set rs \<Longrightarrow> row k (fst (run_rows step rs s)) = row k s"
proof (induction rs arbitrary: s)
  case Nil
  then show ?case by simp
next
  case (Cons r rs)
  then show ?case using step_other [of k r s] by (auto split: prod.split option.split)
qed

text \<open>
  Each row of a run that ends well is processed once, in a state where it is still as it was, and
  what the step made of it is what is left at the end.
\<close>

lemma run_row:
  assumes "distinct (map key rs)" and "r \<in> set rs" and "snd (run_rows step rs s) = None" and "I s"
  obtains u where "I u" and "row (key r) u = row (key r) s" and "snd (step r u) = None"
    and "row (key r) (fst (run_rows step rs s)) = row (key r) (fst (step r u))"
    and "set (sent (fst (step r u))) \<subseteq> set (sent (fst (run_rows step rs s)))"
proof -
  obtain us vs where rs: "rs = us @ r # vs" using assms(2) by (auto simp: in_set_conv_decomp)
  have d: "key r \<notin> key ` set us" "key r \<notin> key ` set vs" using assms(1) rs by auto
  obtain u e where u: "run_rows step us s = (u, e)" by (cases "run_rows step us s")
  have e: "e = None" using assms(3) by (cases e) (simp_all add: rs run_rows_append u)
  obtain v f where v: "step r u = (v, f)" by (cases "step r u")
  have f: "f = None" using assms(3) by (cases f) (simp_all add: rs run_rows_append u e v)
  have run: "run_rows step rs s = run_rows step vs v" by (simp add: rs run_rows_append u e v f)
  show thesis
  proof (rule that [of u])
    show "I u" using run_keeps [OF assms(4), of us] u by simp
    show "row (key r) u = row (key r) s" using run_other [OF d(1), of s] u by simp
    show "snd (step r u) = None" by (simp add: v f)
    show "row (key r) (fst (run_rows step rs s)) = row (key r) (fst (step r u))"
      unfolding run using run_other [OF d(2), of v] v by simp
    obtain ms where "sent (fst (run_rows step vs v)) = sent v @ ms" using run_sent by blast
    then show "set (sent (fst (step r u))) \<subseteq> set (sent (fst (run_rows step rs s)))"
      unfolding run v by simp
  qed
qed

end

end
