(* ===== verification/Sender.thy ===== *)
theory Sender
  imports Inbox Record_Inbox Circuit_Breaker Profile_Resolver Time_Sync Oracle_Jdbc Send_Loop
begin

text \<open>
  \<open>services/bridge/src/sender.py\<close>: writing the buffered ENTER/EXIT events to Oracle. The state is
  what the bridge's objects hold; the way to the database is a parameter over a state of its own,
  which the adapter of \<open>Oracle_Jdbc\<close> instantiates.
\<close>

section \<open>The state of the bridge\<close>

text \<open>A message handed to the MQTT client: an ACK, a NACK.\<close>

datatype bridge_msg =
    MAck (msg_topic: string) (msg_event_id: string) (msg_mk_date: "string option") (msg_at: "string option")
  | MNack (msg_topic: string) (msg_event_id: string) (msg_reason: string) (msg_failed_at: string)

record 'o bridge =
  br_inbox :: inbox
  br_records :: record_inbox
  br_resolver :: profile_resolver
  br_breaker :: circuit_breaker
  br_network :: network_watcher
  br_time :: time_watcher
  br_db :: 'o
  br_out :: "bridge_msg list"

text \<open>What is set up once: the way to the database, the device's configuration, topics and policies.\<close>

record 'o bridge_deps =
  bd_oracle :: "pyval \<Rightarrow> merge_row \<Rightarrow> 'o \<Rightarrow> merge_result py \<times> 'o"
  bd_device_cfg :: "pyval dict"
  bd_topic_ack :: string
  bd_policy :: backoff_policy
  bd_rec_topic_ack :: "string option"
  bd_rec_topic_nack :: "string option"
  bd_unretryable :: "int list"
  bd_giveup_mark :: string

section \<open>The sender\<close>

definition resolve_mk_date :: "sync_baseline option \<Rightarrow> inbox_event \<Rightarrow> string option" where
  "resolve_mk_date baseline e =
     (if ie_wall_synced e \<and> truthy_str (ie_mk_date e) then ie_mk_date e
      else (case baseline of
              None \<Rightarrow> None
            | Some b \<Rightarrow> Some (format_mk_date_jst
                (correct_event_wall (sync_wall b) (sync_monotonic_ns b) (ie_monotonic_ns e)))))"

definition event_row :: "'o bridge_deps \<Rightarrow> pyval \<Rightarrow> string \<Rightarrow> inbox_event \<Rightarrow> merge_row py" where
  "event_row d profile mk_date e =
     py_bind (station_for_profile profile (bd_device_cfg d)) (\<lambda>sta.
     py_bind (py_subscript sta ''sta_no1'') (\<lambda>n1.
     py_bind (py_subscript sta ''sta_no2'') (\<lambda>n2.
     py_bind (py_subscript sta ''sta_no3'') (\<lambda>n3.
       Inr \<lparr>mw_mk_date = mk_date, mw_sta_no1 = n1, mw_sta_no2 = n2, mw_sta_no3 = n3,
            mw_t1_status = (if ie_event_type e = ''ENTER'' then 1 else 2)\<rparr>))))"

definition error_text :: "merge_result \<Rightarrow> string" where
  "error_text r =
     ''ORA-'' @ (case mr_code r of None \<Rightarrow> ''None'' | Some c \<Rightarrow> int_text c) @ '': ''
     @ (case mr_msg r of None \<Rightarrow> ''None'' | Some m \<Rightarrow> m)"

text \<open>\<open>_send_one\<close>, with the result of the MERGE and without the call for it.\<close>

definition settle_event :: "'o bridge_deps \<Rightarrow> datetime \<Rightarrow> string \<Rightarrow> string \<Rightarrow> inbox_event \<Rightarrow> merge_result
    \<Rightarrow> 'o bridge \<Rightarrow> 'o bridge run" where
  "settle_event d now profile_name mk_date e r w =
     (if mr_code r = None then
        (w\<lparr>br_inbox := inbox_mark_sent (ie_event_id e) mk_date profile_name (isoformat now) (br_inbox w),
           br_breaker := record_success profile_name (br_breaker w),
           br_out := br_out w @ [MAck (bd_topic_ack d) (ie_event_id e) (Some mk_date) (Some (isoformat_ms now))]\<rparr>,
         None)
      else
        (let b = record_failure profile_name (mr_code r) (dt_us now) (br_breaker w);
             attempt = ie_retry_count e + 1
         in case next_retry_at now attempt (bd_policy d) of
              Inl x \<Rightarrow> (w\<lparr>br_breaker := b\<rparr>, Some x)
            | Inr next_at \<Rightarrow>
                (w\<lparr>br_breaker := b,
                   br_inbox := inbox_update_retry (ie_event_id e) attempt (isoformat next_at) (error_text r)
                     (br_inbox w)\<rparr>, None)))"

definition send_one :: "'o bridge_deps \<Rightarrow> datetime \<Rightarrow> string \<Rightarrow> pyval \<Rightarrow> inbox_event \<Rightarrow> string
    \<Rightarrow> 'o bridge \<Rightarrow> 'o bridge run" where
  "send_one d now profile_name profile e mk_date w =
     (case event_row d profile mk_date e of
        Inl x \<Rightarrow> (w, Some x)
      | Inr row \<Rightarrow>
          (case bd_oracle d profile row (br_db w) of
             (Inl x, db) \<Rightarrow> (w\<lparr>br_db := db\<rparr>, Some x)
           | (Inr r, db) \<Rightarrow> settle_event d now profile_name mk_date e r (w\<lparr>br_db := db\<rparr>)))"

text \<open>One turn of the loop: an event without a time of its own waits for the baseline.\<close>

definition send_event :: "'o bridge_deps \<Rightarrow> datetime \<Rightarrow> string \<Rightarrow> pyval \<Rightarrow> inbox_event
    \<Rightarrow> 'o bridge \<Rightarrow> 'o bridge run" where
  "send_event d now profile_name profile e w =
     (case resolve_mk_date (tw_baseline (br_time w)) e of
        None \<Rightarrow> (w, None)
      | Some mk_date \<Rightarrow> send_one d now profile_name profile e mk_date w)"

definition sender_run_once :: "'o bridge_deps \<Rightarrow> cmd_outcome \<Rightarrow> datetime \<Rightarrow> 'o bridge \<Rightarrow> 'o bridge run" where
  "sender_run_once d out now w0 =
     (let (ssid, nw) = get_current_ssid out (br_network w0);
          (dec, res) = resolve ssid (br_resolver w0);
          w1 = w0\<lparr>br_network := nw, br_resolver := res\<rparr>
      in if rd_action dec \<noteq> ASend then (w1, None)
         else (case rd_profile_name dec of
             None \<Rightarrow> (w1, None)
           | Some profile_name \<Rightarrow>
               (let (st, b) = state_for profile_name (Some (dt_us now)) (br_breaker w1);
                    w2 = w1\<lparr>br_breaker := b\<rparr>
                in if st = COpen then (w2, None)
                   else (case resolver_get (br_resolver w2) profile_name of
                       Inl x \<Rightarrow> (w2, Some x)
                     | Inr profile \<Rightarrow>
                         run_rows (send_event d now profile_name profile)
                           (inbox_iter_received_due (isoformat now) (br_inbox w2)) w2))))"

section \<open>What a step touches\<close>

lemma settle_event_frame [step_laws]:
  "br_records (fst (settle_event d now p m e r w)) = br_records w"
  "br_resolver (fst (settle_event d now p m e r w)) = br_resolver w"
  "br_network (fst (settle_event d now p m e r w)) = br_network w"
  "br_time (fst (settle_event d now p m e r w)) = br_time w"
  by (simp_all add: settle_event_def Let_def split: sum.split)

lemma send_event_frame [step_laws]:
  "br_records (fst (send_event d now p prof e w)) = br_records w"
  "br_resolver (fst (send_event d now p prof e w)) = br_resolver w"
  "br_network (fst (send_event d now p prof e w)) = br_network w"
  "br_time (fst (send_event d now p prof e w)) = br_time w"
  by (auto simp: send_event_def send_one_def step_laws split: option.split sum.split prod.split)

lemma settle_event_other:
  "k \<noteq> ie_event_id e \<Longrightarrow> inbox_get k (br_inbox (fst (settle_event d now p m e r w))) = inbox_get k (br_inbox w)"
  by (simp add: settle_event_def Let_def inbox_mark_sent_get inbox_update_retry_get split: sum.split)

lemma settle_event_wf: "inbox_wf (br_inbox w) \<Longrightarrow> inbox_wf (br_inbox (fst (settle_event d now p m e r w)))"
  by (simp add: settle_event_def Let_def inbox_wf_mark_sent inbox_wf_update_retry split: sum.split)

text \<open>What one turn leaves of the inbox is that of \<open>settle_event\<close>, or nothing happened to it.\<close>

lemma send_event_cases:
  obtains "br_inbox (fst (send_event d now p prof e w)) = br_inbox w"
      "br_out (fst (send_event d now p prof e w)) = br_out w"
  | m r w' where "br_inbox w' = br_inbox w" and "br_out w' = br_out w" and "send_event d now p prof e w = settle_event d now p m e r w'"
proof (cases "resolve_mk_date (tw_baseline (br_time w)) e")
  case None
  then show thesis using that(1) by (simp add: send_event_def)
next
  case (Some m)
  show thesis
  proof (cases "event_row d prof m e")
    case (Inl x)
    with Some show thesis using that(1) by (simp add: send_event_def send_one_def)
  next
    case (Inr mrow)
    obtain r db where r: "bd_oracle d prof mrow (br_db w) = (r, db)" by (rule prod.exhaust)
    show thesis
    proof (cases r)
      case (Inl x)
      with Some Inr r show thesis using that(1) by (simp add: send_event_def send_one_def)
    next
      case ok: (Inr res)
      with Some Inr r show thesis
        using that(2) [of "w\<lparr>br_db := db\<rparr>" m res] by (simp add: send_event_def send_one_def)
    qed
  qed
qed

lemma send_event_other:
  "k \<noteq> ie_event_id e \<Longrightarrow> inbox_get k (br_inbox (fst (send_event d now p prof e w))) = inbox_get k (br_inbox w)"
  by (rule send_event_cases [of d now p prof e w]) (simp_all add: settle_event_other)

lemma send_event_wf: "inbox_wf (br_inbox w) \<Longrightarrow> inbox_wf (br_inbox (fst (send_event d now p prof e w)))"
  by (rule send_event_cases [of d now p prof e w]) (simp_all add: settle_event_wf)

lemma settle_event_out: "\<exists>ms. br_out (fst (settle_event d now p m e r w)) = br_out w @ ms"
  by (simp add: settle_event_def Let_def split: sum.split)

lemma send_event_out: "\<exists>ms. br_out (fst (send_event d now p prof e w)) = br_out w @ ms"
  by (rule send_event_cases [of d now p prof e w]) (use settle_event_out in \<open>auto, metis\<close>)

interpretation event_loop: send_loop ie_event_id "\<lambda>k w. inbox_get k (br_inbox w)"
  "send_event d now p prof" "\<lambda>w. inbox_wf (br_inbox w) \<and> br_time w = t" br_out
  for d now p prof t
  by unfold_locales (simp_all add: send_event_other send_event_wf step_laws send_event_out)

section \<open>A whole run\<close>

text \<open>The state and the profile with which the loop starts, when it does.\<close>

definition sender_start :: "cmd_outcome \<Rightarrow> datetime \<Rightarrow> 'o bridge \<Rightarrow> 'o bridge" where
  "sender_start out now w =
     (let (ssid, nw) = get_current_ssid out (br_network w); (dec, res) = resolve ssid (br_resolver w)
      in w\<lparr>br_network := nw, br_resolver := res,
           br_breaker := (if rd_action dec = ASend \<and> rd_profile_name dec \<noteq> None
             then snd (state_for (the (rd_profile_name dec)) (Some (dt_us now)) (br_breaker w))
             else br_breaker w)\<rparr>)"

definition sender_profile :: "cmd_outcome \<Rightarrow> datetime \<Rightarrow> 'o bridge \<Rightarrow> (string \<times> pyval) option" where
  "sender_profile out now w =
     (let dec = peek (fst (get_current_ssid out (br_network w))) (br_resolver w)
      in if rd_action dec \<noteq> ASend then None
         else (case rd_profile_name dec of None \<Rightarrow> None
           | Some p \<Rightarrow> if fst (state_for p (Some (dt_us now)) (br_breaker w)) = COpen then None
                else (case resolver_get (br_resolver w) p of Inl _ \<Rightarrow> None | Inr prof \<Rightarrow> Some (p, prof))))"

lemma sender_start_simps [simp]:
  "br_inbox (sender_start out now w) = br_inbox w"
  "br_records (sender_start out now w) = br_records w"
  "br_out (sender_start out now w) = br_out w"
  "br_db (sender_start out now w) = br_db w"
  "br_time (sender_start out now w) = br_time w"
  by (simp_all add: sender_start_def split: prod.split)

lemma resolver_get_resolve [simp]: "resolver_get (snd (resolve ssid r)) p = resolver_get r p"
  by (simp add: resolver_get_def)

lemma sender_run_loop:
  "sender_profile out now w = Some (p, prof) \<Longrightarrow> sender_run_once d out now w =
     run_rows (send_event d now p prof) (inbox_iter_received_due (isoformat now) (br_inbox w)) (sender_start out now w)"
  by (auto simp: sender_profile_def sender_run_once_def sender_start_def peek_is_resolve Let_def split_def
      split: if_splits option.splits sum.splits)

lemma sender_run_idle:
  "sender_profile out now w = None \<Longrightarrow> fst (sender_run_once d out now w) = sender_start out now w"
  by (auto simp: sender_profile_def sender_run_once_def sender_start_def peek_is_resolve Let_def split_def
      split: if_splits option.splits sum.splits)

text \<open>What a MERGE with result \<open>r\<close> makes of an event.\<close>

definition event_settled :: "'o bridge_deps \<Rightarrow> datetime \<Rightarrow> string \<Rightarrow> inbox_event \<Rightarrow> string \<Rightarrow> merge_result
    \<Rightarrow> 'o bridge \<Rightarrow> bool" where
  "event_settled d now p e m r w =
     (case mr_code r of
        None \<Rightarrow>
          inbox_get (ie_event_id e) (br_inbox w)
            = Some (e\<lparr>ie_status := Sent, ie_mk_date_committed := Some m, ie_profile_at_send := Some p,
                      ie_sent_at_iso := Some (isoformat now)\<rparr>)
          \<and> MAck (bd_topic_ack d) (ie_event_id e) (Some m) (Some (isoformat_ms now)) \<in> set (br_out w)
      | Some c \<Rightarrow>
          (case next_retry_at now (ie_retry_count e + 1) (bd_policy d) of
             Inl _ \<Rightarrow> False
           | Inr t \<Rightarrow>
               inbox_get (ie_event_id e) (br_inbox w)
                 = Some (e\<lparr>ie_retry_count := ie_retry_count e + 1, ie_next_retry_at_iso := Some (isoformat t),
                           ie_last_error := Some (error_text r)\<rparr>)))"

lemma event_settled_mono:
  assumes "event_settled d now p e m r u"
    and "inbox_get (ie_event_id e) (br_inbox w) = inbox_get (ie_event_id e) (br_inbox u)"
    and "set (br_out u) \<subseteq> set (br_out w)"
  shows "event_settled d now p e m r w"
  using assms by (auto simp: event_settled_def split: option.splits sum.splits)

lemma settle_event_settled:
  assumes "inbox_get (ie_event_id e) (br_inbox u) = Some e" and "snd (settle_event d now p m e r u) = None"
  shows "event_settled d now p e m r (fst (settle_event d now p m e r u))"
  using assms
  by (auto simp: settle_event_def event_settled_def Let_def inbox_mark_sent_get inbox_update_retry_get
      split: sum.splits if_splits)

lemma send_event_settled:
  assumes "inbox_get (ie_event_id e) (br_inbox u) = Some e" and "snd (send_event d now p prof e u) = None"
    and "resolve_mk_date (tw_baseline (br_time u)) e = Some m"
  obtains mrow db r where "event_row d prof m e = Inr mrow" and "fst (bd_oracle d prof mrow db) = Inr r"
    and "event_settled d now p e m r (fst (send_event d now p prof e u))"
proof -
  obtain mrow where mrow: "event_row d prof m e = Inr mrow"
    using assms(2,3) by (cases "event_row d prof m e") (simp_all add: send_event_def send_one_def)
  obtain q db where q: "bd_oracle d prof mrow (br_db u) = (q, db)" by (rule prod.exhaust)
  obtain r where r: "q = Inr r" using assms(2,3) mrow q by (cases q) (simp_all add: send_event_def send_one_def)
  have step: "send_event d now p prof e u = settle_event d now p m e r (u\<lparr>br_db := db\<rparr>)"
    using assms(3) mrow q r by (simp add: send_event_def send_one_def)
  have "event_settled d now p e m r (fst (send_event d now p prof e u))"
    using settle_event_settled [of e "u\<lparr>br_db := db\<rparr>" d now p m r] assms(1,2) step by simp
  moreover have "fst (bd_oracle d prof mrow (br_db u)) = Inr r" using q r by simp
  ultimately show thesis using that mrow by blast
qed

text \<open>Rows only move forward, and an ACK that was handed out belongs to a sent row.\<close>

definition ack_of_sent :: "inbox \<Rightarrow> bridge_msg \<Rightarrow> bool" where
  "ack_of_sent t m = (case m of
      MAck tp i (Some mk) (Some ts) \<Rightarrow> (case inbox_get i t of None \<Rightarrow> False | Some e \<Rightarrow> ie_status e = Sent)
    | _ \<Rightarrow> False)"

definition acked_rows_sent :: "bridge_msg list \<Rightarrow> 'o bridge \<Rightarrow> bool" where
  "acked_rows_sent old w = (\<exists>ms. br_out w = old @ ms \<and> (\<forall>m \<in> set ms. ack_of_sent (br_inbox w) m))"

lemma inbox_get_key: "inbox_get k t = Some e \<Longrightarrow> ie_event_id e = k"
  by (auto simp: inbox_get_def find_Some_iff)

definition sent_stays :: "inbox \<Rightarrow> inbox \<Rightarrow> bool" where
  "sent_stays t u = (map ie_event_id u = map ie_event_id t
     \<and> (\<forall>k e. inbox_get k t = Some e \<and> ie_status e = Sent \<longrightarrow> (\<exists>f. inbox_get k u = Some f \<and> ie_status f = Sent)))"

lemma sent_stays_refl [simp]: "sent_stays t t"
  by (simp add: sent_stays_def)

lemma sent_stays_trans: "sent_stays t u \<Longrightarrow> sent_stays u v \<Longrightarrow> sent_stays t v"
  unfolding sent_stays_def by (metis (lifting))

lemma sent_stays_ops:
  "sent_stays t (inbox_mark_sent i m p s t)" "sent_stays t (inbox_update_retry i n x y t)"
  by (auto simp: sent_stays_def inbox_mark_sent_get inbox_update_retry_get inbox_mark_sent_keys inbox_update_retry_keys)

lemma settle_event_stays: "sent_stays (br_inbox w) (br_inbox (fst (settle_event d now p m e r w)))"
  by (simp add: settle_event_def Let_def sent_stays_ops split: sum.split)

lemma send_event_stays: "sent_stays (br_inbox w) (br_inbox (fst (send_event d now p prof e w)))"
  by (rule send_event_cases [of d now p prof e w]) (use settle_event_stays in \<open>simp, metis\<close>)

lemma inbox_get_present: "k \<in> set (map ie_event_id t) \<Longrightarrow> \<exists>e. inbox_get k t = Some e"
  using find_key_None_iff [of ie_event_id k t] by (cases "inbox_get k t") (auto simp: inbox_get_def)

lemma ack_of_sent_mono: "ack_of_sent t m \<Longrightarrow> sent_stays t u \<Longrightarrow> ack_of_sent u m"
  unfolding ack_of_sent_def sent_stays_def
  by (fastforce split: bridge_msg.splits option.splits)

lemma send_event_acked:
  assumes "acked_rows_sent old w" and "ie_event_id e \<in> set (map ie_event_id (br_inbox w))"
  shows "acked_rows_sent old (fst (send_event d now p prof e w))"
proof (rule send_event_cases [of d now p prof e w])
  assume "br_inbox (fst (send_event d now p prof e w)) = br_inbox w"
    and "br_out (fst (send_event d now p prof e w)) = br_out w"
  with assms(1) show ?thesis by (simp add: acked_rows_sent_def)
next
  fix m r w'
  assume w': "br_inbox w' = br_inbox w" "br_out w' = br_out w" "send_event d now p prof e w = settle_event d now p m e r w'"
  let ?t = "br_inbox (fst (send_event d now p prof e w))"
  obtain ms where ms: "br_out w = old @ ms" "\<forall>m \<in> set ms. ack_of_sent ?t m"
    using assms(1) ack_of_sent_mono [OF _ send_event_stays] unfolding acked_rows_sent_def by blast
  show ?thesis
  proof (cases "mr_code r")
    case None
    obtain f where "inbox_get (ie_event_id e) (br_inbox w) = Some f" using inbox_get_present assms(2) by blast
    then have "ack_of_sent ?t (MAck (bd_topic_ack d) (ie_event_id e) (Some m) (Some (isoformat_ms now)))"
      using w' None by (simp add: ack_of_sent_def settle_event_def inbox_mark_sent_get)
    moreover have "br_out (fst (send_event d now p prof e w))
        = old @ ms @ [MAck (bd_topic_ack d) (ie_event_id e) (Some m) (Some (isoformat_ms now))]"
      using w' None ms(1) by (simp add: settle_event_def)
    ultimately show ?thesis using ms(2) unfolding acked_rows_sent_def by auto
  next
    case (Some c)
    then have "br_out (fst (send_event d now p prof e w)) = br_out w"
      using w' by (simp add: settle_event_def Let_def split: sum.split)
    with ms show ?thesis unfolding acked_rows_sent_def by simp
  qed
qed

lemma send_run_acked:
  fixes d :: "'o bridge_deps" and s :: "'o bridge"
  assumes "\<And>e. e \<in> set es \<Longrightarrow> ie_event_id e \<in> set (map ie_event_id (br_inbox s))"
  shows "acked_rows_sent (br_out s) (fst (run_rows (send_event d now p prof) es s))
    \<and> sent_stays (br_inbox s) (br_inbox (fst (run_rows (send_event d now p prof) es s)))"
proof (rule run_rows_invariant [where I = "\<lambda>w. acked_rows_sent (br_out s) w \<and> sent_stays (br_inbox s) (br_inbox w)"])
  fix e and w :: "'o bridge"
  assume "e \<in> set es" and I: "acked_rows_sent (br_out s) w \<and> sent_stays (br_inbox s) (br_inbox w)"
  then have "ie_event_id e \<in> set (map ie_event_id (br_inbox w))" using assms by (simp add: sent_stays_def)
  with I show "acked_rows_sent (br_out s) (fst (send_event d now p prof e w))
      \<and> sent_stays (br_inbox s) (br_inbox (fst (send_event d now p prof e w)))"
    using send_event_acked send_event_stays sent_stays_trans by blast
next
  show "acked_rows_sent (br_out s) s \<and> sent_stays (br_inbox s) (br_inbox s)" by (simp add: acked_rows_sent_def)
qed

section \<open>A small bridge\<close>

definition example_now :: datetime where
  "example_now = \<lparr>dt_us = 5000000, dt_off = 0\<rparr>"

definition example_event :: inbox_event where
  "example_event = \<lparr>ie_event_id = ''e1'', ie_event_type = ''ENTER'', ie_mk_date = Some ''20260101000000'',
     ie_monotonic_ns = 7, ie_wall_synced = True, ie_device_id = Some ''pi'', ie_score = None, ie_raw_payload = [],
     ie_status = Received, ie_ssid_at_receive = Some ''fab'', ie_profile_at_send = None, ie_mk_date_committed = None,
     ie_received_at_iso = ''2026'', ie_sent_at_iso = None, ie_retry_count = 0, ie_next_retry_at_iso = None,
     ie_last_error = None\<rparr>"

definition example_jdbc_profile :: pyval where
  "example_jdbc_profile = PDict [(''oracle'', PDict (dict_set ''table_name'' (PStr ''T'') example_oracle)),
     (''sntp'', PDict [(''servers'', PList [])])]"

definition example_bridge :: "unit bridge" where
  "example_bridge = \<lparr>br_inbox = [example_event], br_records = [],
     br_resolver = new_resolver [(''fab'', example_jdbc_profile)] ''hold'', br_breaker = new_breaker 60 [12514],
     br_network = new_network_watcher (Some {''fab''}), br_time = new_time_watcher, br_db = (), br_out = []\<rparr>"

text \<open>An adapter whose requests all have the outcome given.\<close>

definition example_adapter :: "http_outcome \<Rightarrow> unit adapter" where
  "example_adapter h = \<lparr>oa_url = ''http://jdbc:8080'', oa_connect_ms = 10000, oa_read_ms = 30000,
     oa_override = (\<lambda>_. None),
     oa_driver = \<lparr>dr_connect = (\<lambda>_ s. (None, s)), dr_execute = (\<lambda>_ _ s. (Inr 1, s)), dr_commit = (\<lambda>s. (None, s))\<rparr>,
     oa_http = (\<lambda>_ s. (h, s)), oa_repr = (\<lambda>_. [])\<rparr>"

definition example_deps :: "http_outcome \<Rightarrow> unit bridge_deps" where
  "example_deps h = \<lparr>bd_oracle = execute_merge_for_profile (example_adapter h), bd_device_cfg = example_device,
     bd_topic_ack = ''ack'', bd_policy = int_policy 5 3 600, bd_rec_topic_ack = Some ''rack'',
     bd_rec_topic_nack = Some ''rnack'', bd_unretryable = [1], bd_giveup_mark = '' (give up)''\<rparr>"

definition example_row :: merge_row where
  "example_row = \<lparr>mw_mk_date = ''20260101000000'', mw_sta_no1 = PStr ''1'', mw_sta_no2 = PStr ''2'',
     mw_sta_no3 = PStr ''3'', mw_t1_status = 1\<rparr>"

lemma example_row: "event_row (example_deps h) example_jdbc_profile ''20260101000000'' example_event = Inr example_row"
  by (simp add: event_row_def example_deps_def example_jdbc_profile_def example_device_def station_for_profile_def
      dict_get_def example_row_def example_event_def)

lemma example_merge: "bd_oracle (example_deps h) example_jdbc_profile example_row s = (jdbc_result h, ())"
  by (simp add: example_deps_def example_adapter_def example_jdbc_profile_def example_oracle_def
      execute_merge_for_profile_def dict_get_def upcmpflg_of_def read_upcmpflg_override_def get_or_def sub_def
      as_table_def execute_merge_via_jdbc_def jdbc_request_def build_jdbc_url_def)

lemma example_date: "resolve_mk_date b example_event = Some ''20260101000000''"
  by (simp add: resolve_mk_date_def example_event_def)

lemma example_ssid: "get_current_ssid (CmdDone 0 ''yes:fab'') (br_network example_bridge)
    = (Some ''fab'', \<lparr>nw_preferred = {''fab''}, nw_cached = Some ''fab''\<rparr>)"
proof -
  have "parse_active_ssids ''yes:fab'' = [''fab'']" by code_simp
  then show ?thesis
    by (simp add: get_current_ssid_def example_bridge_def new_network_watcher_def select_ssid_def Let_def)
qed

lemma example_profile_sent: "sender_profile (CmdDone 0 ''yes:fab'') example_now example_bridge
    = Some (''fab'', example_jdbc_profile)"
  unfolding sender_profile_def example_ssid
  by (simp add: example_bridge_def peek_def known_ssid_def dict_keys_def state_for_def fresh_entry_def Let_def
      resolver_get_def dict_get_def)

lemma example_due: "inbox_iter_received_due (isoformat example_now) (br_inbox example_bridge) = [example_event]"
  by (simp add: inbox_iter_received_due_def example_bridge_def example_event_def due_at_def order_by_def)

lemma example_inbox_wf: "inbox_wf (br_inbox example_bridge)"
  by (simp add: inbox_wf_def example_bridge_def example_event_def inbox_row_wf_def inbox_check_def)

lemma example_run: "sender_run_once (example_deps h) (CmdDone 0 ''yes:fab'') example_now example_bridge
    = send_event (example_deps h) example_now ''fab'' example_jdbc_profile example_event
        (sender_start (CmdDone 0 ''yes:fab'') example_now example_bridge)"
  unfolding sender_run_loop [OF example_profile_sent] example_due
  by (auto split: prod.split option.split)

section \<open>Properties\<close>

text \<open>C2: a run of the sender that ends settles every due event once: without a time it is left as it
  is; otherwise Oracle was asked with the row of the event, and the event is either sent, with the
  time and profile it was written with and an ACK handed out, or it stays received with one more
  attempt counted, the next attempt's time and the error.\<close>

theorem sender_settles_due_event:
  assumes "inbox_wf (br_inbox w)" and "sender_profile out now w = Some (p, prof)"
    and "sender_run_once d out now w = (w', None)"
    and "e \<in> set (inbox_iter_received_due (isoformat now) (br_inbox w))"
  shows "case resolve_mk_date (tw_baseline (br_time w)) e of
      None \<Rightarrow> inbox_get (ie_event_id e) (br_inbox w') = Some e
    | Some m \<Rightarrow> \<exists>mrow db r. event_row d prof m e = Inr mrow \<and> fst (bd_oracle d prof mrow db) = Inr r
        \<and> event_settled d now p e m r w'"
proof -
  let ?s = "sender_start out now w"
  let ?rs = "inbox_iter_received_due (isoformat now) (br_inbox w)"
  have run: "run_rows (send_event d now p prof) ?rs ?s = (w', None)"
    using sender_run_loop [OF assms(2)] assms(3) by simp
  have e: "inbox_get (ie_event_id e) (br_inbox ?s) = Some e"
    using assms(1,4) inbox_due_member by (simp add: inbox_get_iff)
  obtain u where u: "inbox_wf (br_inbox u) \<and> br_time u = br_time w"
      "inbox_get (ie_event_id e) (br_inbox u) = inbox_get (ie_event_id e) (br_inbox ?s)"
      "snd (send_event d now p prof e u) = None"
    and fin: "inbox_get (ie_event_id e) (br_inbox w') = inbox_get (ie_event_id e) (br_inbox (fst (send_event d now p prof e u)))"
      "set (br_out (fst (send_event d now p prof e u))) \<subseteq> set (br_out w')"
    by (rule event_loop.run_row [where rs = ?rs and r = e and s = ?s and d = d and now = now and p = p
          and prof = prof and t = "br_time w"])
      (use assms(1,4) inbox_due_distinct run in auto)
  show ?thesis
  proof (cases "resolve_mk_date (tw_baseline (br_time w)) e")
    case None
    then have "fst (send_event d now p prof e u) = u" using u(1) by (simp add: send_event_def)
    with None fin(1) u(2) e show ?thesis by simp
  next
    case (Some m)
    then have m: "resolve_mk_date (tw_baseline (br_time u)) e = Some m" using u(1) by simp
    have eu: "inbox_get (ie_event_id e) (br_inbox u) = Some e" using u(2) e by simp
    obtain mrow db r where r: "event_row d prof m e = Inr mrow" "fst (bd_oracle d prof mrow db) = Inr r"
      "event_settled d now p e m r (fst (send_event d now p prof e u))"
      by (rule send_event_settled [OF eu u(3) m])
    from event_settled_mono [OF r(3) fin] r(1,2) Some show ?thesis by auto
  qed
qed

theorem sender_settles_due_event_witness:
  "event_settled (example_deps (HttpBody ''ora_code='')) example_now ''fab'' example_event ''20260101000000''
     \<lparr>mr_rows = 0, mr_code = None, mr_msg = Some []\<rparr>
     (fst (sender_run_once (example_deps (HttpBody ''ora_code='')) (CmdDone 0 ''yes:fab'') example_now example_bridge))"
proof -
  let ?h = "HttpBody ''ora_code=''"
  have res: "jdbc_result ?h = Inr \<lparr>mr_rows = 0, mr_code = None, mr_msg = Some []\<rparr>"
    by code_simp
  obtain w' where w': "sender_run_once (example_deps ?h) (CmdDone 0 ''yes:fab'') example_now example_bridge = (w', None)"
    using example_row [of ?h]
    by (simp add: example_run send_event_def example_date send_one_def example_merge res settle_event_def)
  have "example_event \<in> set (inbox_iter_received_due (isoformat example_now) (br_inbox example_bridge))"
    by (simp add: example_due)
  from sender_settles_due_event [OF example_inbox_wf example_profile_sent w' this]
  show ?thesis using w' by (auto simp: example_date example_row example_merge res)
qed

text \<open>C3: whatever stops it, a run of the sender hands out ACKs only for events that are sent in the
  inbox afterwards, loses no event, and turns no sent event back.\<close>

theorem sender_acks_only_sent_events:
  "acked_rows_sent (br_out w) (fst (sender_run_once d out now w))
   \<and> sent_stays (br_inbox w) (br_inbox (fst (sender_run_once d out now w)))
   \<and> br_records (fst (sender_run_once d out now w)) = br_records w"
proof (cases "sender_profile out now w")
  case None
  then show ?thesis using sender_run_idle [OF None, of d] by (simp add: acked_rows_sent_def)
next
  case (Some pp)
  obtain p prof where pp: "pp = (p, prof)" by (cases pp)
  let ?rs = "inbox_iter_received_due (isoformat now) (br_inbox w)"
  have run: "sender_run_once d out now w = run_rows (send_event d now p prof) ?rs (sender_start out now w)"
    using Some pp by (simp add: sender_run_loop)
  have "ie_event_id e \<in> set (map ie_event_id (br_inbox (sender_start out now w)))" if "e \<in> set ?rs" for e
    using that by (auto simp: inbox_iter_received_due_def)
  note acked = send_run_acked [OF this]
  have "br_records (fst (run_rows (send_event d now p prof) ?rs (sender_start out now w))) = br_records w"
    by (rule run_rows_invariant [where I = "\<lambda>v. br_records v = br_records w"]) (simp_all add: step_laws)
  then show ?thesis using acked [of ?rs d now p prof] run by simp
qed

text \<open>Under an SSID the policy does not send for, or while the profile's circuit is open, a run
  neither asks Oracle nor touches the inbox nor sends a message; in every other case it goes on to
  the due events.\<close>

theorem sender_holds_back:
  fixes out :: cmd_outcome and now :: datetime
  assumes "resolver_wf (br_resolver w)"
  defines "dec \<equiv> peek (fst (get_current_ssid out (br_network w))) (br_resolver w)"
  defines "held \<equiv> rd_action dec \<noteq> ASend
      \<or> fst (state_for (the (rd_profile_name dec)) (Some (dt_us now)) (br_breaker w)) = COpen"
  shows "(held \<longrightarrow> snd (sender_run_once d out now w) = None
           \<and> br_db (fst (sender_run_once d out now w)) = br_db w
           \<and> br_inbox (fst (sender_run_once d out now w)) = br_inbox w
           \<and> br_out (fst (sender_run_once d out now w)) = br_out w)
    \<and> (\<not> held \<longrightarrow> (\<exists>prof. sender_profile out now w = Some (the (rd_profile_name dec), prof)))"
proof
  have known: "\<exists>p v. rd_profile_name dec = Some p \<and> resolver_get (br_resolver w) p = Inr v" if "rd_action dec = ASend"
    using peek_send_known [OF assms(1)] that unfolding dec_def by blast
  show "\<not> held \<longrightarrow> (\<exists>prof. sender_profile out now w = Some (the (rd_profile_name dec), prof))"
    using known unfolding held_def sender_profile_def dec_def [symmetric] Let_def by auto
  show "held \<longrightarrow> snd (sender_run_once d out now w) = None
           \<and> br_db (fst (sender_run_once d out now w)) = br_db w
           \<and> br_inbox (fst (sender_run_once d out now w)) = br_inbox w
           \<and> br_out (fst (sender_run_once d out now w)) = br_out w"
  proof
    assume held
    then have none: "sender_profile out now w = None"
      using known unfolding held_def sender_profile_def dec_def [symmetric] Let_def by (auto split: option.split)
    have "snd (sender_run_once d out now w) = None"
      using \<open>held\<close> known unfolding held_def dec_def
      by (auto simp: sender_run_once_def peek_is_resolve Let_def split_def split: option.split)
    then show "snd (sender_run_once d out now w) = None
           \<and> br_db (fst (sender_run_once d out now w)) = br_db w
           \<and> br_inbox (fst (sender_run_once d out now w)) = br_inbox w
           \<and> br_out (fst (sender_run_once d out now w)) = br_out w"
      using sender_run_idle [OF none, of d] by simp
  qed
qed

theorem sender_holds_back_witness:
  "br_inbox (fst (sender_run_once (example_deps (HttpBody [])) CmdTimeout example_now example_bridge)) = br_inbox example_bridge"
proof -
  have "resolver_wf (br_resolver example_bridge)" by (simp add: example_bridge_def)
  moreover have "rd_action (peek (fst (get_current_ssid CmdTimeout (br_network example_bridge))) (br_resolver example_bridge)) \<noteq> ASend"
    by (simp add: example_bridge_def get_current_ssid_def new_network_watcher_def peek_def known_ssid_def unknown_decision_def)
  ultimately show ?thesis using sender_holds_back [of example_bridge CmdTimeout example_now "example_deps (HttpBody [])"] by simp
qed

text \<open>C26: a MERGE that never reached the database, because the sidecar could not be reached, carries no
  error number; the sender takes it for success, marks the event sent and acknowledges it.\<close>

theorem unreachable_sidecar_marks_event_sent:
  assumes "inbox_get (ie_event_id e) (br_inbox w) = Some e"
    and "resolve_mk_date (tw_baseline (br_time w)) e = Some m" and "event_row d prof m e = Inr mrow"
    and "fst (bd_oracle d prof mrow (br_db w)) = jdbc_result (HttpUnreachable reason)"
  shows "\<exists>f. inbox_get (ie_event_id e) (br_inbox (fst (send_event d now p prof e w))) = Some f \<and> ie_status f = Sent
    \<and> MAck (bd_topic_ack d) (ie_event_id e) (Some m) (Some (isoformat_ms now))
        \<in> set (br_out (fst (send_event d now p prof e w)))"
proof -
  obtain r db where r: "bd_oracle d prof mrow (br_db w) = (Inr r, db)" "mr_code r = None"
    using assms(4) by (cases "bd_oracle d prof mrow (br_db w)") (simp add: jdbc_result_def)
  then show ?thesis
    using assms(1-3) by (simp add: send_event_def send_one_def settle_event_def inbox_mark_sent_get)
qed

theorem unreachable_sidecar_marks_event_sent_witness:
  "\<exists>f. inbox_get ''e1'' (br_inbox (fst (send_event (example_deps (HttpUnreachable ''refused'')) example_now ''fab''
      example_jdbc_profile example_event example_bridge))) = Some f \<and> ie_status f = Sent"
proof -
  have id: "ie_event_id example_event = ''e1''" by (simp add: example_event_def)
  have e: "inbox_get (ie_event_id example_event) (br_inbox example_bridge) = Some example_event"
    by (simp add: inbox_get_def example_bridge_def)
  have "fst (bd_oracle (example_deps (HttpUnreachable ''refused'')) example_jdbc_profile example_row (br_db example_bridge))
      = jdbc_result (HttpUnreachable ''refused'')"
    by (simp add: example_merge)
  from unreachable_sidecar_marks_event_sent [OF e example_date example_row this, of example_now "''fab''"]
  show ?thesis unfolding id by blast
qed

end
