(* ===== verification/Record_Sender.thy ===== *)
theory Record_Sender
  imports Sender
begin

text \<open>
  \<open>services/bridge/src/record_sender.py\<close>: writing the children's records to Oracle and answering
  the ones that arrive again. It shares the state of the bridge with the event sender.
\<close>

definition content_matches :: "record_event \<Rightarrow> record_event \<Rightarrow> bool" where
  "content_matches stored incoming =
     (re_device_id stored = re_device_id incoming
      \<and> re_mk_date stored = re_mk_date incoming
      \<and> re_sta_no1 stored = re_sta_no1 incoming
      \<and> re_sta_no2 stored = re_sta_no2 incoming
      \<and> re_sta_no3 stored = re_sta_no3 incoming
      \<and> re_t1_status stored = re_t1_status incoming)"

definition rec_publish :: "bridge_msg list \<Rightarrow> 'o bridge \<Rightarrow> 'o bridge" where
  "rec_publish ms w = w\<lparr>br_out := br_out w @ ms\<rparr>"

definition rec_nack :: "'o bridge_deps \<Rightarrow> string \<Rightarrow> string \<Rightarrow> string \<Rightarrow> bridge_msg list" where
  "rec_nack d eid reason failed_at =
     (if truthy_str (bd_rec_topic_nack d) then [MNack (the (bd_rec_topic_nack d)) eid reason failed_at] else [])"

definition rec_ack :: "'o bridge_deps \<Rightarrow> string \<Rightarrow> string option \<Rightarrow> string option \<Rightarrow> bridge_msg list" where
  "rec_ack d eid mk_date committed_at =
     (if truthy_str (bd_rec_topic_ack d) then [MAck (the (bd_rec_topic_ack d)) eid mk_date committed_at] else [])"

text \<open>\<open>receive\<close>.\<close>

definition rec_receive :: "'o bridge_deps \<Rightarrow> record_event \<Rightarrow> 'o bridge \<Rightarrow> 'o bridge run" where
  "rec_receive d rec w =
     (case rec_get (re_event_id rec) (br_records w) of
        None \<Rightarrow>
          (case rec_insert_received rec (br_records w) of
             Inl x \<Rightarrow> (w, Some x)
           | Inr t \<Rightarrow> (w\<lparr>br_records := t\<rparr>, None))
      | Some existing \<Rightarrow>
          (case re_status existing of
             RFailed \<Rightarrow>
               if content_matches existing rec
               then (rec_publish (rec_nack d (re_event_id existing)
                       (or_else (re_last_error existing) ''unretryable'') (or_else (re_failed_at_iso existing) [])) w, None)
               else (w, None)
           | RReceived \<Rightarrow> (w, None)
           | RSent \<Rightarrow>
               if \<not> content_matches existing rec then (w, None)
               else (rec_publish (rec_ack d (re_event_id existing) (re_mk_date_committed existing)
                       (re_sent_at_iso existing)) w, None)))"

definition record_row :: "record_event \<Rightarrow> merge_row" where
  "record_row rec = \<lparr>mw_mk_date = re_mk_date rec, mw_sta_no1 = PStr (re_sta_no1 rec),
     mw_sta_no2 = PStr (re_sta_no2 rec), mw_sta_no3 = PStr (re_sta_no3 rec), mw_t1_status = re_t1_status rec\<rparr>"

text \<open>\<open>_send_one\<close> after the MERGE: committed, given up, or to be tried again.\<close>

definition settle_record :: "'o bridge_deps \<Rightarrow> datetime \<Rightarrow> string \<Rightarrow> record_event \<Rightarrow> merge_result
    \<Rightarrow> 'o bridge \<Rightarrow> 'o bridge run" where
  "settle_record d now profile_name rec r w =
     (if mr_code r = None \<and> mr_msg r = None then
        (rec_publish (rec_ack d (re_event_id rec) (Some (re_mk_date rec)) (Some (isoformat_ms now)))
           (w\<lparr>br_records := rec_mark_sent (re_event_id rec) (re_mk_date rec) (isoformat now) (br_records w),
              br_breaker := record_success profile_name (br_breaker w)\<rparr>), None)
      else if (case mr_code r of None \<Rightarrow> False | Some c \<Rightarrow> c \<in> set (bd_unretryable d)) then
        (let last_error = error_text r @ bd_giveup_mark d
         in (rec_publish (rec_nack d (re_event_id rec) last_error (isoformat now))
               (w\<lparr>br_records := rec_mark_failed (re_event_id rec) (isoformat now) last_error (br_records w)\<rparr>), None))
      else
        (let b = record_failure profile_name (mr_code r) (dt_us now) (br_breaker w);
             attempt = re_retry_count rec + 1
         in case next_retry_at now attempt (bd_policy d) of
              Inl x \<Rightarrow> (w\<lparr>br_breaker := b\<rparr>, Some x)
            | Inr next_at \<Rightarrow>
                (w\<lparr>br_breaker := b,
                   br_records := rec_update_retry (re_event_id rec) attempt (isoformat next_at) (error_text r)
                     (br_records w)\<rparr>, None)))"

definition send_record :: "'o bridge_deps \<Rightarrow> datetime \<Rightarrow> string \<Rightarrow> pyval \<Rightarrow> record_event
    \<Rightarrow> 'o bridge \<Rightarrow> 'o bridge run" where
  "send_record d now profile_name profile rec w =
     (case bd_oracle d profile (record_row rec) (br_db w) of
        (Inl x, db) \<Rightarrow> (w\<lparr>br_db := db\<rparr>, Some x)
      | (Inr r, db) \<Rightarrow> settle_record d now profile_name rec r (w\<lparr>br_db := db\<rparr>))"

definition record_sender_run_once :: "'o bridge_deps \<Rightarrow> datetime \<Rightarrow> 'o bridge \<Rightarrow> 'o bridge run" where
  "record_sender_run_once d now w0 =
     (let dec = peek (nw_cached (br_network w0)) (br_resolver w0)
      in if rd_action dec \<noteq> ASend then (w0, None)
         else (case rd_profile_name dec of
             None \<Rightarrow> (w0, None)
           | Some profile_name \<Rightarrow>
               (let (st, b) = state_for profile_name (Some (dt_us now)) (br_breaker w0);
                    w1 = w0\<lparr>br_breaker := b\<rparr>
                in if st = COpen then (w1, None)
                   else (case resolver_get (br_resolver w1) profile_name of
                       Inl x \<Rightarrow> (w1, Some x)
                     | Inr profile \<Rightarrow>
                         run_rows (send_record d now profile_name profile)
                           (rec_iter_received_due (isoformat now) (br_records w1)) w1))))"

section \<open>What a step touches\<close>

lemma rec_publish_simps [simp]:
  "br_records (rec_publish ms w) = br_records w" "br_inbox (rec_publish ms w) = br_inbox w"
  "br_out (rec_publish ms w) = br_out w @ ms" "br_resolver (rec_publish ms w) = br_resolver w"
  "br_network (rec_publish ms w) = br_network w" "br_breaker (rec_publish ms w) = br_breaker w"
  by (simp_all add: rec_publish_def)

lemma settle_record_inbox [step_laws]: "br_inbox (fst (settle_record d now p rec r w)) = br_inbox w"
  by (simp add: settle_record_def Let_def split: sum.split)

lemma settle_record_other:
  "k \<noteq> re_event_id rec \<Longrightarrow> rec_get k (br_records (fst (settle_record d now p rec r w))) = rec_get k (br_records w)"
  by (simp add: settle_record_def Let_def rec_mark_sent_get rec_mark_failed_get rec_update_retry_get split: sum.split)

lemma settle_record_wf: "rec_wf (br_records w) \<Longrightarrow> rec_wf (br_records (fst (settle_record d now p rec r w)))"
  by (simp add: settle_record_def Let_def rec_wf_mark_sent rec_wf_mark_failed rec_wf_update_retry split: sum.split)

lemma settle_record_out:
  "br_out w = old \<Longrightarrow> \<exists>ms. br_out (fst (settle_record d now p rec r w)) = old @ ms"
  by (simp add: settle_record_def Let_def split: sum.split)

lemma send_record_cases:
  obtains x where "fst (bd_oracle d prof (record_row rec) (br_db w)) = Inl x"
      and "send_record d now p prof rec w = (w\<lparr>br_db := snd (bd_oracle d prof (record_row rec) (br_db w))\<rparr>, Some x)"
  | r db where "fst (bd_oracle d prof (record_row rec) (br_db w)) = Inr r"
      and "send_record d now p prof rec w = settle_record d now p rec r (w\<lparr>br_db := db\<rparr>)"
proof -
  obtain q db where q: "bd_oracle d prof (record_row rec) (br_db w) = (q, db)" by (rule prod.exhaust)
  show thesis
  proof (cases q)
    case (Inl x)
    with q show thesis using that(1) by (simp add: send_record_def)
  next
    case (Inr r)
    with q show thesis using that(2) [of r db] by (simp add: send_record_def)
  qed
qed

interpretation record_loop: send_loop re_event_id "\<lambda>k w. rec_get k (br_records w)"
  "send_record d now p prof" "\<lambda>w. rec_wf (br_records w)" br_out
  for d now p prof
proof
  show "rec_get k (br_records (fst (send_record d now p prof r s))) = rec_get k (br_records s)"
    if "k \<noteq> re_event_id r" for k r s
    by (rule send_record_cases [of d prof r s now p]) (simp_all add: settle_record_other that)
  show "rec_wf (br_records (fst (send_record d now p prof r s)))" if "rec_wf (br_records s)" for r s
    by (rule send_record_cases [of d prof r s now p]) (simp_all add: settle_record_wf that)
  show "\<exists>ms. br_out (fst (send_record d now p prof r s)) = br_out s @ ms" for r s
    by (rule send_record_cases [of d prof r s now p]) (simp_all add: settle_record_out)
qed

text \<open>The loop with which a run goes on, when it does.\<close>

definition record_profile :: "datetime \<Rightarrow> 'o bridge \<Rightarrow> (string \<times> pyval) option" where
  "record_profile now w =
     (let dec = peek (nw_cached (br_network w)) (br_resolver w)
      in if rd_action dec \<noteq> ASend then None
         else (case rd_profile_name dec of None \<Rightarrow> None
           | Some p \<Rightarrow> if fst (state_for p (Some (dt_us now)) (br_breaker w)) = COpen then None
                else (case resolver_get (br_resolver w) p of Inl _ \<Rightarrow> None | Inr prof \<Rightarrow> Some (p, prof))))"

definition record_start :: "string \<Rightarrow> datetime \<Rightarrow> 'o bridge \<Rightarrow> 'o bridge" where
  "record_start p now w = w\<lparr>br_breaker := snd (state_for p (Some (dt_us now)) (br_breaker w))\<rparr>"

lemma record_run_loop:
  "record_profile now w = Some (p, prof) \<Longrightarrow> record_sender_run_once d now w =
     run_rows (send_record d now p prof) (rec_iter_received_due (isoformat now) (br_records w)) (record_start p now w)"
  by (auto simp: record_profile_def record_sender_run_once_def record_start_def Let_def split_def
      split: if_splits option.splits sum.splits)

lemma record_run_idle:
  "record_profile now w = None \<Longrightarrow> br_records (fst (record_sender_run_once d now w)) = br_records w
     \<and> br_out (fst (record_sender_run_once d now w)) = br_out w
     \<and> br_inbox (fst (record_sender_run_once d now w)) = br_inbox w
     \<and> br_db (fst (record_sender_run_once d now w)) = br_db w"
  by (auto simp: record_profile_def record_sender_run_once_def Let_def split_def
      split: if_splits option.splits sum.splits)

section \<open>Outcomes\<close>

text \<open>What a MERGE with result \<open>r\<close> makes of a record.\<close>

definition record_settled :: "'o bridge_deps \<Rightarrow> datetime \<Rightarrow> record_event \<Rightarrow> merge_result \<Rightarrow> 'o bridge \<Rightarrow> bool" where
  "record_settled d now rec r w =
     (if mr_code r = None \<and> mr_msg r = None then
        rec_get (re_event_id rec) (br_records w)
          = Some (rec\<lparr>re_status := RSent, re_mk_date_committed := Some (re_mk_date rec), re_sent_at_iso := Some (isoformat now)\<rparr>)
        \<and> set (rec_ack d (re_event_id rec) (Some (re_mk_date rec)) (Some (isoformat_ms now))) \<subseteq> set (br_out w)
      else if (case mr_code r of None \<Rightarrow> False | Some c \<Rightarrow> c \<in> set (bd_unretryable d)) then
        rec_get (re_event_id rec) (br_records w)
          = Some (rec\<lparr>re_status := RFailed, re_failed_at_iso := Some (isoformat now),
                      re_last_error := Some (error_text r @ bd_giveup_mark d)\<rparr>)
        \<and> set (rec_nack d (re_event_id rec) (error_text r @ bd_giveup_mark d) (isoformat now)) \<subseteq> set (br_out w)
      else
        (case next_retry_at now (re_retry_count rec + 1) (bd_policy d) of
           Inl _ \<Rightarrow> False
         | Inr t \<Rightarrow>
             rec_get (re_event_id rec) (br_records w)
               = Some (rec\<lparr>re_retry_count := re_retry_count rec + 1, re_next_retry_at_iso := Some (isoformat t),
                           re_last_error := Some (error_text r)\<rparr>)))"

lemma record_settled_mono:
  assumes "record_settled d now rec r u"
    and "rec_get (re_event_id rec) (br_records w) = rec_get (re_event_id rec) (br_records u)"
    and "set (br_out u) \<subseteq> set (br_out w)"
  shows "record_settled d now rec r w"
  using assms by (auto simp: record_settled_def split: if_splits sum.splits)

lemma settle_record_settled:
  assumes "rec_get (re_event_id rec) (br_records u) = Some rec" and "snd (settle_record d now p rec r u) = None"
  shows "record_settled d now rec r (fst (settle_record d now p rec r u))"
  using assms
  by (auto simp: settle_record_def record_settled_def Let_def rec_mark_sent_get rec_mark_failed_get
      rec_update_retry_get split: sum.splits if_splits)

lemma record_due_settled:
  assumes "rec_wf (br_records w)" and "record_profile now w = Some (p, prof)"
    and "record_sender_run_once d now w = (w', None)"
    and "rec \<in> set (rec_iter_received_due (isoformat now) (br_records w))"
  obtains db r where "fst (bd_oracle d prof (record_row rec) db) = Inr r" and "record_settled d now rec r w'"
proof -
  let ?s = "record_start p now w"
  let ?rs = "rec_iter_received_due (isoformat now) (br_records w)"
  have run: "run_rows (send_record d now p prof) ?rs ?s = (w', None)"
    using record_run_loop [OF assms(2)] assms(3) by simp
  have recs: "br_records ?s = br_records w" by (simp add: record_start_def)
  have rec: "rec_get (re_event_id rec) (br_records ?s) = Some rec"
    using assms(1,4) rec_due_member by (simp add: rec_get_iff recs)
  obtain u where u: "rec_wf (br_records u)"
      "rec_get (re_event_id rec) (br_records u) = rec_get (re_event_id rec) (br_records ?s)"
      "snd (send_record d now p prof rec u) = None"
    and fin: "rec_get (re_event_id rec) (br_records w') = rec_get (re_event_id rec) (br_records (fst (send_record d now p prof rec u)))"
      "set (br_out (fst (send_record d now p prof rec u))) \<subseteq> set (br_out w')"
    by (rule record_loop.run_row [where rs = ?rs and r = rec and s = ?s and d = d and now = now and p = p and prof = prof])
      (use assms(1,4) rec_due_distinct run recs in auto)
  show thesis
  proof (rule send_record_cases [of d prof rec u now p])
    fix x
    assume "send_record d now p prof rec u = (u\<lparr>br_db := snd (bd_oracle d prof (record_row rec) (br_db u))\<rparr>, Some x)"
    with u(3) show thesis by simp
  next
    fix r db
    assume r: "fst (bd_oracle d prof (record_row rec) (br_db u)) = Inr r"
      and step: "send_record d now p prof rec u = settle_record d now p rec r (u\<lparr>br_db := db\<rparr>)"
    have "record_settled d now rec r (fst (send_record d now p prof rec u))"
      using settle_record_settled [of rec "u\<lparr>br_db := db\<rparr>" d now p r] u rec step by simp
    from that [OF r record_settled_mono [OF this fin]] show thesis .
  qed
qed

text \<open>A record of a received row is answered only once the row is settled.\<close>

definition receive_all :: "'o bridge_deps \<Rightarrow> record_event list \<Rightarrow> 'o bridge \<Rightarrow> 'o bridge run" where
  "receive_all d = run_rows (rec_receive d)"

lemma rec_receive_records:
  assumes "rec_receive d rec w = (w', x)"
  shows "br_records w' = br_records w
    \<or> rec_get (re_event_id rec) (br_records w) = None \<and> rec_insert_received rec (br_records w) = Inr (br_records w')
      \<and> br_out w' = br_out w"
  using assms by (auto simp: rec_receive_def split: option.splits sum.splits record_status.splits if_splits)

lemma rec_receive_keeps_row:
  "rec_get k (br_records w) = Some r \<Longrightarrow> rec_get k (br_records (fst (rec_receive d rec w))) = Some r"
  using rec_receive_records [of d rec w "fst (rec_receive d rec w)" "snd (rec_receive d rec w)"]
  by (auto simp: rec_insert_get)

lemma receive_all_keeps_row:
  "rec_get k (br_records w) = Some r \<Longrightarrow> rec_get k (br_records (fst (receive_all d recs w))) = Some r"
  unfolding receive_all_def
  by (rule run_rows_invariant [where I = "\<lambda>w. rec_get k (br_records w) = Some r"]) (simp_all add: rec_receive_keeps_row)

section \<open>With the adapters of the code\<close>

text \<open>Every result of the adapters carries a text, so no record counts as committed.\<close>

definition no_new_commit :: "'o bridge \<Rightarrow> 'o bridge \<Rightarrow> bool" where
  "no_new_commit s w =
     ((\<forall>k r. rec_get k (br_records w) = Some r \<and> re_status r = RSent \<longrightarrow>
         (\<exists>r'. rec_get k (br_records s) = Some r' \<and> re_status r' = RSent))
      \<and> (\<exists>ms. br_out w = br_out s @ ms \<and> (\<forall>m \<in> set ms. \<exists>t i a b. m = MNack t i a b)))"

lemma no_new_commit_refl: "no_new_commit s s"
  by (simp add: no_new_commit_def)

lemma settle_record_no_commit:
  assumes "no_new_commit s w" and "mr_msg r = Some t"
  shows "no_new_commit s (fst (settle_record d now p rec r w))"
proof -
  let ?w = "fst (settle_record d now p rec r w)"
  have rows: "\<exists>q. rec_get k (br_records w) = Some q \<and> re_status q = RSent"
    if "rec_get k (br_records ?w) = Some q'" "re_status q' = RSent" for k q'
    using that assms(2)
    by (auto simp: settle_record_def Let_def rec_mark_failed_get rec_update_retry_get split: if_splits sum.splits)
  have msgs: "\<exists>ms. br_out ?w = br_out w @ ms \<and> (\<forall>m \<in> set ms. \<exists>t i a b. m = MNack t i a b)"
    using assms(2) by (auto simp: settle_record_def Let_def rec_nack_def split: sum.split)
  from assms(1) obtain ms0 where ms0: "br_out w = br_out s @ ms0" "\<forall>m \<in> set ms0. \<exists>t i a b. m = MNack t i a b"
    unfolding no_new_commit_def by blast
  from msgs obtain ms1 where ms1: "br_out ?w = br_out w @ ms1" "\<forall>m \<in> set ms1. \<exists>t i a b. m = MNack t i a b"
    by blast
  have "br_out ?w = br_out s @ (ms0 @ ms1)" and "\<forall>m \<in> set (ms0 @ ms1). \<exists>t i a b. m = MNack t i a b"
    using ms0 ms1 by (simp, simp only: set_append ball_Un)
  moreover have "\<forall>k q. rec_get k (br_records ?w) = Some q \<and> re_status q = RSent \<longrightarrow>
      (\<exists>r'. rec_get k (br_records s) = Some r' \<and> re_status r' = RSent)"
    using rows assms(1) unfolding no_new_commit_def by blast
  ultimately show ?thesis unfolding no_new_commit_def by blast
qed

lemma no_new_commit_db: "no_new_commit s (w\<lparr>br_db := db\<rparr>) = no_new_commit s w"
  by (simp add: no_new_commit_def)

lemma send_record_no_commit:
  assumes "bd_oracle d = execute_merge_for_profile oa" and "no_new_commit s w"
  shows "no_new_commit s (fst (send_record d now p prof rec w))"
proof (rule send_record_cases [of d prof rec w now p])
  fix x
  assume "send_record d now p prof rec w = (w\<lparr>br_db := snd (bd_oracle d prof (record_row rec) (br_db w))\<rparr>, Some x)"
  with assms(2) show ?thesis by (simp add: no_new_commit_db)
next
  fix r db
  assume r: "fst (bd_oracle d prof (record_row rec) (br_db w)) = Inr r"
    and step: "send_record d now p prof rec w = settle_record d now p rec r (w\<lparr>br_db := db\<rparr>)"
  obtain t where "mr_msg r = Some t" using r assms(1) adapter_msg by fastforce
  then show ?thesis unfolding step using assms(2) by (intro settle_record_no_commit) (simp_all add: no_new_commit_db)
qed

section \<open>Properties\<close>

text \<open>C4: a run of the record sender that ends settles every due record once, by what the MERGE of its
  own values answered: committed, with an ACK; given up when the error is one that cannot pass, with
  a NACK that names it; otherwise still received, with the next attempt's time.\<close>

theorem record_sender_settles_due_record:
  assumes "rec_wf (br_records w)" and "record_profile now w = Some (p, prof)"
    and "record_sender_run_once d now w = (w', None)"
    and "rec \<in> set (rec_iter_received_due (isoformat now) (br_records w))"
  shows "\<exists>db r. fst (bd_oracle d prof (record_row rec) db) = Inr r \<and> record_settled d now rec r w'
    \<and> rec_wf (br_records w')"
proof -
  obtain db r where r: "fst (bd_oracle d prof (record_row rec) db) = Inr r" "record_settled d now rec r w'"
    by (rule record_due_settled [OF assms])
  have "rec_wf (br_records (fst (run_rows (send_record d now p prof)
      (rec_iter_received_due (isoformat now) (br_records w)) (record_start p now w))))"
    by (rule record_loop.run_keeps) (use assms(1) in \<open>simp add: record_start_def\<close>)
  moreover have "run_rows (send_record d now p prof)
      (rec_iter_received_due (isoformat now) (br_records w)) (record_start p now w) = (w', None)"
    using record_run_loop [OF assms(2), of d] assms(3) by simp
  ultimately have "rec_wf (br_records w')" by simp
  with r show ?thesis by blast
qed

definition example_record :: record_event where
  "example_record = \<lparr>re_event_id = ''r1'', re_mk_date = ''20260101000000'', re_sta_no1 = ''100'', re_sta_no2 = ''200'',
     re_sta_no3 = ''300'', re_t1_status = 3, re_device_id = Some ''st1'', re_raw_payload = [], re_status = RReceived,
     re_received_at_iso = ''2026'', re_sent_at_iso = None, re_mk_date_committed = None, re_retry_count = 0,
     re_next_retry_at_iso = None, re_last_error = None, re_failed_at_iso = None\<rparr>"

definition example_record_bridge :: "unit bridge" where
  "example_record_bridge = example_bridge\<lparr>br_records := [example_record],
     br_network := \<lparr>nw_preferred = {''fab''}, nw_cached = Some ''fab''\<rparr>\<rparr>"

lemma example_record_profile: "record_profile example_now example_record_bridge = Some (''fab'', example_jdbc_profile)"
  by (simp add: record_profile_def example_record_bridge_def example_bridge_def peek_def known_ssid_def
      dict_keys_def state_for_def fresh_entry_def Let_def resolver_get_def dict_get_def)

lemma example_record_due:
  "rec_iter_received_due (isoformat example_now) (br_records example_record_bridge) = [example_record]"
  by (simp add: rec_iter_received_due_def example_record_bridge_def example_record_def due_at_def order_by_def)

lemma example_record_wf: "rec_wf (br_records example_record_bridge)"
  by (simp add: rec_wf_def example_record_bridge_def example_record_def rec_row_wf_def)

lemma example_record_merge: "bd_oracle (example_deps h) example_jdbc_profile rw s = (jdbc_result h, ())"
  by (simp add: example_deps_def example_adapter_def example_jdbc_profile_def example_oracle_def
      execute_merge_for_profile_def dict_get_def upcmpflg_of_def read_upcmpflg_override_def get_or_def sub_def
      as_table_def execute_merge_via_jdbc_def jdbc_request_def build_jdbc_url_def)

lemma example_record_run:
  "record_sender_run_once (example_deps h) example_now example_record_bridge
    = send_record (example_deps h) example_now ''fab'' example_jdbc_profile example_record
        (record_start ''fab'' example_now example_record_bridge)"
  unfolding record_run_loop [OF example_record_profile] example_record_due
  by (auto split: prod.split option.split)

lemma unique_key_reply: "jdbc_result (HttpBody (merge_reply_text 0 (Some 1) ''dup''))
    = Inr \<lparr>mr_rows = 0, mr_code = Some 1, mr_msg = Some ''dup''\<rparr>"
  by code_simp

theorem record_sender_settles_due_record_witness:
  "record_settled (example_deps (HttpBody (merge_reply_text 0 (Some 1) ''dup''))) example_now example_record
     \<lparr>mr_rows = 0, mr_code = Some 1, mr_msg = Some ''dup''\<rparr>
     (fst (record_sender_run_once (example_deps (HttpBody (merge_reply_text 0 (Some 1) ''dup''))) example_now example_record_bridge))"
proof -
  let ?h = "HttpBody (merge_reply_text 0 (Some 1) ''dup'')"
  have un: "bd_unretryable (example_deps ?h) = [1]" by (simp add: example_deps_def)
  obtain w' where w': "record_sender_run_once (example_deps ?h) example_now example_record_bridge = (w', None)"
    by (simp add: example_record_run send_record_def example_record_merge unique_key_reply settle_record_def un Let_def)
  have "example_record \<in> set (rec_iter_received_due (isoformat example_now) (br_records example_record_bridge))"
    by (simp add: example_record_due)
  from record_sender_settles_due_record [OF example_record_wf example_record_profile w' this]
  show ?thesis using w' by (auto simp: example_record_merge unique_key_reply)
qed

text \<open>C5: with the adapters of the code, whose results always carry a text, no run of the record sender
  commits a record or hands out an ACK, even when the MERGE succeeded: what it publishes are NACKs.\<close>

theorem records_never_committed_through_adapters:
  assumes "bd_oracle d = execute_merge_for_profile oa"
  shows "no_new_commit w (fst (record_sender_run_once d now w))"
proof (cases "record_profile now w")
  case None
  then show ?thesis using record_run_idle [OF None, of d] by (simp add: no_new_commit_def)
next
  case (Some pp)
  obtain p prof where pp: "pp = (p, prof)" by (cases pp)
  have "no_new_commit w (record_start p now w)" by (simp add: no_new_commit_def record_start_def)
  then have "no_new_commit w (fst (run_rows (send_record d now p prof)
      (rec_iter_received_due (isoformat now) (br_records w)) (record_start p now w)))"
    by (intro run_rows_invariant [where I = "no_new_commit w"]) (simp_all add: send_record_no_commit [OF assms])
  then show ?thesis using Some pp by (simp add: record_run_loop)
qed

theorem records_never_committed_through_adapters_witness:
  "no_new_commit example_record_bridge
     (fst (record_sender_run_once (example_deps (HttpBody (merge_reply_text 1 None []))) example_now example_record_bridge))"
  by (rule records_never_committed_through_adapters [of _ "example_adapter (HttpBody (merge_reply_text 1 None []))"])
    (simp add: example_deps_def)

text \<open>Nothing about the record \<open>k\<close> was published since the state \<open>w\<close>.\<close>

definition quiet_about :: "string \<Rightarrow> 'o bridge \<Rightarrow> 'o bridge \<Rightarrow> bool" where
  "quiet_about k w v = (\<exists>ms. br_out v = br_out w @ ms \<and> (\<forall>m \<in> set ms. msg_event_id m \<noteq> k))"

lemma quiet_about_refl: "quiet_about k w w"
  by (simp add: quiet_about_def)

lemma quiet_about_snoc:
  "quiet_about k w v \<Longrightarrow> br_out v' = br_out v \<or> (\<exists>m. br_out v' = br_out v @ [m] \<and> msg_event_id m \<noteq> k) \<Longrightarrow> quiet_about k w v'"
  unfolding quiet_about_def by (elim exE conjE disjE) (simp, force)

text \<open>A delivery is answered only about its own record, and not while that one is open.\<close>

lemma rec_receive_answer:
  "br_out (fst (rec_receive d x v)) = br_out v
   \<or> (\<exists>m e. br_out (fst (rec_receive d x v)) = br_out v @ [m] \<and> msg_event_id m = re_event_id x
        \<and> rec_get (re_event_id x) (br_records v) = Some e \<and> re_status e \<noteq> RReceived)"
proof (cases "rec_get (re_event_id x) (br_records v)")
  case None
  then show ?thesis by (simp add: rec_receive_def split: sum.split)
next
  case (Some e)
  then have "re_event_id e = re_event_id x" by (auto simp: rec_get_def find_Some_iff)
  with Some show ?thesis by (auto simp: rec_receive_def rec_nack_def rec_ack_def split: record_status.split)
qed

definition record_open :: "string \<Rightarrow> 'o bridge \<Rightarrow> bool" where
  "record_open k v = (case rec_get k (br_records v) of None \<Rightarrow> True | Some r \<Rightarrow> re_status r = RReceived)"

lemma rec_receive_quiet:
  assumes "quiet_about k w v" and "record_open k v"
  shows "quiet_about k w (fst (rec_receive d x v))"
  by (rule quiet_about_snoc [OF assms(1)]) (use rec_receive_answer [of d x v] assms(2) in \<open>auto simp: record_open_def\<close>)

lemma receive_all_absent:
  assumes "k \<notin> re_event_id ` set us" and "rec_get k (br_records w) = None"
  shows "rec_get k (br_records (fst (receive_all d us w))) = None \<and> quiet_about k w (fst (receive_all d us w))"
  unfolding receive_all_def
proof (rule run_rows_invariant [where I = "\<lambda>v. rec_get k (br_records v) = None \<and> quiet_about k w v"])
  fix y and v :: "'a bridge"
  assume "y \<in> set us" and I: "rec_get k (br_records v) = None \<and> quiet_about k w v"
  then have "re_event_id y \<noteq> k" using assms(1) by (metis image_eqI)
  then have "rec_get k (br_records (fst (rec_receive d y v))) = None"
    using I rec_receive_records [of d y v "fst (rec_receive d y v)" "snd (rec_receive d y v)"] by (auto simp: rec_insert_get)
  with I rec_receive_quiet [of k w v d y]
  show "rec_get k (br_records (fst (rec_receive d y v))) = None \<and> quiet_about k w (fst (rec_receive d y v))"
    by (simp add: record_open_def)
qed (simp add: assms(2) quiet_about_refl)

lemma receive_all_open:
  assumes "rec_get k (br_records v) = Some r" and "re_status r = RReceived" and "quiet_about k w v"
  shows "rec_get k (br_records (fst (receive_all d us v))) = Some r \<and> quiet_about k w (fst (receive_all d us v))"
  unfolding receive_all_def
proof (rule run_rows_invariant [where I = "\<lambda>z. rec_get k (br_records z) = Some r \<and> quiet_about k w z"])
  fix q and z :: "'a bridge"
  assume I: "rec_get k (br_records z) = Some r \<and> quiet_about k w z"
  then have "record_open k z" using assms(2) by (simp add: record_open_def)
  with I show "rec_get k (br_records (fst (rec_receive d q z))) = Some r \<and> quiet_about k w (fst (rec_receive d q z))"
    using rec_receive_keeps_row rec_receive_quiet by blast
qed (simp add: assms)

text \<open>C6: however often a record is delivered before it is settled, the first delivery is the row that
  is kept, and none of the deliveries is answered.\<close>

theorem first_delivery_is_kept:
  fixes w :: "'o bridge"
  assumes "rec_get (re_event_id rec) (br_records w) = None" and "re_event_id rec \<notin> re_event_id ` set us"
    and "re_status rec = RReceived"
    and "receive_all d (us @ rec # vs) w = (w', None)"
  shows "rec_get (re_event_id rec) (br_records w') = Some (rec\<lparr>re_failed_at_iso := None\<rparr>)
    \<and> (\<exists>ms. br_out w' = br_out w @ ms \<and> (\<forall>m \<in> set ms. msg_event_id m \<noteq> re_event_id rec))"
proof -
  let ?k = "re_event_id rec" and ?r = "rec\<lparr>re_failed_at_iso := None\<rparr>"
  obtain u x where u: "receive_all d us w = (u, x)" by (cases "receive_all d us w")
  have x: "x = None" using assms(4) u by (cases x) (simp_all add: receive_all_def run_rows_append)
  have absent: "rec_get ?k (br_records u) = None" "quiet_about ?k w u"
    using receive_all_absent [OF assms(2,1), of d] u by simp_all
  obtain v y where v: "rec_receive d rec u = (v, y)" by (cases "rec_receive d rec u")
  have y: "y = None" using assms(4) u x v by (cases y) (simp_all add: receive_all_def run_rows_append)
  have "rec_get ?k (br_records v) = Some ?r"
    using v y absent(1) by (auto simp: rec_receive_def rec_insert_get split: sum.splits)
  moreover have "quiet_about ?k w v"
    using rec_receive_quiet [OF absent(2), of d rec] absent(1) v by (simp add: record_open_def)
  ultimately have "rec_get ?k (br_records (fst (receive_all d vs v))) = Some ?r \<and> quiet_about ?k w (fst (receive_all d vs v))"
    using assms(3) by (intro receive_all_open) simp_all
  moreover have "receive_all d vs v = (w', None)"
    using assms(4) u x v y by (simp add: receive_all_def run_rows_append)
  ultimately show ?thesis by (simp add: quiet_about_def)
qed

theorem first_delivery_is_kept_witness:
  "rec_get ''r1'' (br_records (fst (receive_all (example_deps (HttpBody []))
      ([] @ example_record # [example_record\<lparr>re_t1_status := 9\<rparr>]) (example_record_bridge\<lparr>br_records := []\<rparr>)))) = Some example_record"
proof -
  let ?d = "example_deps (HttpBody [])" and ?w = "example_record_bridge\<lparr>br_records := []\<rparr>"
  have id: "re_event_id example_record = ''r1''" by (simp add: example_record_def)
  obtain w' where w': "receive_all ?d ([] @ example_record # [example_record\<lparr>re_t1_status := 9\<rparr>]) ?w = (w', None)"
    by (simp add: receive_all_def rec_receive_def rec_get_def rec_insert_received_def example_record_def
        sqlite_int_ok_def sql_insert_ignore_def)
  have "rec_get (re_event_id example_record) (br_records w') = Some (example_record\<lparr>re_failed_at_iso := None\<rparr>)"
    using first_delivery_is_kept [OF _ _ _ w'] by (simp add: rec_get_def example_record_def)
  then show ?thesis using w' by (simp add: id) (simp add: example_record_def)
qed

end
