(* ===== verification/Py_Json.thy ===== *)
theory Py_Json
  imports Py_Value
begin

text \<open>
  \<open>json.loads\<close> and \<open>json.dumps\<close> on the values of \<open>Py_Value\<close>. \<open>ValueError\<close> stands for
  \<open>JSONDecodeError\<close>; \<open>TypeMismatch\<close> marks documents outside the model (\<open>NaN\<close>, infinities, escapes
  of code points from 256 on). Numbers with a fraction or an exponent are read as the exact
  rational, and the text of a float is a parameter of the writer. Python's limits on the length
  of an integer text and on the nesting depth are not modelled.
\<close>

section \<open>Reading\<close>

definition json_space :: "char \<Rightarrow> bool" where
  "json_space c = (code c = 32 \<or> code c = 9 \<or> code c = 10 \<or> code c = 13)"

definition json_ws :: "string \<Rightarrow> string" where
  "json_ws s = dropWhile json_space s"

definition hex_digit :: "char \<Rightarrow> nat option" where
  "hex_digit c = (let n = code c in
     if 48 \<le> n \<and> n \<le> 57 then Some (n - 48)
     else if 97 \<le> n \<and> n \<le> 102 then Some (n - 87)
     else if 65 \<le> n \<and> n \<le> 70 then Some (n - 55)
     else None)"

definition hex4 :: "char \<Rightarrow> char \<Rightarrow> char \<Rightarrow> char \<Rightarrow> nat option" where
  "hex4 a b c d = (case (hex_digit a, hex_digit b, hex_digit c, hex_digit d) of
     (Some w, Some x, Some y, Some z) \<Rightarrow> Some (4096 * w + 256 * x + 16 * y + z) | _ \<Rightarrow> None)"

definition simple_escape :: "char \<Rightarrow> char option" where
  "simple_escape e = (let n = code e in
     if n = 34 \<or> n = 92 \<or> n = 47 then Some e
     else if n = 98 then Some (char_of (8 :: nat))
     else if n = 102 then Some (char_of (12 :: nat))
     else if n = 110 then Some (char_of (10 :: nat))
     else if n = 114 then Some (char_of (13 :: nat))
     else if n = 116 then Some (char_of (9 :: nat))
     else None)"

definition cons_str :: "char \<Rightarrow> (string \<times> string) py \<Rightarrow> (string \<times> string) py" where
  "cons_str c m = py_bind m (\<lambda>(t, r). Inr (c # t, r))"

lemma cons_str_simps [simp]:
  "cons_str c (Inr (t, r)) = Inr (c # t, r)" "cons_str c (Inl e) = Inl e"
  by (simp_all add: cons_str_def)

text \<open>The rest of a string after its opening quote, up to and without the closing one.\<close>

fun json_str :: "string \<Rightarrow> (string \<times> string) py" where
  "json_str [] = Inl ValueError"
| "json_str (c # cs) =
     (if code c = 34 then Inr ([], cs)
      else if code c = 92 then
        (case cs of [] \<Rightarrow> Inl ValueError
         | e # es \<Rightarrow>
             (case simple_escape e of
                Some x \<Rightarrow> cons_str x (json_str es)
              | None \<Rightarrow>
                  if e = CHR ''u'' then
                    (case es of
                       h1 # h2 # h3 # h4 # r \<Rightarrow>
                         (case hex4 h1 h2 h3 h4 of
                            None \<Rightarrow> Inl ValueError
                          | Some n \<Rightarrow> if n < 256 then cons_str (char_of n) (json_str r) else Inl TypeMismatch)
                     | _ \<Rightarrow> Inl ValueError)
                  else Inl ValueError))
      else if code c < 32 then Inl ValueError
      else cons_str c (json_str cs))"

definition digits_value :: "string \<Rightarrow> nat" where
  "digits_value ds = foldl (\<lambda>a c. 10 * a + (case digit_val c of None \<Rightarrow> 0 | Some d \<Rightarrow> d)) 0 ds"

definition json_int_part :: "string \<Rightarrow> (string \<times> string) option" where
  "json_int_part s = (case s of [] \<Rightarrow> None
     | c # cs \<Rightarrow> if c = CHR ''0'' then Some ([c], cs)
                else if is_digit c then Some (takeWhile is_digit s, dropWhile is_digit s)
                else None)"

text \<open>\<open>(\.\d+)?\<close> and \<open>([eE][-+]?\d+)?\<close>: left out when no digit follows.\<close>

definition json_frac :: "string \<Rightarrow> string option \<times> string" where
  "json_frac s = (case s of [] \<Rightarrow> (None, s)
     | c # cs \<Rightarrow> if c = CHR ''.'' \<and> takeWhile is_digit cs \<noteq> []
                 then (Some (takeWhile is_digit cs), dropWhile is_digit cs) else (None, s))"

definition json_sign :: "string \<Rightarrow> bool \<times> string" where
  "json_sign s = (case s of [] \<Rightarrow> (False, s)
     | c # cs \<Rightarrow> if c = CHR ''-'' then (True, cs) else if c = CHR ''+'' then (False, cs) else (False, s))"

definition json_exp :: "string \<Rightarrow> int option \<times> string" where
  "json_exp s = (case s of [] \<Rightarrow> (None, s)
     | c # cs \<Rightarrow>
         if c = CHR ''e'' \<or> c = CHR ''E'' then
           (let (neg, ds) = json_sign cs
            in if takeWhile is_digit ds = [] then (None, s)
               else (Some ((if neg then -1 else 1) * int (digits_value (takeWhile is_digit ds))),
                     dropWhile is_digit ds))
         else (None, s))"

definition pow10 :: "int \<Rightarrow> rat" where
  "pow10 e = (if 0 \<le> e then 10 ^ nat e else 1 / 10 ^ nat (- e))"

definition json_num :: "string \<Rightarrow> (pyval \<times> string) py" where
  "json_num s =
     (let (neg, s0) = (case s of c # cs \<Rightarrow> if c = CHR ''-'' then (True, cs) else (False, s) | [] \<Rightarrow> (False, s))
      in case json_int_part s0 of None \<Rightarrow> Inl ValueError
         | Some (ds, s1) \<Rightarrow>
             (let (fr, s2) = json_frac s1; (ex, s3) = json_exp s2; sg = (if neg then -1 else 1)
              in if fr = None \<and> ex = None then Inr (PInt (sg * int (digits_value ds)), s1)
                 else
                   (let f = (case fr of None \<Rightarrow> [] | Some t \<Rightarrow> t);
                        m = of_int (sg * int (digits_value (ds @ f)));
                        e = (case ex of None \<Rightarrow> 0 | Some k \<Rightarrow> k) - int (length f)
                    in Inr (PFloat (m * pow10 e), s3))))"

definition json_word :: "string \<Rightarrow> (pyval \<times> string) py option" where
  "json_word s =
     (if starts_with ''null'' s then Some (Inr (PNone, drop 4 s))
      else if starts_with ''true'' s then Some (Inr (PBool True, drop 4 s))
      else if starts_with ''false'' s then Some (Inr (PBool False, drop 5 s))
      else if starts_with ''NaN'' s \<or> starts_with ''Infinity'' s \<or> starts_with ''-Infinity'' s
        then Some (Inl TypeMismatch)
      else None)"

text \<open>
  A value, the items of an array after \<open>[\<close>, the members of an object after \<open>{\<close>. The number
  bounds the calls; \<open>json_loads\<close> passes one more than twice the length of the text, and
  \<open>json_loads_bound\<close> below shows that this is never used up.
\<close>

fun json_val :: "nat \<Rightarrow> string \<Rightarrow> (pyval \<times> string) py"
and json_items :: "nat \<Rightarrow> string \<Rightarrow> (pyval list \<times> string) py"
and json_pairs :: "nat \<Rightarrow> string \<Rightarrow> pyval dict \<Rightarrow> (pyval dict \<times> string) py" where
  "json_val 0 s = Inl RuntimeError"
| "json_val (Suc n) s =
     (case s of [] \<Rightarrow> Inl ValueError
      | c # cs \<Rightarrow>
          if code c = 34 then py_bind (json_str cs) (\<lambda>(t, r). Inr (PStr t, r))
          else if c = CHR ''{'' then
            (case json_ws cs of [] \<Rightarrow> Inl ValueError
             | d # r \<Rightarrow> if d = CHR ''}'' then Inr (PDict [], r)
                        else py_bind (json_pairs n (d # r) []) (\<lambda>(ps, r'). Inr (PDict ps, r')))
          else if c = CHR ''['' then
            (case json_ws cs of [] \<Rightarrow> Inl ValueError
             | d # r \<Rightarrow> if d = CHR '']'' then Inr (PList [], r)
                        else py_bind (json_items n (d # r)) (\<lambda>(xs, r'). Inr (PList xs, r')))
          else (case json_word s of Some w \<Rightarrow> w | None \<Rightarrow> json_num s))"
| "json_items 0 s = Inl RuntimeError"
| "json_items (Suc n) s =
     py_bind (json_val n s) (\<lambda>(x, r).
       case json_ws r of [] \<Rightarrow> Inl ValueError
       | d # r' \<Rightarrow>
           if d = CHR '']'' then Inr ([x], r')
           else if d = CHR '','' then py_bind (json_items n (json_ws r')) (\<lambda>(xs, q). Inr (x # xs, q))
           else Inl ValueError)"
| "json_pairs 0 s acc = Inl RuntimeError"
| "json_pairs (Suc n) s acc =
     (case s of [] \<Rightarrow> Inl ValueError
      | c # cs \<Rightarrow>
          if code c \<noteq> 34 then Inl ValueError
          else py_bind (json_str cs) (\<lambda>(k, r).
            case json_ws r of [] \<Rightarrow> Inl ValueError
            | d # r1 \<Rightarrow>
                if d \<noteq> CHR '':'' then Inl ValueError
                else py_bind (json_val n (json_ws r1)) (\<lambda>(v, r2).
                  case json_ws r2 of [] \<Rightarrow> Inl ValueError
                  | e # r3 \<Rightarrow>
                      if e = CHR ''}'' then Inr (dict_set k v acc, r3)
                      else if e = CHR '','' then json_pairs n (json_ws r3) (dict_set k v acc)
                      else Inl ValueError)))"

definition json_loads :: "string \<Rightarrow> pyval py" where
  "json_loads s =
     py_bind (json_val (Suc (2 * length s)) (json_ws s))
       (\<lambda>(v, r). if json_ws r = [] then Inr v else Inl ValueError)"

section \<open>Writing\<close>

definition hex_char :: "nat \<Rightarrow> char" where
  "hex_char d = (if d < 10 then char_of (48 + d) else char_of (87 + d))"

text \<open>\<open>asc\<close> is \<open>ensure_ascii\<close>.\<close>

definition json_esc :: "bool \<Rightarrow> char \<Rightarrow> string" where
  "json_esc asc c = (let n = code c in
     if n = 34 then [CHR 0x5C, c]
     else if n = 92 then [CHR 0x5C, c]
     else if n = 10 then [CHR 0x5C, CHR ''n'']
     else if n = 13 then [CHR 0x5C, CHR ''r'']
     else if n = 9 then [CHR 0x5C, CHR ''t'']
     else if n = 12 then [CHR 0x5C, CHR ''f'']
     else if n = 8 then [CHR 0x5C, CHR ''b'']
     else if n < 32 \<or> asc \<and> 126 < n
       then [CHR 0x5C, CHR ''u'', CHR ''0'', CHR ''0'', hex_char (n div 16), hex_char (n mod 16)]
     else [c])"

definition json_text :: "bool \<Rightarrow> string \<Rightarrow> string" where
  "json_text asc s = CHR 0x22 # concat (map (json_esc asc) s) @ [CHR 0x22]"

fun json_dumps :: "bool \<Rightarrow> (rat \<Rightarrow> string) \<Rightarrow> pyval \<Rightarrow> string" where
  "json_dumps asc rp PNone = ''null''"
| "json_dumps asc rp (PBool b) = (if b then ''true'' else ''false'')"
| "json_dumps asc rp (PInt i) = int_text i"
| "json_dumps asc rp (PFloat q) = rp q"
| "json_dumps asc rp (PStr s) = json_text asc s"
| "json_dumps asc rp (PList xs) = ''['' @ join_with '', '' (map (json_dumps asc rp) xs) @ '']''"
| "json_dumps asc rp (PDict d) =
     ''{'' @ join_with '', '' (map (\<lambda>(k, v). json_text asc k @ '': '' @ json_dumps asc rp v) d) @ ''}''"

text \<open>What may follow a number without becoming part of it.\<close>

definition num_end :: "string \<Rightarrow> bool" where
  "num_end r = (case r of [] \<Rightarrow> True
     | c # cs \<Rightarrow> \<not> is_digit c \<and> c \<noteq> CHR ''.'' \<and> c \<noteq> CHR ''e'' \<and> c \<noteq> CHR ''E'')"

text \<open>
  What is asked of the text of a float, and holds of \<open>float.__repr__\<close> for the floats it writes with
  a decimal point: it begins like a number and is read back as the same float.
\<close>

definition reads_float :: "(rat \<Rightarrow> string) \<Rightarrow> rat \<Rightarrow> bool" where
  "reads_float rp q =
     ((\<exists>c cs. rp q = c # cs \<and> (is_digit c \<or> c = CHR ''-''))
      \<and> (\<forall>r. num_end r \<longrightarrow> json_word (rp q @ r) = None \<and> json_num (rp q @ r) = Inr (PFloat q, r)))"

text \<open>The values whose text is read back as they are: floats as above, no key twice.\<close>

fun json_plain :: "(rat \<Rightarrow> string) \<Rightarrow> pyval \<Rightarrow> bool" where
  "json_plain rp (PFloat q) = reads_float rp q"
| "json_plain rp (PList xs) = list_all (json_plain rp) xs"
| "json_plain rp (PDict d) = (distinct (map fst d) \<and> list_all (\<lambda>(k, v). json_plain rp v) d)"
| "json_plain rp v = True"

section \<open>Strings and numbers are read back\<close>

lemma hex_digit_char: "d < 16 \<Longrightarrow> hex_digit (hex_char d) = Some d"
  by (auto simp: hex_digit_def hex_char_def Let_def)

lemma hex4_byte: "n < 256 \<Longrightarrow> hex4 CHR ''0'' CHR ''0'' (hex_char (n div 16)) (hex_char (n mod 16)) = Some n"
proof -
  assume "n < 256"
  then have "n div 16 < 16" by simp
  moreover have "hex_digit CHR ''0'' = Some 0" by (simp add: hex_digit_def)
  ultimately show ?thesis by (simp add: hex4_def hex_digit_char)
qed

lemma char_of_code [simp]: "char_of (code c) = c"
  by simp

lemma json_str_esc: "json_str (json_esc asc c @ r) = cons_str c (json_str r)"
proof -
  have n: "code c < 256" by simp
  consider "code c = 34 \<or> code c = 92" | "code c = 10" | "code c = 13" | "code c = 9" | "code c = 12" | "code c = 8"
    | "code c \<noteq> 34" "code c \<noteq> 92" "code c \<noteq> 10" "code c \<noteq> 13" "code c \<noteq> 9" "code c \<noteq> 12" "code c \<noteq> 8"
    by blast
  then show ?thesis
  proof cases
    case 1
    then show ?thesis by (auto simp: json_esc_def simple_escape_def Let_def)
  next
    case 2
    then have "c = char_of (10 :: nat)" by (metis char_of_code)
    then show ?thesis by (simp add: json_esc_def simple_escape_def)
  next
    case 3
    then have "c = char_of (13 :: nat)" by (metis char_of_code)
    then show ?thesis by (simp add: json_esc_def simple_escape_def)
  next
    case 4
    then have "c = char_of (9 :: nat)" by (metis char_of_code)
    then show ?thesis by (simp add: json_esc_def simple_escape_def)
  next
    case 5
    then have "c = char_of (12 :: nat)" by (metis char_of_code)
    then show ?thesis by (simp add: json_esc_def simple_escape_def)
  next
    case 6
    then have "c = char_of (8 :: nat)" by (metis char_of_code)
    then show ?thesis by (simp add: json_esc_def simple_escape_def)
  next
    case 7
    show ?thesis
    proof (cases "code c < 32 \<or> asc \<and> 126 < code c")
      case True
      have u: "simple_escape CHR ''u'' = None" by (simp add: simple_escape_def)
      from True 7 have "json_esc asc c = [CHR 0x5C, CHR ''u'', CHR ''0'', CHR ''0'',
          hex_char (code c div 16), hex_char (code c mod 16)]"
        by (simp add: json_esc_def Let_def)
      then show ?thesis by (simp add: u hex4_byte n)
    next
      case False
      with 7 show ?thesis by (auto simp: json_esc_def)
    qed
  qed
qed

lemma json_str_text: "json_str (concat (map (json_esc asc) s) @ CHR 0x22 # r) = Inr (s, r)"
  by (induction s) (simp_all add: json_str_esc)

lemma int_digits_foldl:
  "\<forall>c \<in> set ds. is_digit c \<Longrightarrow>
     int_digits ds acc = Some (foldl (\<lambda>a c. 10 * a + (case digit_val c of None \<Rightarrow> 0 | Some d \<Rightarrow> d)) acc ds)"
  by (induction ds arbitrary: acc) (auto simp: is_digit_def)

lemma digits_value_nat_text [simp]: "digits_value (nat_text n) = n"
  using int_digits_foldl [OF nat_text_digits, of n 0] int_digits_nat_text [of n]
  by (simp add: digits_value_def)

lemma nat_text_hd_nonzero: "0 < n \<Longrightarrow> hd (nat_text n) \<noteq> CHR ''0''"
proof (induction n rule: nat_text.induct)
  case (1 n)
  show ?case
  proof (cases "n < 10")
    case True
    have "digit_char n \<noteq> CHR ''0''"
    proof
      assume "digit_char n = CHR ''0''"
      then have "code (digit_char n) = code (CHR ''0'')" by simp
      with True 1(2) show False by simp
    qed
    with True show ?thesis by (subst nat_text.simps) simp
  next
    case False
    with 1 have "hd (nat_text (n div 10)) \<noteq> CHR ''0''" by simp
    with False show ?thesis by (subst nat_text.simps) (simp add: hd_append)
  qed
qed

lemma takeWhile_digits:
  assumes "\<forall>c \<in> set ds. is_digit c" and "num_end r"
  shows "takeWhile is_digit (ds @ r) = ds" and "dropWhile is_digit (ds @ r) = r"
  using assms by (auto simp: takeWhile_append2 dropWhile_append2 num_end_def split: list.splits)

lemma json_int_part_nat: "num_end r \<Longrightarrow> json_int_part (nat_text n @ r) = Some (nat_text n, r)"
proof -
  assume r: "num_end r"
  obtain c cs where t: "nat_text n = c # cs" by (cases "nat_text n") simp_all
  show ?thesis
  proof (cases "n = 0")
    case True
    have "code (digit_char 0) = code CHR ''0''" by simp
    then have "digit_char 0 = CHR ''0''" by (metis char_of_code)
    with True have "nat_text n = ''0''" by (simp add: nat_text.simps)
    then show ?thesis by (simp add: json_int_part_def)
  next
    case False
    then have "c \<noteq> CHR ''0''" using nat_text_hd_nonzero [of n] t by simp
    moreover have "is_digit c" using nat_text_digits [of n] t by simp
    moreover have "takeWhile is_digit (nat_text n @ r) = nat_text n" "dropWhile is_digit (nat_text n @ r) = r"
      using takeWhile_digits [OF nat_text_digits r] by simp_all
    ultimately show ?thesis using t by (simp add: json_int_part_def)
  qed
qed

lemma no_frac_exp: "num_end r \<Longrightarrow> json_frac r = (None, r) \<and> json_exp r = (None, r)"
  by (auto simp: num_end_def json_frac_def json_exp_def split: list.splits)

lemma json_num_int: "num_end r \<Longrightarrow> json_num (int_text i @ r) = Inr (PInt i, r)"
proof (cases "i < 0")
  case True
  assume r: "num_end r"
  from True r show ?thesis
    by (simp add: json_num_def int_text_def json_int_part_nat no_frac_exp)
next
  case False
  assume r: "num_end r"
  obtain c cs where t: "nat_text (nat i) = c # cs" by (cases "nat_text (nat i)") simp_all
  from nat_text_hd [OF t] have "c \<noteq> CHR ''-''" by simp
  then have "json_num (nat_text (nat i) @ r) = (case json_int_part (nat_text (nat i) @ r) of None \<Rightarrow> Inl ValueError
         | Some (ds, s1) \<Rightarrow> if json_frac s1 = (None, s1) \<and> json_exp s1 = (None, s1)
             then Inr (PInt (int (digits_value ds)), s1) else json_num (nat_text (nat i) @ r))"
    using t by (simp add: json_num_def split: option.split prod.split)
  with False r show ?thesis
    by (simp add: int_text_def json_int_part_nat no_frac_exp)
qed

section \<open>Values are read back\<close>

lemma json_word_None:
  assumes "c \<notin> set ''ntfNI''" and "c = CHR ''-'' \<Longrightarrow> \<exists>d ds. s = d # ds \<and> d \<noteq> CHR ''I''"
  shows "json_word (c # s) = None"
proof -
  have inf: "\<not> starts_with ''-Infinity'' (c # s)"
  proof (cases "c = CHR ''-''")
    case True
    with assms(2) obtain d ds where "s = d # ds" "d \<noteq> CHR ''I''" by blast
    then show ?thesis by simp
  next
    case False
    then show ?thesis by simp
  qed
  have "CHR ''n'' \<noteq> c" "CHR ''t'' \<noteq> c" "CHR ''f'' \<noteq> c" "CHR ''N'' \<noteq> c" "CHR ''I'' \<noteq> c"
    using assms(1) by force+
  with inf show ?thesis by (simp add: json_word_def)
qed

lemma digit_not_word: "is_digit c \<Longrightarrow> c \<notin> set ''ntfNI'' \<and> c \<noteq> CHR ''-''"
  by (auto simp: is_digit_def digit_val_def)

lemma nat_text_cons: "\<exists>c cs. nat_text n = c # cs \<and> is_digit c"
  using nat_text_digits [of n] by (cases "nat_text n") simp_all

lemma json_word_int: "json_word (int_text i @ r) = None"
proof (cases "i < 0")
  case True
  obtain c cs where "nat_text (nat (- i)) = c # cs" "is_digit c" using nat_text_cons by blast
  with True digit_not_word [of c] show ?thesis by (auto simp: int_text_def intro!: json_word_None)
next
  case False
  obtain c cs where "nat_text (nat i) = c # cs" "is_digit c" using nat_text_cons by blast
  with False digit_not_word [of c] show ?thesis by (auto simp: int_text_def intro!: json_word_None)
qed

lemma int_text_cons: "\<exists>c cs. int_text i = c # cs \<and> (is_digit c \<or> c = CHR ''-'')"
proof (cases "i < 0")
  case True
  then show ?thesis by (simp add: int_text_def)
next
  case False
  obtain c cs where t: "nat_text (nat i) = c # cs" by (cases "nat_text (nat i)") simp_all
  then have "is_digit c" using nat_text_digits [of "nat i"] by simp
  with False t show ?thesis by (simp add: int_text_def)
qed

definition value_start :: "char \<Rightarrow> bool" where
  "value_start c = (\<not> json_space c \<and> c \<noteq> CHR '']'' \<and> c \<noteq> CHR ''}'')"

lemma digit_start:
  assumes "is_digit c \<or> c = CHR ''-''"
  shows "value_start c" and "code c \<noteq> 34" and "c \<noteq> CHR ''{''" and "c \<noteq> CHR ''[''"
  using assms by (auto simp: value_start_def json_space_def is_digit_def digit_val_def Let_def split: if_splits)

lemma json_dumps_start:
  "json_plain rp v \<Longrightarrow> \<exists>c cs. json_dumps asc rp v = c # cs \<and> value_start c"
proof (cases v)
  case (PInt i)
  then show ?thesis using int_text_cons [of i] by (auto intro: digit_start(1))
next
  case (PFloat q)
  assume "json_plain rp v"
  with PFloat show ?thesis by (auto simp: reads_float_def intro: digit_start(1))
qed (auto simp: value_start_def json_space_def json_text_def)

lemma json_ws_start: "value_start c \<Longrightarrow> json_ws (c # s) = c # s"
  by (simp add: json_ws_def value_start_def)

lemma json_ws_dumps: "json_plain rp v \<Longrightarrow> json_ws (json_dumps asc rp v @ r) = json_dumps asc rp v @ r"
  using json_dumps_start [where v = v and asc = asc and rp = rp] by (auto simp: json_ws_start)

lemma json_ws_punct [simp]:
  "json_ws (CHR '','' # s) = CHR '','' # s" "json_ws (CHR '']'' # s) = CHR '']'' # s"
  "json_ws (CHR ''}'' # s) = CHR ''}'' # s" "json_ws (CHR '':'' # s) = CHR '':'' # s"
  "json_ws (CHR '' '' # s) = json_ws s" "json_ws (CHR 0x22 # s) = CHR 0x22 # s" "json_ws [] = []"
  by (simp_all add: json_ws_def json_space_def)

lemma num_end_punct [simp]:
  "num_end (CHR '','' # s)" "num_end (CHR '']'' # s)" "num_end (CHR ''}'' # s)" "num_end []"
  by (simp_all add: num_end_def is_digit_def digit_val_def)

text \<open>What reading back a value means for the number of calls it is given.\<close>

definition reads_back :: "bool \<Rightarrow> (rat \<Rightarrow> string) \<Rightarrow> pyval \<Rightarrow> bool" where
  "reads_back asc rp v = (\<forall>n r. length (json_dumps asc rp v) \<le> n \<longrightarrow> num_end r \<longrightarrow>
     json_val n (json_dumps asc rp v @ r) = Inr (v, r))"

lemma reads_backI:
  assumes "\<And>n r. num_end r \<Longrightarrow> length (json_dumps asc rp v) \<le> Suc n \<Longrightarrow>
      json_val (Suc n) (json_dumps asc rp v @ r) = Inr (v, r)"
    and "json_dumps asc rp v \<noteq> []"
  shows "reads_back asc rp v"
  unfolding reads_back_def
proof (intro allI impI)
  fix n r
  assume n: "length (json_dumps asc rp v) \<le> n" and r: "num_end r"
  from n assms(2) obtain m where "n = Suc m" by (cases n) simp_all
  with assms(1) [OF r] n show "json_val n (json_dumps asc rp v @ r) = Inr (v, r)" by simp
qed

lemma json_items_back:
  assumes "\<And>x. x \<in> set xs \<Longrightarrow> reads_back asc rp x \<and> json_plain rp x" and "xs \<noteq> []"
    and "length (join_with '', '' (map (json_dumps asc rp) xs)) < n"
  shows "json_items n (join_with '', '' (map (json_dumps asc rp) xs) @ CHR '']'' # r) = Inr (xs, r)"
  using assms
proof (induction xs arbitrary: n)
  case Nil
  then show ?case by simp
next
  case (Cons x xs)
  then obtain m where n: "n = Suc m" by (cases n) auto
  have rb: "reads_back asc rp x" using Cons.prems(1) by simp
  show ?case
  proof (cases xs)
    case Nil
    with Cons.prems(3) n have "length (json_dumps asc rp x) \<le> m" by simp
    with rb have "json_val m (json_dumps asc rp x @ CHR '']'' # r) = Inr (x, CHR '']'' # r)"
      unfolding reads_back_def by (metis num_end_punct(2))
    with Nil n show ?thesis by simp
  next
    case (Cons y ys)
    let ?t = "join_with '', '' (map (json_dumps asc rp) xs)"
    have t: "join_with '', '' (map (json_dumps asc rp) (x # xs)) = json_dumps asc rp x @ '', '' @ ?t"
      using Cons by simp
    have len: "length (json_dumps asc rp x) \<le> m" "length ?t < m"
      using Cons.prems(3) n unfolding t by simp_all
    have "json_val m (json_dumps asc rp x @ CHR '','' # CHR '' '' # ?t @ CHR '']'' # r)
        = Inr (x, CHR '','' # CHR '' '' # ?t @ CHR '']'' # r)"
      using rb len(1) unfolding reads_back_def by (metis num_end_punct(1))
    moreover have "json_items m (?t @ CHR '']'' # r) = Inr (xs, r)"
      using Cons.IH Cons.prems(1) len(2) Cons by simp
    moreover have "json_ws (?t @ CHR '']'' # r) = ?t @ CHR '']'' # r"
    proof -
      have "json_plain rp y" using Cons.prems(1) Cons by simp
      then obtain c cs where "json_dumps asc rp y = c # cs" "value_start c"
        using json_dumps_start by blast
      then show ?thesis using Cons by (cases ys) (simp_all add: json_ws_start)
    qed
    ultimately show ?thesis unfolding t n by simp
  qed
qed

definition member_text :: "bool \<Rightarrow> (rat \<Rightarrow> string) \<Rightarrow> string \<times> pyval \<Rightarrow> string" where
  "member_text asc rp = (\<lambda>(k, v). json_text asc k @ '': '' @ json_dumps asc rp v)"

lemma json_pairs_back:
  assumes "\<And>k v. (k, v) \<in> set d \<Longrightarrow> reads_back asc rp v \<and> json_plain rp v" and "d \<noteq> []"
    and "length (join_with '', '' (map (member_text asc rp) d)) < n"
  shows "json_pairs n (join_with '', '' (map (member_text asc rp) d) @ CHR ''}'' # r) acc
    = Inr (fold (\<lambda>(k, v). dict_set k v) d acc, r)"
  using assms
proof (induction d arbitrary: n acc)
  case Nil
  then show ?case by simp
next
  case (Cons p d)
  obtain k v where p: "p = (k, v)" by (cases p)
  obtain m where n: "n = Suc m" using Cons.prems(3) by (cases n) auto
  have rb: "reads_back asc rp v" and plain: "json_plain rp v" using Cons.prems(1) [of k v] p by simp_all
  let ?k = "concat (map (json_esc asc) k)"
  have step: "json_pairs n (member_text asc rp p @ q) acc =
      (case json_ws q' of [] \<Rightarrow> Inl ValueError
       | e # r3 \<Rightarrow> if e = CHR ''}'' then Inr (dict_set k v acc, r3)
                  else if e = CHR '','' then json_pairs m (json_ws r3) (dict_set k v acc)
                  else Inl ValueError)"
    if "json_val m (json_dumps asc rp v @ q) = Inr (v, q')" for q q'
    using that by (simp add: p n member_text_def json_text_def json_str_text json_ws_dumps plain)
  show ?case
  proof (cases d)
    case Nil
    with Cons.prems(3) n p have "length (json_dumps asc rp v) \<le> m" by (simp add: member_text_def)
    with rb have "json_val m (json_dumps asc rp v @ CHR ''}'' # r) = Inr (v, CHR ''}'' # r)"
      unfolding reads_back_def by (metis num_end_punct(3))
    from step [OF this] Nil p show ?thesis by simp
  next
    case d: (Cons y ys)
    let ?t = "join_with '', '' (map (member_text asc rp) d)"
    have t: "join_with '', '' (map (member_text asc rp) (p # d)) = member_text asc rp p @ '', '' @ ?t"
      using d by simp
    have len: "length (json_dumps asc rp v) \<le> m" "length ?t < m"
      using Cons.prems(3) n p unfolding t by (simp_all add: member_text_def)
    have "json_val m (json_dumps asc rp v @ CHR '','' # CHR '' '' # ?t @ CHR ''}'' # r)
        = Inr (v, CHR '','' # CHR '' '' # ?t @ CHR ''}'' # r)"
      using rb len(1) unfolding reads_back_def by (metis num_end_punct(1))
    note step [OF this]
    moreover have "json_pairs m (?t @ CHR ''}'' # r) (dict_set k v acc)
        = Inr (fold (\<lambda>(k, v). dict_set k v) d (dict_set k v acc), r)"
    proof (rule Cons.IH)
      show "reads_back asc rp v' \<and> json_plain rp v'" if "(k', v') \<in> set d" for k' v'
        using Cons.prems(1) [of k' v'] that by simp
      show "d \<noteq> []" using d by simp
      show "length ?t < m" by (rule len(2))
    qed
    moreover have "json_ws (?t @ CHR ''}'' # r) = ?t @ CHR ''}'' # r"
    proof -
      obtain cs where "member_text asc rp y = CHR 0x22 # cs"
        by (cases y) (simp add: member_text_def json_text_def)
      then show ?thesis using d by (cases ys) simp_all
    qed
    ultimately have "json_pairs n ((member_text asc rp p @ '', '' @ ?t) @ CHR ''}'' # r) acc
        = Inr (fold (\<lambda>(k, v). dict_set k v) d (dict_set k v acc), r)"
      by simp
    then show ?thesis unfolding t [symmetric] by (simp add: p)
  qed
qed

lemma dict_set_new: "k \<notin> set (map fst d) \<Longrightarrow> dict_set k v d = d @ [(k, v)]"
  by (induction k v d rule: dict_set.induct) auto

lemma dict_rebuild: "distinct (map fst (acc @ d)) \<Longrightarrow> fold (\<lambda>(k, v). dict_set k v) d acc = acc @ d"
proof (induction d arbitrary: acc)
  case Nil
  then show ?case by simp
next
  case (Cons p d)
  obtain k v where p: "p = (k, v)" by (cases p)
  with Cons.prems have "k \<notin> set (map fst acc)" by auto
  then have "dict_set k v acc = acc @ [(k, v)]" by (rule dict_set_new)
  with Cons p show ?case by simp
qed

lemma all_reads_back: "json_plain rp v \<Longrightarrow> reads_back asc rp v"
proof (induction asc rp v rule: json_dumps.induct)
  case (3 asc rp i)
  obtain c cs where c: "int_text i = c # cs" "is_digit c \<or> c = CHR ''-''"
    using int_text_cons [of i] by blast
  have "json_val (Suc n) (int_text i @ r) = Inr (PInt i, r)" if "num_end r" for n r
    using digit_start [OF c(2)] json_word_int [of i r] json_num_int [OF that, of i] c(1) by simp
  then show ?case using c(1) by (intro reads_backI) simp_all
next
  case (4 asc rp q)
  then obtain c cs where c: "rp q = c # cs" "is_digit c \<or> c = CHR ''-''"
    by (auto simp: reads_float_def)
  have "json_val (Suc n) (rp q @ r) = Inr (PFloat q, r)" if "num_end r" for n r
    using 4 that digit_start [OF c(2)] c(1) by (simp add: reads_float_def)
  then show ?case using c(1) by (intro reads_backI) simp_all
next
  case (5 asc rp s)
  have "json_val (Suc n) (json_text asc s @ r) = Inr (PStr s, r)" for n r
    by (simp add: json_text_def json_str_text)
  then show ?case by (intro reads_backI) (simp_all add: json_text_def)
next
  case (6 asc rp xs)
  let ?t = "join_with '', '' (map (json_dumps asc rp) xs)"
  have all: "reads_back asc rp x \<and> json_plain rp x" if "x \<in> set xs" for x
    using 6 that by (auto simp: list_all_iff)
  have "json_val (Suc n) (CHR ''['' # ?t @ CHR '']'' # r) = Inr (PList xs, r)" if "length ?t < n" for n r
  proof (cases xs)
    case Nil
    then show ?thesis by simp
  next
    case (Cons y ys)
    then have "json_plain rp y" using all by simp
    then obtain c cs where c: "json_dumps asc rp y = c # cs" "value_start c"
      using json_dumps_start by blast
    have items: "json_items n (?t @ CHR '']'' # r) = Inr (xs, r)"
      using all Cons that by (intro json_items_back) auto
    obtain q where q: "?t @ CHR '']'' # r = c # q" using c Cons by (cases ys) simp_all
    show ?thesis
      using items c(2) json_ws_start [OF c(2), of q] unfolding q by (simp add: value_start_def)
  qed
  then show ?case by (intro reads_backI) simp_all
next
  case (7 asc rp d)
  let ?t = "join_with '', '' (map (member_text asc rp) d)"
  have dtext: "json_dumps asc rp (PDict d) = ''{'' @ ?t @ ''}''" by (simp add: member_text_def)
  have all: "reads_back asc rp v \<and> json_plain rp v" if "(k, v) \<in> set d" for k v
    using 7(1) [OF that refl] 7(2) that by (auto simp: list_all_iff)
  have keys: "distinct (map fst d)" using 7(2) by simp
  have "json_val (Suc n) (CHR ''{'' # ?t @ CHR ''}'' # r) = Inr (PDict d, r)" if "length ?t < n" for n r
  proof (cases d)
    case Nil
    then show ?thesis by simp
  next
    case (Cons y ys)
    obtain cs where c: "member_text asc rp y = CHR 0x22 # cs"
      by (cases y) (simp add: member_text_def json_text_def)
    have "json_pairs n (?t @ CHR ''}'' # r) [] = Inr (fold (\<lambda>(k, v). dict_set k v) d [], r)"
      using all Cons that by (intro json_pairs_back) auto
    then have pairs: "json_pairs n (?t @ CHR ''}'' # r) [] = Inr (d, r)"
      using dict_rebuild [of "[]" d] keys by simp
    obtain q where q: "?t @ CHR ''}'' # r = CHR 0x22 # q" using c Cons by (cases ys) simp_all
    show ?thesis using pairs unfolding q by simp
  qed
  then show ?case by (intro reads_backI) (simp_all only: dtext, simp_all)
qed (auto simp: json_word_def intro!: reads_backI split: if_splits)

theorem json_loads_dumps: "json_plain rp v \<Longrightarrow> json_loads (json_dumps asc rp v) = Inr v"
proof -
  assume v: "json_plain rp v"
  let ?n = "Suc (2 * length (json_dumps asc rp v))"
  have "json_val ?n (json_dumps asc rp v @ []) = Inr (v, [])"
    using all_reads_back [OF v, of asc] unfolding reads_back_def
    by (elim allE [of _ ?n] impE) (auto simp del: json_val.simps elim!: allE [of _ "[]"])
  then show ?thesis using json_ws_dumps [OF v, where asc = asc and r = "[]"] by (simp add: json_loads_def)
qed

text \<open>Texts such as \<open>0.5\<close> are read back.\<close>

lemma json_int_part_dot: "json_int_part (nat_text a @ CHR ''.'' # r) = Some (nat_text a, CHR ''.'' # r)"
proof -
  obtain c cs where t: "nat_text a = c # cs" by (cases "nat_text a") simp_all
  have dot: "\<not> is_digit CHR ''.''" by (simp add: is_digit_def digit_val_def)
  show ?thesis
  proof (cases "a = 0")
    case True
    have "code (digit_char 0) = code CHR ''0''" by simp
    then have "digit_char 0 = CHR ''0''" by (metis char_of_code)
    with True have "nat_text a = ''0''" by (simp add: nat_text.simps)
    then show ?thesis by (simp add: json_int_part_def)
  next
    case False
    then have "c \<noteq> CHR ''0''" using nat_text_hd_nonzero [of a] t by simp
    moreover have "is_digit c" using nat_text_digits [of a] t by simp
    moreover have "takeWhile is_digit (nat_text a @ CHR ''.'' # r) = nat_text a"
      "dropWhile is_digit (nat_text a @ CHR ''.'' # r) = CHR ''.'' # r"
      using nat_text_digits [of a] dot by (simp_all add: takeWhile_append2 dropWhile_append2)
    ultimately show ?thesis using t by (simp add: json_int_part_def)
  qed
qed

lemma reads_decimal:
  assumes "rp q = nat_text a @ CHR ''.'' # ds" and "ds \<noteq> []" and "\<forall>c \<in> set ds. is_digit c"
    and "q = of_int (int (digits_value (nat_text a @ ds))) * pow10 (- int (length ds))"
  shows "reads_float rp q"
proof -
  obtain c cs where t: "nat_text a = c # cs" "is_digit c" using nat_text_cons by blast
  have word: "json_word (rp q @ r) = None" for r
    unfolding assms(1) t(1) append_Cons using digit_not_word [OF t(2)] by (intro json_word_None) auto
  have "json_num (rp q @ r) = Inr (PFloat q, r)" if r: "num_end r" for r
  proof -
    have frac: "json_frac (CHR ''.'' # ds @ r) = (Some ds, r)"
      using takeWhile_digits [OF assms(3) r] assms(2) by (simp add: json_frac_def)
    have neg: "c \<noteq> CHR ''-''" using digit_not_word [OF t(2)] by simp
    have "json_num (nat_text a @ CHR ''.'' # ds @ r) = (case json_int_part (nat_text a @ CHR ''.'' # ds @ r) of
        None \<Rightarrow> Inl ValueError
      | Some (is, s1) \<Rightarrow> (case json_frac s1 of (fr, s2) \<Rightarrow> (case json_exp s2 of (ex, s3) \<Rightarrow>
          if fr = None \<and> ex = None then Inr (PInt (int (digits_value is)), s1)
          else (let f = (case fr of None \<Rightarrow> [] | Some t \<Rightarrow> t)
                in Inr (PFloat (of_int (int (digits_value (is @ f)))
                     * pow10 ((case ex of None \<Rightarrow> 0 | Some k \<Rightarrow> k) - int (length f))), s3)))))"
      using neg t(1) by (simp add: json_num_def Let_def split: option.split prod.split)
    also have "\<dots> = Inr (PFloat q, r)"
      using no_frac_exp [OF r] by (simp add: json_int_part_dot frac assms(4))
    finally show ?thesis by (simp add: assms(1))
  qed
  with word show ?thesis using assms(1) t by (simp add: reads_float_def)
qed

section \<open>The bound on the calls is never reached\<close>

lemma json_ws_length: "length (json_ws s) \<le> length s"
  by (simp add: json_ws_def length_dropWhile_le)

lemma json_ws_consD: "json_ws s = c # r \<Longrightarrow> length r < length s"
  using json_ws_length [of s] by simp

text \<open>A reader makes progress when it never runs out of calls and always consumes something.\<close>

definition progress :: "string \<Rightarrow> ('a \<times> string) py \<Rightarrow> bool" where
  "progress s m = (case m of Inl e \<Rightarrow> e \<noteq> RuntimeError | Inr (x, r) \<Rightarrow> length r < length s)"

lemma progress_simps [simp]:
  "progress s (Inl e) \<longleftrightarrow> e \<noteq> RuntimeError"
  "progress s (Inr (x, r)) \<longleftrightarrow> length r < length s"
  by (simp_all add: progress_def)

lemma progress_bind:
  assumes "progress s m" and "\<And>x r. length r < length s \<Longrightarrow> progress s (f x r)"
  shows "progress s (py_bind m (\<lambda>(x, r). f x r))"
  using assms by (cases m) auto

lemma progress_mono: "progress s m \<Longrightarrow> length s \<le> length s' \<Longrightarrow> progress s' m"
  by (auto simp: progress_def split: sum.splits)

lemma progress_cons_str: "progress s m \<Longrightarrow> length s \<le> length s' \<Longrightarrow> progress s' (cons_str c m)"
  by (auto simp: progress_def cons_str_def split: sum.splits)

lemma json_str_progress: "progress (c # s) (json_str s)"
proof (induction "length s" arbitrary: c s rule: less_induct)
  case less
  have IH: "progress (d # t) (json_str t)" if "length t < length s" for d t
    using less that by blast
  show ?case
  proof (cases s)
    case Nil
    then show ?thesis by simp
  next
    case (Cons a cs)
    have cs: "progress (a # cs) (json_str cs)" using IH Cons by simp
    have esc: "progress (c # a # e # es) (json_str (a # e # es))"
      if "cs = e # es" "code a = 92" for e es
    proof -
      have es: "progress (e # es) (json_str es)" using IH Cons that by simp
      have hex: "progress (h # r) (json_str r)" if "es = h # h2 # h3 # h4 # r" for h h2 h3 h4 r
        using IH Cons \<open>cs = e # es\<close> that by simp
      show ?thesis
        using that(2) es hex by (subst json_str.simps)
          (auto simp del: json_str.simps simp: progress_cons_str split: option.split list.split
            intro: progress_cons_str)
    qed
    have other: "progress (c # a # cs) (json_str (a # cs))" if "code a \<noteq> 92"
      using that cs by (subst json_str.simps) (auto simp del: json_str.simps intro: progress_cons_str)
    show ?thesis
    proof (cases "code a = 92")
      case True
      then show ?thesis using esc Cons by (cases cs) simp_all
    next
      case False
      then show ?thesis using other Cons by simp
    qed
  qed
qed

lemma takeWhile_dropWhile_length: "takeWhile P s \<noteq> [] \<Longrightarrow> length (dropWhile P s) < length s"
  by (cases s) (auto simp: less_Suc_eq_le length_dropWhile_le split: if_splits)

lemma json_int_part_length: "json_int_part s = Some (ds, r) \<Longrightarrow> length r < length s"
  by (auto simp: json_int_part_def less_Suc_eq_le length_dropWhile_le split: list.splits if_splits)

lemma json_frac_length: "length (snd (json_frac s)) \<le> length s"
  using length_dropWhile_le [of is_digit] by (auto simp: json_frac_def le_SucI split: list.split)

lemma json_sign_length: "length (snd (json_sign s)) \<le> length s"
  by (simp add: json_sign_def split: list.split)

lemma json_exp_length: "length (snd (json_exp s)) \<le> length s"
proof (cases s)
  case Nil
  then show ?thesis by (simp add: json_exp_def)
next
  case (Cons c cs)
  have "length (dropWhile is_digit (snd (json_sign cs))) \<le> length cs"
    using length_dropWhile_le [of is_digit "snd (json_sign cs)"] json_sign_length [of cs] by linarith
  with Cons show ?thesis by (cases "json_sign cs") (auto simp: json_exp_def)
qed

lemma json_num_progress: "progress s (json_num s)"
proof -
  obtain neg s0 where s0: "(case s of c # cs \<Rightarrow> if c = CHR ''-'' then (True, cs) else (False, s) | [] \<Rightarrow> (False, s)) = (neg, s0)"
    by (rule prod.exhaust)
  then have len: "length s0 \<le> length s" by (auto split: list.splits if_splits)
  show ?thesis
  proof (cases "json_int_part s0")
    case None
    then show ?thesis by (simp add: json_num_def s0)
  next
    case (Some p)
    obtain ds s1 where p: "p = (ds, s1)" by (cases p)
    have "length s1 < length s" using json_int_part_length Some p len by fastforce
    moreover obtain fr s2 where fr: "json_frac s1 = (fr, s2)" by (cases "json_frac s1")
    moreover obtain ex s3 where ex: "json_exp s2 = (ex, s3)" by (cases "json_exp s2")
    moreover have "length s3 \<le> length s1"
      using json_frac_length [of s1] json_exp_length [of s2] fr ex by simp
    ultimately show ?thesis by (simp add: json_num_def s0 Some p Let_def)
  qed
qed

lemma json_word_progress: "json_word s = Some m \<Longrightarrow> progress s m"
proof -
  assume m: "json_word s = Some m"
  have "progress s (Inr (v, drop (length w) s))" if "starts_with w s" "w \<noteq> []" for v :: pyval and w
    using that by (auto simp: starts_with_iff)
  from this [of "''null''"] this [of "''true''"] this [of "''false''"] m show ?thesis
    by (auto simp: json_word_def split: if_splits)
qed

lemma json_val_step:
  assumes "\<And>t. 2 * length t + 1 < n \<Longrightarrow> progress t (json_items n t)"
    and "\<And>t. 2 * length t < n \<Longrightarrow> progress t (json_pairs n t [])"
    and "2 * length s < Suc n"
  shows "progress s (json_val (Suc n) s)"
proof (cases s)
  case Nil
  then show ?thesis by simp
next
  case (Cons c cs)
  have body: "progress s (case json_ws cs of [] \<Rightarrow> Inl ValueError
       | d # r \<Rightarrow> if d = e then Inr (v, r) else py_bind (f (d # r)) (\<lambda>(x, r'). Inr (g x, r')))"
    if f: "\<And>t. length t \<le> length cs \<Longrightarrow> progress t (f t)" for e f g and v :: pyval
  proof (cases "json_ws cs")
    case Nil
    then show ?thesis by simp
  next
    case (Cons d r)
    then have len: "length (d # r) \<le> length cs" using json_ws_length [of cs] by simp
    then have "progress s (f (d # r))" using f \<open>s = c # cs\<close> by (intro progress_mono [OF f]) simp_all
    then have "progress s (py_bind (f (d # r)) (\<lambda>(x, r'). Inr (g x, r')))" by (rule progress_bind) simp
    with Cons len \<open>s = c # cs\<close> show ?thesis by simp
  qed
  have items: "progress t (json_items n t)" and pairs: "progress t (json_pairs n t [])"
    if "length t \<le> length cs" for t
    using assms Cons that by simp_all
  have str: "progress s (py_bind (json_str cs) (\<lambda>(t, r). Inr (PStr t, r)))"
    using json_str_progress [of c cs] Cons by (intro progress_bind) simp_all
  show ?thesis
    using str body [OF items] body [OF pairs] json_word_progress json_num_progress Cons
    by (auto split: option.split)
qed

lemma json_items_step:
  assumes val: "\<And>t. 2 * length t < n \<Longrightarrow> progress t (json_val n t)"
    and items: "\<And>t. 2 * length t + 1 < n \<Longrightarrow> progress t (json_items n t)"
    and len: "2 * length s + 1 < Suc n"
  shows "progress s (json_items (Suc n) s)"
  unfolding json_items.simps
proof (rule progress_bind)
  show "progress s (json_val n s)" using val len by simp
  fix x and r :: string
  assume r: "length r < length s"
  show "progress s (case json_ws r of [] \<Rightarrow> Inl ValueError
       | d # r' \<Rightarrow>
           if d = CHR '']'' then Inr ([x], r')
           else if d = CHR '','' then py_bind (json_items n (json_ws r')) (\<lambda>(xs, q). Inr (x # xs, q))
           else Inl ValueError)"
  proof (cases "json_ws r")
    case Nil
    then show ?thesis by simp
  next
    case (Cons d r')
    then have r': "length r' < length r" by (rule json_ws_consD)
    then have "length (json_ws r') < length r" using json_ws_length [of r'] by simp
    then have "progress s (json_items n (json_ws r'))"
      using r len by (intro progress_mono [OF items]) simp_all
    then have "progress s (py_bind (json_items n (json_ws r')) (\<lambda>(xs, q). Inr (x # xs, q)))"
      by (rule progress_bind) simp
    with Cons r r' show ?thesis by simp
  qed
qed

lemma json_pairs_step:
  assumes val: "\<And>t. 2 * length t < n \<Longrightarrow> progress t (json_val n t)"
    and pairs: "\<And>t a. 2 * length t < n \<Longrightarrow> progress t (json_pairs n t a)"
    and len: "2 * length s < Suc n"
  shows "progress s (json_pairs (Suc n) s acc)"
proof (cases s)
  case Nil
  then show ?thesis by simp
next
  case (Cons c cs)
  have tail: "progress s (case json_ws r2 of [] \<Rightarrow> Inl ValueError
      | e # r3 \<Rightarrow>
          if e = CHR ''}'' then Inr (a, r3)
          else if e = CHR '','' then json_pairs n (json_ws r3) a else Inl ValueError)"
    if r2: "length r2 < length s" for r2 a
  proof (cases "json_ws r2")
    case Nil
    then show ?thesis by simp
  next
    case (Cons e r3)
    then have r3: "length r3 < length r2" by (rule json_ws_consD)
    then have "length (json_ws r3) < length r2" using json_ws_length [of r3] by simp
    then have "progress s (json_pairs n (json_ws r3) a)"
      using r2 len by (intro progress_mono [OF pairs]) simp_all
    with Cons r2 r3 show ?thesis by simp
  qed
  have member: "progress s (case json_ws r of [] \<Rightarrow> Inl ValueError
      | d # r1 \<Rightarrow>
          if d \<noteq> CHR '':'' then Inl ValueError
          else py_bind (json_val n (json_ws r1)) (\<lambda>(v, r2).
            case json_ws r2 of [] \<Rightarrow> Inl ValueError
            | e # r3 \<Rightarrow>
                if e = CHR ''}'' then Inr (dict_set k v acc, r3)
                else if e = CHR '','' then json_pairs n (json_ws r3) (dict_set k v acc)
                else Inl ValueError))"
    if r: "length r < length s" for k r
  proof (cases "json_ws r")
    case Nil
    then show ?thesis by simp
  next
    case (Cons d r1)
    then have r1: "length r1 < length r" by (rule json_ws_consD)
    then have "length (json_ws r1) < length r" using json_ws_length [of r1] by simp
    then have "progress s (json_val n (json_ws r1))"
      using r len by (intro progress_mono [OF val]) simp_all
    note progress_bind [OF this tail]
    with Cons show ?thesis by simp
  qed
  have "progress s (json_str cs)" using json_str_progress [of c cs] Cons by simp
  note progress_bind [OF this member]
  with Cons show ?thesis by simp
qed

lemma json_progress:
  "(\<forall>s. 2 * length s < n \<longrightarrow> progress s (json_val n s))
   \<and> (\<forall>s. 2 * length s + 1 < n \<longrightarrow> progress s (json_items n s))
   \<and> (\<forall>s acc. 2 * length s < n \<longrightarrow> progress s (json_pairs n s acc))"
proof (induction n)
  case 0
  then show ?case by simp
next
  case (Suc n)
  then show ?case by (intro conjI allI impI json_val_step json_items_step json_pairs_step) blast+
qed

lemma json_loads_bound: "json_loads s \<noteq> Inl RuntimeError"
proof -
  have "2 * length (json_ws s) < Suc (2 * length s)" using json_ws_length [of s] by simp
  with json_progress have "progress (json_ws s) (json_val (Suc (2 * length s)) (json_ws s))" by blast
  then show ?thesis
    by (auto simp: json_loads_def py_bind_def progress_def split: sum.splits prod.splits if_splits)
qed

section \<open>Message bodies\<close>

text \<open>
  The bytes of a message: UTF-8 with its text, or not UTF-8, then with the text that decoding with
  replacement characters gives.
\<close>

datatype raw_bytes = Utf8 (replaced_text: string) | NotUtf8 (replaced_text: string)

text \<open>\<open>json.loads(raw.decode("utf-8"))\<close> with both failures turned into \<open>ValueError\<close>.\<close>

definition decode_json :: "raw_bytes \<Rightarrow> pyval py" where
  "decode_json raw = (case raw of Utf8 t \<Rightarrow> json_loads t | NotUtf8 _ \<Rightarrow> Inl ValueError)"

end
