(* ===== verification/Mqtt_Listener.thy ===== *)
theory Mqtt_Listener
  imports Py_Json
begin

text \<open>
  \<open>services/bridge/src/mqtt_listener.py\<close> and \<open>record.py\<close>: reading the messages the detector and the
  child devices publish, the wire form of ACKs and NACKs, and the subscriptions of the client.
\<close>

definition missing_from :: "string list \<Rightarrow> pyval \<Rightarrow> string list py" where
  "missing_from required data = py_filter (\<lambda>k. py_bind (py_contains data k) (\<lambda>b. Inr (\<not> b))) required"

section \<open>Events\<close>

definition REQUIRED_PAYLOAD_KEYS :: "string list" where
  "REQUIRED_PAYLOAD_KEYS = [''event_id'', ''event'', ''monotonic_ns'', ''wall_clock_synced'', ''device_id'',
     ''schema_version'']"

record event_payload =
  ep_event_id :: string
  ep_event_type :: string
  ep_mk_date :: "string option"
  ep_event_time_iso :: "string option"
  ep_monotonic_ns :: int
  ep_wall_clock_synced :: bool
  ep_device_id :: "string option"
  ep_score :: "rat option"
  ep_schema_version :: int

text \<open>The accesses and conversions that can raise come first, in the order of the code.\<close>

definition parse_event_data :: "pyval \<Rightarrow> event_payload py" where
  "parse_event_data data =
     py_bind (missing_from REQUIRED_PAYLOAD_KEYS data) (\<lambda>missing.
     if missing \<noteq> [] then Inl ValueError else
     py_bind (py_subscript data ''event_id'') (\<lambda>eid.
     py_bind (py_subscript data ''event'') (\<lambda>ev.
     py_bind (py_get data ''event_time'') (\<lambda>mk.
     py_bind (py_get data ''event_time_iso'') (\<lambda>iso.
     py_bind (py_bind (py_subscript data ''monotonic_ns'') py_int) (\<lambda>mono_ns.
     py_bind (py_subscript data ''wall_clock_synced'') (\<lambda>synced.
     py_bind (py_subscript data ''device_id'') (\<lambda>dev.
     py_bind (py_get data ''score'') (\<lambda>sc.
     py_bind (py_bind (py_subscript data ''schema_version'') py_int) (\<lambda>ver.
     py_bind (as_str eid) (\<lambda>eid. py_bind (as_str ev) (\<lambda>ev. py_bind (as_str_opt mk) (\<lambda>mk.
     py_bind (as_str_opt iso) (\<lambda>iso. py_bind (as_str_opt dev) (\<lambda>dev. py_bind (as_score sc) (\<lambda>sc.
       Inr \<lparr>ep_event_id = eid, ep_event_type = ev, ep_mk_date = mk, ep_event_time_iso = iso,
            ep_monotonic_ns = mono_ns, ep_wall_clock_synced = py_truthy synced, ep_device_id = dev,
            ep_score = sc, ep_schema_version = ver\<rparr>))))))))))))))))"

definition parse_event_payload :: "raw_bytes \<Rightarrow> event_payload py" where
  "parse_event_payload raw = py_bind (decode_json raw) parse_event_data"

text \<open>
  \<open>_on_message\<close> of \<open>subscribe_event\<close>: what is not a payload is logged and dropped, any other exception
  leaves the callback.
\<close>

definition on_event_message :: "(event_payload \<Rightarrow> raw_bytes \<Rightarrow> 's \<Rightarrow> 's \<times> py_exc option) \<Rightarrow> raw_bytes
    \<Rightarrow> 's \<Rightarrow> 's \<times> py_exc option" where
  "on_event_message handler raw s =
     (case parse_event_payload raw of
        Inl ValueError \<Rightarrow> (s, None)
      | Inl e \<Rightarrow> (s, Some e)
      | Inr p \<Rightarrow> handler p raw s)"

section \<open>Records\<close>

definition REQUIRED_RECORD_KEYS :: "string list" where
  "REQUIRED_RECORD_KEYS = [''event_id'', ''mk_date'', ''sta_no1'', ''sta_no2'', ''sta_no3'', ''t1_status'',
     ''schema_version'']"

text \<open>\<open>^\d{14}$\<close>: the end may stand before a last line feed.\<close>

definition mk_date_ok :: "string \<Rightarrow> bool" where
  "mk_date_ok s =
     (list_all is_digit (take 14 s) \<and> 14 \<le> length s \<and> (drop 14 s = [] \<or> drop 14 s = [CHR 0x0A]))"

record record_payload =
  rp_event_id :: string
  rp_mk_date :: string
  rp_sta_no1 :: string
  rp_sta_no2 :: string
  rp_sta_no3 :: string
  rp_t1_status :: int
  rp_device_id :: "string option"
  rp_schema_version :: int

text \<open>\<open>except (TypeError, ValueError)\<close> around the two conversions.\<close>

definition int_field :: "pyval \<Rightarrow> string \<Rightarrow> int py" where
  "int_field data k =
     (case py_bind (py_subscript data k) py_int of
        Inl TypeError \<Rightarrow> Inl ValueError
      | r \<Rightarrow> r)"

definition parse_record_data :: "(pyval \<Rightarrow> string) \<Rightarrow> pyval \<Rightarrow> record_payload py" where
  "parse_record_data rp data =
     py_bind (missing_from REQUIRED_RECORD_KEYS data) (\<lambda>missing.
     if missing \<noteq> [] then Inl ValueError else
     py_bind (py_subscript data ''mk_date'') (\<lambda>mk.
     if \<not> mk_date_ok (py_str rp mk) then Inl ValueError else
     py_bind (int_field data ''t1_status'') (\<lambda>t1.
     py_bind (int_field data ''schema_version'') (\<lambda>ver.
     py_bind (py_subscript data ''event_id'') (\<lambda>eid.
     py_bind (py_subscript data ''sta_no1'') (\<lambda>s1.
     py_bind (py_subscript data ''sta_no2'') (\<lambda>s2.
     py_bind (py_subscript data ''sta_no3'') (\<lambda>s3.
     py_bind (py_get data ''device_id'') (\<lambda>dev.
       Inr \<lparr>rp_event_id = py_str rp eid, rp_mk_date = py_str rp mk, rp_sta_no1 = py_str rp s1,
            rp_sta_no2 = py_str rp s2, rp_sta_no3 = py_str rp s3, rp_t1_status = t1,
            rp_device_id = (if dev = PNone then None else Some (py_str rp dev)),
            rp_schema_version = ver\<rparr>)))))))))"

definition parse_record_payload :: "(pyval \<Rightarrow> string) \<Rightarrow> raw_bytes \<Rightarrow> record_payload py" where
  "parse_record_payload rp raw = py_bind (decode_json raw) (parse_record_data rp)"

section \<open>Answers\<close>

definition str_or_null :: "string option \<Rightarrow> pyval" where
  "str_or_null s = (case s of None \<Rightarrow> PNone | Some t \<Rightarrow> PStr t)"

definition ack_body :: "string \<Rightarrow> string option \<Rightarrow> string option \<Rightarrow> pyval" where
  "ack_body event_id mk_date_committed committed_at_iso =
     PDict [(''event_id'', PStr event_id), (''mk_date_committed'', str_or_null mk_date_committed),
       (''committed_at_iso'', str_or_null committed_at_iso), (''schema_version'', PInt 1)]"

definition nack_body :: "string \<Rightarrow> string \<Rightarrow> string \<Rightarrow> pyval" where
  "nack_body event_id reason failed_at_iso =
     PDict [(''event_id'', PStr event_id), (''reason'', PStr reason), (''failed_at_iso'', PStr failed_at_iso),
       (''schema_version'', PInt 1)]"

section \<open>The client\<close>

text \<open>
  \<open>mc_session\<close> are the subscriptions the broker has for the present connection: the client library
  does not renew them after a reconnect.
\<close>

record bridge_mqtt =
  mc_connected :: bool
  mc_subscriptions :: "(string \<times> int) list"
  mc_session :: "(string \<times> int) list"
  mc_published :: "(string \<times> string \<times> int) list"

definition new_bridge_mqtt :: bridge_mqtt where
  "new_bridge_mqtt = \<lparr>mc_connected = False, mc_subscriptions = [], mc_session = [], mc_published = []\<rparr>"

definition mqtt_connect :: "bridge_mqtt \<Rightarrow> bridge_mqtt" where
  "mqtt_connect c = c\<lparr>mc_connected := True\<rparr>"

definition mqtt_on_connect :: "int \<Rightarrow> bridge_mqtt \<Rightarrow> bridge_mqtt" where
  "mqtt_on_connect rc c =
     (if rc \<noteq> 0 then c else c\<lparr>mc_session := mc_session c @ mc_subscriptions c\<rparr>)"

definition register_subscription :: "string \<Rightarrow> int \<Rightarrow> bridge_mqtt \<Rightarrow> bridge_mqtt" where
  "register_subscription topic_filter qos c =
     (let c' = c\<lparr>mc_subscriptions := mc_subscriptions c @ [(topic_filter, qos)]\<rparr>
      in if mc_connected c' then c'\<lparr>mc_session := mc_session c' @ [(topic_filter, qos)]\<rparr> else c')"

definition subscribe_event :: "string \<Rightarrow> bridge_mqtt \<Rightarrow> bridge_mqtt py" where
  "subscribe_event topic c = (if \<not> mc_connected c then Inl RuntimeError else Inr (register_subscription topic 2 c))"

definition subscribe_text :: "string \<Rightarrow> bridge_mqtt \<Rightarrow> bridge_mqtt py" where
  "subscribe_text topic c = (if \<not> mc_connected c then Inl RuntimeError else Inr (register_subscription topic 1 c))"

definition publish_body :: "string \<Rightarrow> pyval \<Rightarrow> bridge_mqtt \<Rightarrow> bridge_mqtt py" where
  "publish_body topic body c =
     (if \<not> mc_connected c then Inl RuntimeError
      else Inr (c\<lparr>mc_published := mc_published c @ [(topic, json_dumps True (\<lambda>_. []) body, 2)]\<rparr>))"

definition publish_ack :: "string \<Rightarrow> string \<Rightarrow> string option \<Rightarrow> string option \<Rightarrow> bridge_mqtt \<Rightarrow> bridge_mqtt py" where
  "publish_ack topic event_id mk_date_committed committed_at_iso c =
     publish_body topic (ack_body event_id mk_date_committed committed_at_iso) c"

definition publish_nack :: "string \<Rightarrow> string \<Rightarrow> string \<Rightarrow> string \<Rightarrow> bridge_mqtt \<Rightarrow> bridge_mqtt py" where
  "publish_nack topic event_id reason failed_at_iso c =
     publish_body topic (nack_body event_id reason failed_at_iso) c"

definition mqtt_disconnect :: "bridge_mqtt \<Rightarrow> bridge_mqtt" where
  "mqtt_disconnect c = (if mc_connected c then c\<lparr>mc_connected := False, mc_session := []\<rparr> else c)"

section \<open>Facts\<close>

text \<open>What happens to a client: its own calls, a lost connection, the broker's answer to a connect.\<close>

datatype mqtt_op = OpConnect | OpAnswer int | OpLost | OpEvent string | OpText string | OpDisconnect

fun mqtt_step :: "mqtt_op \<Rightarrow> bridge_mqtt \<Rightarrow> bridge_mqtt" where
  "mqtt_step OpConnect c = mqtt_connect c"
| "mqtt_step (OpAnswer rc) c = mqtt_on_connect rc c"
| "mqtt_step OpLost c = c\<lparr>mc_session := []\<rparr>"
| "mqtt_step (OpEvent t) c = (case subscribe_event t c of Inl _ \<Rightarrow> c | Inr c' \<Rightarrow> c')"
| "mqtt_step (OpText t) c = (case subscribe_text t c of Inl _ \<Rightarrow> c | Inr c' \<Rightarrow> c')"
| "mqtt_step OpDisconnect c = mqtt_disconnect c"

lemma mqtt_session_subset: "set (mc_session c) \<subseteq> set (mc_subscriptions c) \<Longrightarrow>
    set (mc_session (mqtt_step op c)) \<subseteq> set (mc_subscriptions (mqtt_step op c))"
  by (cases op; cases "mc_connected c") (auto simp: mqtt_connect_def mqtt_on_connect_def subscribe_event_def subscribe_text_def
      register_subscription_def mqtt_disconnect_def Let_def)

lemma mqtt_subs_grow: "\<exists>new. mc_subscriptions (mqtt_step op c) = mc_subscriptions c @ new"
  by (cases op) (auto simp: mqtt_connect_def mqtt_on_connect_def subscribe_event_def subscribe_text_def
      register_subscription_def mqtt_disconnect_def Let_def)

definition mqtt_run :: "mqtt_op list \<Rightarrow> bridge_mqtt \<Rightarrow> bridge_mqtt" where
  "mqtt_run ops c = fold mqtt_step ops c"

lemma mqtt_run_subset: "set (mc_session c) \<subseteq> set (mc_subscriptions c) \<Longrightarrow>
    set (mc_session (mqtt_run ops c)) \<subseteq> set (mc_subscriptions (mqtt_run ops c))"
  unfolding mqtt_run_def by (induction ops arbitrary: c) (simp_all add: mqtt_session_subset)

lemma mqtt_run_snoc: "mqtt_run (ops @ [op]) c = mqtt_step op (mqtt_run ops c)"
  by (simp add: mqtt_run_def)

lemma subscribed_kept:
  "p \<in> set (mc_subscriptions c) \<Longrightarrow> p \<in> set (mc_subscriptions (mqtt_run ops c))"
  unfolding mqtt_run_def
proof (induction ops arbitrary: c)
  case Nil
  then show ?case by simp
next
  case (Cons op ops)
  obtain new where "mc_subscriptions (mqtt_step op c) = mc_subscriptions c @ new" using mqtt_subs_grow by blast
  with Cons show ?case by simp
qed

section \<open>Which errors reading can give\<close>

lemma missing_from_dict: "missing_from required (PDict d) = Inr (filter (\<lambda>k. k \<notin> set (dict_keys d)) required)"
  unfolding missing_from_def by (rule py_filter_total) simp

lemma none_missing: "missing_from required (PDict d) = Inr [] \<Longrightarrow> k \<in> set required \<Longrightarrow> \<exists>v. dict_get d k = Some v"
  using dict_get_None_iff [of d k] by (cases "dict_get d k") (auto simp: missing_from_dict filter_empty_conv)

lemma py_int_error: "py_int v = Inl e \<Longrightarrow> e = TypeError \<or> e = ValueError"
  by (auto simp: py_int_def split: pyval.splits option.splits)

lemma int_field_dict:
  assumes "dict_get d k = Some v"
  shows "int_field (PDict d) k = (case py_int v of Inl _ \<Rightarrow> Inl ValueError | Inr i \<Rightarrow> Inr i)"
  using assms py_int_error [of v] by (cases "py_int v") (auto simp: int_field_def)

lemma parse_record_dict:
  assumes "missing_from REQUIRED_RECORD_KEYS (PDict d) = Inr []"
  obtains mk t1 ver eid s1 s2 s3 where "dict_get d ''mk_date'' = Some mk" "dict_get d ''t1_status'' = Some t1"
    "dict_get d ''schema_version'' = Some ver" "dict_get d ''event_id'' = Some eid" "dict_get d ''sta_no1'' = Some s1"
    "dict_get d ''sta_no2'' = Some s2" "dict_get d ''sta_no3'' = Some s3"
proof -
  have k: "\<exists>v. dict_get d k = Some v" if "k \<in> set REQUIRED_RECORD_KEYS" for k
    using none_missing [OF assms that] .
  from k [of "''mk_date''"] k [of "''t1_status''"] k [of "''schema_version''"] k [of "''event_id''"]
    k [of "''sta_no1''"] k [of "''sta_no2''"] k [of "''sta_no3''"] that
  show thesis by (auto simp: REQUIRED_RECORD_KEYS_def)
qed

lemma parse_record_data_eq:
  assumes "dict_get d ''mk_date'' = Some mk" "dict_get d ''t1_status'' = Some t1" "dict_get d ''schema_version'' = Some ver"
    "dict_get d ''event_id'' = Some eid" "dict_get d ''sta_no1'' = Some s1" "dict_get d ''sta_no2'' = Some s2"
    "dict_get d ''sta_no3'' = Some s3" and "missing_from REQUIRED_RECORD_KEYS (PDict d) = Inr []"
  shows "parse_record_data rp (PDict d) =
    (if \<not> mk_date_ok (py_str rp mk) then Inl ValueError
     else (case (py_int t1, py_int ver) of
        (Inr a, Inr b) \<Rightarrow> Inr \<lparr>rp_event_id = py_str rp eid, rp_mk_date = py_str rp mk, rp_sta_no1 = py_str rp s1,
            rp_sta_no2 = py_str rp s2, rp_sta_no3 = py_str rp s3, rp_t1_status = a,
            rp_device_id = (case dict_get d ''device_id'' of None \<Rightarrow> None
               | Some v \<Rightarrow> if v = PNone then None else Some (py_str rp v)),
            rp_schema_version = b\<rparr>
      | _ \<Rightarrow> Inl ValueError))"
  unfolding parse_record_data_def assms(8) py_bind_simps
  using assms(1-7) by (simp add: int_field_dict split: sum.split option.split)

lemma parse_record_object_error:
  assumes "parse_record_data rp (PDict d) = Inl e"
  shows "e = ValueError"
proof (cases "missing_from REQUIRED_RECORD_KEYS (PDict d) = Inr []")
  case False
  then show ?thesis using assms by (simp add: parse_record_data_def missing_from_dict)
next
  case True
  obtain mk t1 ver eid s1 s2 s3 where f: "dict_get d ''mk_date'' = Some mk" "dict_get d ''t1_status'' = Some t1"
    "dict_get d ''schema_version'' = Some ver" "dict_get d ''event_id'' = Some eid" "dict_get d ''sta_no1'' = Some s1"
    "dict_get d ''sta_no2'' = Some s2" "dict_get d ''sta_no3'' = Some s3"
    using parse_record_dict [OF True] by blast
  show ?thesis
    using assms unfolding parse_record_data_eq [OF f True] by (auto split: if_splits sum.splits)
qed

section \<open>Properties\<close>

text \<open>A message on the record topic that is a JSON object, or no JSON at all, is either a record or
  a \<open>ValueError\<close>, which the caller logs; a record has all its fields, and a time of 14 digits, after
  which a line feed may follow.\<close>

theorem record_object_parsed_or_rejected:
  assumes "decode_json raw = Inr (PDict d) \<or> decode_json raw = Inl ValueError"
  shows "case parse_record_payload rp raw of
      Inl e \<Rightarrow> e = ValueError
    | Inr p \<Rightarrow> (\<exists>mk t1 eid. dict_get d ''mk_date'' = Some mk \<and> rp_mk_date p = py_str rp mk
        \<and> dict_get d ''t1_status'' = Some t1 \<and> py_int t1 = Inr (rp_t1_status p)
        \<and> dict_get d ''event_id'' = Some eid \<and> rp_event_id p = py_str rp eid)
        \<and> (\<forall>c \<in> set (take 14 (rp_mk_date p)). is_digit c) \<and> 14 \<le> length (rp_mk_date p)
        \<and> set (drop 14 (rp_mk_date p)) \<subseteq> {CHR 0x0A}"
proof (cases "decode_json raw")
  case (Inl e)
  with assms show ?thesis by (simp add: parse_record_payload_def)
next
  case (Inr v)
  with assms have v: "parse_record_payload rp raw = parse_record_data rp (PDict d)" by (simp add: parse_record_payload_def)
  show ?thesis
  proof (cases "parse_record_data rp (PDict d)")
    case (Inl e)
    with parse_record_object_error v show ?thesis by simp
  next
    case ok: (Inr p)
    have "missing_from REQUIRED_RECORD_KEYS (PDict d) = Inr []"
      using ok by (auto simp: parse_record_data_def missing_from_dict split: if_splits)
    then have m: "missing_from REQUIRED_RECORD_KEYS (PDict d) = Inr []" .
    obtain mk t1 ver eid s1 s2 s3 where f: "dict_get d ''mk_date'' = Some mk" "dict_get d ''t1_status'' = Some t1"
      "dict_get d ''schema_version'' = Some ver" "dict_get d ''event_id'' = Some eid" "dict_get d ''sta_no1'' = Some s1"
      "dict_get d ''sta_no2'' = Some s2" "dict_get d ''sta_no3'' = Some s3"
      using parse_record_dict [OF m] by blast
    show ?thesis
      unfolding v ok sum.case
      using ok f unfolding parse_record_data_eq [OF f m]
      by (auto simp: mk_date_ok_def list_all_iff split: if_splits sum.splits)
  qed
qed

text \<open>The JSON text of a record.\<close>

definition example_record_json :: "pyval \<Rightarrow> pyval" where
  "example_record_json mk = PDict [(''event_id'', PStr ''r1''), (''mk_date'', mk), (''sta_no1'', PStr ''100''),
     (''sta_no2'', PStr ''200''), (''sta_no3'', PStr ''300''), (''t1_status'', PInt 3), (''schema_version'', PInt 1)]"

theorem record_object_parsed_or_rejected_witness:
  "parse_record_payload (\<lambda>_. []) (Utf8 (json_dumps True (\<lambda>_. []) (example_record_json (PStr ''yesterday''))))
     = Inl ValueError"
proof -
  have "json_plain (\<lambda>_. []) (example_record_json (PStr ''yesterday''))" by (simp add: example_record_json_def)
  then have dec: "decode_json (Utf8 (json_dumps True (\<lambda>_. []) (example_record_json (PStr ''yesterday''))))
      = Inr (example_record_json (PStr ''yesterday''))"
    by (simp add: decode_json_def json_loads_dumps)
  show ?thesis
    using record_object_parsed_or_rejected [OF disjI1 [OF dec [unfolded example_record_json_def]], of "\<lambda>_. []"]
    by (auto simp: example_record_json_def dict_get_def py_str_def split: sum.splits)
qed

text \<open>Some messages leave the callback with an exception that is not the \<open>ValueError\<close> it catches: a
  record that is a JSON number, and an event whose monotonic time is null.\<close>

theorem some_payloads_escape:
  "parse_record_payload rp (Utf8 ''5'') = Inl TypeError
   \<and> on_event_message h (Utf8 (json_dumps False fr (PDict [(''event_id'', PStr i), (''event'', PStr ''ENTER''),
        (''monotonic_ns'', PNone), (''wall_clock_synced'', PBool b), (''device_id'', PStr dev), (''schema_version'', PInt 1)]))) s
      = (s, Some TypeError)"
proof
  have "json_loads ''5'' = Inr (PInt 5)" by code_simp
  then show "parse_record_payload rp (Utf8 ''5'') = Inl TypeError"
    by (simp add: parse_record_payload_def decode_json_def parse_record_data_def missing_from_def
        REQUIRED_RECORD_KEYS_def py_contains_def)
next
  let ?d = "[(''event_id'', PStr i), (''event'', PStr ''ENTER''), (''monotonic_ns'', PNone), (''wall_clock_synced'', PBool b),
      (''device_id'', PStr dev), (''schema_version'', PInt 1)]"
  have "json_loads (json_dumps False fr (PDict ?d)) = Inr (PDict ?d)" by (rule json_loads_dumps) simp
  moreover have "parse_event_data (PDict ?d) = Inl TypeError"
    by (simp add: parse_event_data_def missing_from_dict REQUIRED_PAYLOAD_KEYS_def dict_keys_def dict_get_def py_int_def)
  ultimately have "parse_event_payload (Utf8 (json_dumps False fr (PDict ?d))) = Inl TypeError"
    by (simp only: parse_event_payload_def decode_json_def raw_bytes.case py_bind_simps)
  then show "on_event_message h (Utf8 (json_dumps False fr (PDict ?d))) s = (s, Some TypeError)"
    by (simp only: on_event_message_def sum.case py_exc.case)
qed

text \<open>After any history of lost connections and reconnects, once the broker has accepted a
  connection the session has every topic that was ever subscribed, and never one that was not.\<close>

theorem reconnect_restores_subscriptions:
  fixes topic :: string and later :: "mqtt_op list"
  assumes "mc_connected (mqtt_run before new_bridge_mqtt)"
  defines "c \<equiv> mqtt_run (before @ OpEvent topic # later @ [OpAnswer 0]) new_bridge_mqtt"
  shows "(topic, 2) \<in> set (mc_session c) \<and> set (mc_session c) = set (mc_subscriptions c)"
proof -
  let ?u = "mqtt_run (before @ OpEvent topic # later) new_bridge_mqtt"
  have c: "c = mqtt_on_connect 0 ?u" unfolding c_def using mqtt_run_snoc [of "before @ OpEvent topic # later" "OpAnswer 0"] by simp
  have sub: "set (mc_session ?u) \<subseteq> set (mc_subscriptions ?u)"
    by (rule mqtt_run_subset) (simp add: new_bridge_mqtt_def)
  have "(topic, 2) \<in> set (mc_subscriptions (mqtt_step (OpEvent topic) (mqtt_run before new_bridge_mqtt)))"
    using assms(1) by (simp add: subscribe_event_def register_subscription_def Let_def)
  then have "(topic, 2) \<in> set (mc_subscriptions ?u)"
    using subscribed_kept [of "(topic, 2)" "mqtt_step (OpEvent topic) (mqtt_run before new_bridge_mqtt)" later]
    by (simp add: mqtt_run_def)
  with sub show ?thesis by (auto simp: c mqtt_on_connect_def)
qed

theorem reconnect_restores_subscriptions_witness:
  "(''presence/event'', 2) \<in> set (mc_session (mqtt_run ([OpConnect] @ OpEvent ''presence/event'' # [OpLost] @ [OpAnswer 0]) new_bridge_mqtt))"
  by (rule conjunct1 [OF reconnect_restores_subscriptions]) (simp add: mqtt_run_def mqtt_connect_def)

end
