(* ===== verification/Mqtt_File_Log.thy ===== *)
theory Mqtt_File_Log
  imports Py_Json
begin

text \<open>
  \<open>services/bridge/src/mqtt_file_log.py\<close>: the children's MQTT messages on disk, one JSON line each,
  and the removal of the records Oracle has confirmed. Opening, reading and replacing the file are
  inputs; the size-based rotation of the logging library is not modelled.
\<close>

definition DEFAULT_MQTT_LOG_PATH :: string where
  "DEFAULT_MQTT_LOG_PATH = ''/var/log/presence-logger/child-mqtt.log''"

definition resolve_mqtt_log_path :: "(pyval \<Rightarrow> string) \<Rightarrow> pyval dict \<Rightarrow> string" where
  "resolve_mqtt_log_path rp liv_cfg =
     (case dict_get liv_cfg ''mqtt_log_path'' of
        None \<Rightarrow> DEFAULT_MQTT_LOG_PATH
      | Some v \<Rightarrow> if py_truthy v then py_str rp v else [])"

section \<open>Dropping confirmed records\<close>

datatype line_outcome = LineBlank | LineKept | LineDropped

text \<open>One turn of the loop of \<open>filter_out_confirmed_records\<close>.\<close>

definition line_fate :: "(pyval \<Rightarrow> string) \<Rightarrow> string set \<Rightarrow> string \<Rightarrow> line_outcome py" where
  "line_fate rp ids line =
     (let t = strip line
      in if t = [] then Inr LineBlank
         else (case json_loads t of
            Inl ValueError \<Rightarrow> Inr LineKept
          | Inl e \<Rightarrow> Inl e
          | Inr row \<Rightarrow>
              (case row of
                 PDict d \<Rightarrow>
                   if dict_get d ''kind'' \<noteq> Some (PStr ''record'') then Inr LineKept
                   else
                     (let event_id = (case dict_get d ''payload'' of
                          Some (PDict p) \<Rightarrow> (case dict_get p ''event_id'' of None \<Rightarrow> PNone | Some v \<Rightarrow> v)
                        | _ \<Rightarrow> PNone)
                      in Inr (if py_truthy event_id \<and> py_str rp event_id \<in> ids then LineDropped else LineKept))
               | _ \<Rightarrow> Inr LineKept)))"

fun filter_loop :: "(pyval \<Rightarrow> string) \<Rightarrow> string set \<Rightarrow> string list \<Rightarrow> (string list \<times> nat) py" where
  "filter_loop rp ids [] = Inr ([], 0)"
| "filter_loop rp ids (line # ls) =
     py_bind (line_fate rp ids line) (\<lambda>f.
       py_bind (filter_loop rp ids ls) (\<lambda>(kept, dropped).
         Inr (case f of LineBlank \<Rightarrow> (kept, dropped) | LineKept \<Rightarrow> (line # kept, dropped)
              | LineDropped \<Rightarrow> (kept, dropped + 1))))"

definition filter_out_confirmed_records :: "(pyval \<Rightarrow> string) \<Rightarrow> string list \<Rightarrow> string set
    \<Rightarrow> (string list \<times> nat) py" where
  "filter_out_confirmed_records rp ls ids = (if ids = {} then Inr (ls, 0) else filter_loop rp ids ls)"

section \<open>The log\<close>

record mqtt_file_log =
  mfl_enabled :: bool
  mfl_error :: "string option"
  mfl_file :: string

text \<open>\<open>opened\<close>: the outcome of making the directory and opening the file, \<open>Some\<close> the message of an error.\<close>

definition open_file_log :: "string \<Rightarrow> string option \<Rightarrow> string \<Rightarrow> mqtt_file_log" where
  "open_file_log path opened content =
     (if path = [] then \<lparr>mfl_enabled = False, mfl_error = None, mfl_file = content\<rparr>
      else if \<not> starts_with ''/'' path
        then \<lparr>mfl_enabled = False, mfl_error = Some ''mqtt_log_path must be an absolute path'', mfl_file = content\<rparr>
      else case opened of
          Some e \<Rightarrow> \<lparr>mfl_enabled = False, mfl_error = Some e, mfl_file = content\<rparr>
        | None \<Rightarrow> \<lparr>mfl_enabled = True, mfl_error = None, mfl_file = content\<rparr>)"

definition log_body :: "string \<Rightarrow> pyval py" where
  "log_body payload =
     (let t = strip payload
      in if t = [] then Inr (PStr [])
         else (case json_loads t of Inl ValueError \<Rightarrow> Inr (PStr t) | r \<Rightarrow> r))"

definition log_row :: "string \<Rightarrow> string \<Rightarrow> string \<Rightarrow> pyval \<Rightarrow> pyval" where
  "log_row ts kind dev body =
     PDict [(''ts'', PStr ts), (''kind'', PStr kind), (''device_id'', PStr dev), (''payload'', body)]"

definition log_write :: "(rat \<Rightarrow> string) \<Rightarrow> string \<Rightarrow> string \<Rightarrow> string \<Rightarrow> string \<Rightarrow> mqtt_file_log
    \<Rightarrow> mqtt_file_log py" where
  "log_write rp ts kind dev payload m =
     (if \<not> mfl_enabled m then Inr m
      else py_bind (log_body payload) (\<lambda>body.
        Inr (m\<lparr>mfl_file := mfl_file m @ json_dumps False rp (log_row ts kind dev body) @ [CHR 0x0A]\<rparr>)))"

text \<open>\<open>readable\<close> and \<open>replaced\<close>: whether reading the file and replacing it by the new text succeed.\<close>

definition drop_records :: "(pyval \<Rightarrow> string) \<Rightarrow> string set \<Rightarrow> bool \<Rightarrow> bool \<Rightarrow> mqtt_file_log
    \<Rightarrow> (nat \<times> mqtt_file_log) py" where
  "drop_records rp ids readable replaced m =
     (if \<not> mfl_enabled m \<or> ids = {} then Inr (0, m)
      else if \<not> readable then Inr (0, m)
      else py_bind (filter_out_confirmed_records rp (splitlines (mfl_file m)) ids) (\<lambda>(kept, dropped).
        if dropped = 0 then Inr (0, m)
        else if \<not> replaced then Inr (0, m)
        else Inr (dropped, m\<lparr>mfl_file := join_with [CHR 0x0A] kept @ (if kept = [] then [] else [CHR 0x0A])\<rparr>)))"

section \<open>Facts\<close>

lemma filter_loop_fates:
  assumes "filter_loop rp ids ls = Inr (kept, dropped)"
  shows "kept = filter (\<lambda>l. line_fate rp ids l = Inr LineKept) ls
    \<and> dropped = length (filter (\<lambda>l. line_fate rp ids l = Inr LineDropped) ls)
    \<and> (\<forall>l \<in> set ls. \<exists>f. line_fate rp ids l = Inr f)"
  using assms
proof (induction ls arbitrary: kept dropped)
  case Nil
  then show ?case by simp
next
  case (Cons l ls)
  from Cons.prems obtain f k d where f: "line_fate rp ids l = Inr f" "filter_loop rp ids ls = Inr (k, d)"
    and r: "(kept, dropped) = (case f of LineBlank \<Rightarrow> (k, d) | LineKept \<Rightarrow> (l # k, d) | LineDropped \<Rightarrow> (k, d + 1))"
    by (auto simp: py_bind_Inr_iff)
  from Cons.IH [OF f(2)] f(1) r show ?case by (cases f) auto
qed

lemma strip_braced: "strip (CHR ''{'' # s @ [CHR ''}'']) = CHR ''{'' # s @ [CHR ''}'']"
  by (simp add: strip_def lstrip_def rstrip_def is_space_def)

lemma log_row_text:
  "\<exists>s. json_dumps asc rp (log_row ts kind dev body) = CHR ''{'' # s @ [CHR ''}'']"
  by (simp add: log_row_def)

lemma log_row_read:
  assumes "json_plain rp body"
  shows "json_loads (json_dumps asc rp (log_row ts kind dev body)) = Inr (log_row ts kind dev body)"
  by (rule json_loads_dumps) (use assms in \<open>simp add: log_row_def\<close>)

lemma log_row_strip: "strip (json_dumps asc rp (log_row ts kind dev body)) = json_dumps asc rp (log_row ts kind dev body)"
  using log_row_text [of asc rp ts kind dev body] strip_braced by auto

lemma log_row_nonempty: "json_dumps asc rp (log_row ts kind dev body) \<noteq> []"
  using log_row_text [of asc rp ts kind dev body] by auto

section \<open>Properties\<close>

text \<open>Of the lines the log wrote, a record goes exactly when its event id is confirmed; status and
  heartbeat lines, and records without an id, always stay.\<close>

theorem written_line_dropped_iff_confirmed:
  assumes "json_plain fr body"
  shows "line_fate rp ids (json_dumps False fr (log_row ts kind dev body)) = Inr
     (if kind = ''record'' \<and> (\<exists>d v. body = PDict d \<and> dict_get d ''event_id'' = Some v
            \<and> py_truthy v \<and> py_str rp v \<in> ids)
      then LineDropped else LineKept)"
proof -
  have get: "dict_get [(''ts'', PStr ts), (''kind'', PStr k), (''device_id'', PStr dev), (''payload'', body)] ''kind''
        = Some (PStr k)"
      "dict_get [(''ts'', PStr ts), (''kind'', PStr k), (''device_id'', PStr dev), (''payload'', body)] ''payload''
        = Some body" for k
    by (simp_all add: dict_get_def)
  have "line_fate rp ids (json_dumps False fr (log_row ts kind dev body)) =
     (if kind \<noteq> ''record'' then Inr LineKept
      else (let event_id = (case body of
                 PDict p \<Rightarrow> (case dict_get p ''event_id'' of None \<Rightarrow> PNone | Some v \<Rightarrow> v) | _ \<Rightarrow> PNone)
            in Inr (if py_truthy event_id \<and> py_str rp event_id \<in> ids then LineDropped else LineKept)))"
    unfolding line_fate_def log_row_strip log_row_read [OF assms] Let_def
    using log_row_nonempty get by (simp add: log_row_def)
  then show ?thesis by (cases body) (auto simp: Let_def py_truthy_def split: option.split)
qed

theorem written_line_dropped_iff_confirmed_witness:
  "line_fate (\<lambda>_. []) {''e1''} (json_dumps False (\<lambda>_. [])
      (log_row ''t'' ''record'' ''st1'' (PDict [(''event_id'', PStr ''e1'')]))) = Inr LineDropped
   \<and> line_fate (\<lambda>_. []) {''e1''} (json_dumps False (\<lambda>_. [])
      (log_row ''t'' ''heartbeat'' ''st1'' (PDict [(''event_id'', PStr ''e1'')]))) = Inr LineKept"
  using written_line_dropped_iff_confirmed [of "\<lambda>_. []" "PDict [(''event_id'', PStr ''e1'')]" "\<lambda>_. []" "{''e1''}"]
  by (simp add: dict_get_def py_truthy_def py_str_def)

text \<open>Removing confirmed records keeps every other line that is not blank, in order and as it
  was, and counts what it removed; when the file cannot be read or replaced nothing changes.\<close>

lemma drop_records_keeps_the_rest:
  assumes "drop_records rp ids readable replaced m = Inr (n, m')" and "mfl_enabled m" and "ids \<noteq> {}"
  shows "(readable \<and> replaced \<and> n \<noteq> 0 \<longrightarrow>
       (\<exists>kept. mfl_file m' = concat (map (\<lambda>l. l @ [CHR 0x0A]) kept)
          \<and> kept = filter (\<lambda>l. line_fate rp ids l = Inr LineKept) (splitlines (mfl_file m))
          \<and> n = length (filter (\<lambda>l. line_fate rp ids l = Inr LineDropped) (splitlines (mfl_file m)))))
    \<and> (\<not> readable \<or> \<not> replaced \<or> n = 0 \<longrightarrow> m' = m \<and> n = 0)"
proof -
  have join: "join_with [CHR 0x0A] kept @ (if kept = [] then [] else [CHR 0x0A])
      = concat (map (\<lambda>l. l @ [CHR 0x0A]) kept)" for kept
    by (induction "[CHR 0x0A]" kept rule: join_with.induct) auto
  show ?thesis
  proof (cases readable)
    case False
    with assms show ?thesis by (auto simp: drop_records_def)
  next
    case True
    with assms obtain kept dropped where l: "filter_loop rp ids (splitlines (mfl_file m)) = Inr (kept, dropped)"
      and r: "(if dropped = 0 then Inr (0, m) else if \<not> replaced then Inr (0, m)
        else Inr (dropped, m\<lparr>mfl_file := join_with [CHR 0x0A] kept @ (if kept = [] then [] else [CHR 0x0A])\<rparr>))
        = (Inr (n, m') :: (nat \<times> mqtt_file_log) py)"
      by (auto simp: drop_records_def filter_out_confirmed_records_def py_bind_Inr_iff)
    show ?thesis
      using filter_loop_fates [OF l] r True unfolding join by (auto split: if_splits)
  qed
qed

end
