(* ===== verification/Liveness.thy ===== *)
theory Liveness
  imports Py_Value Retry_Policy
begin

text \<open>
  \<open>services/bridge/src/liveness.py\<close>: the state of each child device from its retained status, its
  Last-Will and its heartbeats. Times are monotonic seconds, exact rationals here.
\<close>

definition ONLINE :: string where
  "ONLINE = ''online''"

definition OFFLINE :: string where
  "OFFLINE = ''offline''"

definition device_id_from_topic :: "string \<Rightarrow> string \<Rightarrow> string option" where
  "device_id_from_topic topic prefix =
     (if starts_with prefix topic \<and> length prefix < length topic then Some (drop (length prefix) topic)
      else None)"

record live_device =
  ld_status :: "string option"
  ld_status_at :: "rat option"
  ld_hb_at :: "rat option"
  ld_hb_payload :: "pyval option"

definition new_device :: live_device where
  "new_device = \<lparr>ld_status = None, ld_status_at = None, ld_hb_at = None, ld_hb_payload = None\<rparr>"

record live_tracker =
  lt_timeout :: rat
  lt_devices :: "live_device dict"

definition new_live_tracker :: "rat \<Rightarrow> live_tracker" where
  "new_live_tracker timeout = \<lparr>lt_timeout = timeout, lt_devices = []\<rparr>"

text \<open>\<open>setdefault\<close>: the device's entry, a fresh one when it was not heard from.\<close>

definition device_of :: "string \<Rightarrow> live_tracker \<Rightarrow> live_device" where
  "device_of dev t = (case dict_get (lt_devices t) dev of None \<Rightarrow> new_device | Some d \<Rightarrow> d)"

definition set_device :: "string \<Rightarrow> live_device \<Rightarrow> live_tracker \<Rightarrow> live_tracker" where
  "set_device dev d t = t\<lparr>lt_devices := dict_set dev d (lt_devices t)\<rparr>"

definition norm_status :: "string \<Rightarrow> string" where
  "norm_status status = (if status = ONLINE then ONLINE else OFFLINE)"

definition record_status :: "string \<Rightarrow> string \<Rightarrow> rat \<Rightarrow> live_tracker \<Rightarrow> live_tracker" where
  "record_status dev status now t =
     set_device dev ((device_of dev t)\<lparr>ld_status := Some (norm_status status), ld_status_at := Some now\<rparr>) t"

definition record_heartbeat :: "string \<Rightarrow> pyval \<Rightarrow> rat \<Rightarrow> live_tracker \<Rightarrow> live_tracker" where
  "record_heartbeat dev payload now t =
     set_device dev ((device_of dev t)\<lparr>ld_hb_at := Some now, ld_hb_payload := Some payload\<rparr>) t"

definition alive_at :: "live_device \<Rightarrow> rat option" where
  "alive_at d =
     (let hb = (case ld_hb_at d of None \<Rightarrow> [] | Some t \<Rightarrow> [t]);
          st = (if ld_status d = Some ONLINE then (case ld_status_at d of None \<Rightarrow> [] | Some t \<Rightarrow> [t]) else [])
      in case hb @ st of [] \<Rightarrow> None | x # xs \<Rightarrow> Some (fold max xs x))"

text \<open>\<open>_state\<close>: the effective state and the age of the last sign of life.\<close>

definition live_state :: "rat \<Rightarrow> live_device \<Rightarrow> rat \<Rightarrow> string \<times> rat option" where
  "live_state timeout d now =
     (let alive = alive_at d
      in if ld_status d = Some OFFLINE
            \<and> (case ld_status_at d of None \<Rightarrow> False
                 | Some s \<Rightarrow> (case alive of None \<Rightarrow> True | Some a \<Rightarrow> a \<le> s))
         then (OFFLINE, None)
         else (case alive of
                 Some a \<Rightarrow> (if now - a \<le> timeout then ONLINE else ''stale'', Some (now - a))
               | None \<Rightarrow> (''unknown'', None)))"

text \<open>\<open>round(age, 1)\<close>.\<close>

definition round1 :: "rat \<Rightarrow> rat" where
  "round1 q = of_int (round_half_even (10 * q)) / 10"

record live_row =
  lr_device :: string
  lr_state :: string
  lr_age :: "rat option"
  lr_heartbeat :: "pyval option"

definition live_row_of :: "rat \<Rightarrow> rat \<Rightarrow> string \<times> live_device \<Rightarrow> live_row" where
  "live_row_of timeout now = (\<lambda>(dev, d).
     (case live_state timeout d now of (s, age) \<Rightarrow>
        \<lparr>lr_device = dev, lr_state = s, lr_age = map_option round1 age, lr_heartbeat = ld_hb_payload d\<rparr>))"

definition snapshot :: "live_tracker \<Rightarrow> rat \<Rightarrow> live_row list" where
  "snapshot t now = sort_key lr_device (map (live_row_of (lt_timeout t) now) (lt_devices t))"

section \<open>The specification: the last signal decides\<close>

datatype live_signal = SigStatus string | SigHeartbeat pyval

type_synonym live_log = "(rat \<times> string \<times> live_signal) list"

definition live_step :: "rat \<times> string \<times> live_signal \<Rightarrow> live_tracker \<Rightarrow> live_tracker" where
  "live_step = (\<lambda>(now, dev, sig). case sig of
      SigStatus s \<Rightarrow> record_status dev s now
    | SigHeartbeat p \<Rightarrow> record_heartbeat dev p now)"

definition live_run :: "live_log \<Rightarrow> live_tracker \<Rightarrow> live_tracker" where
  "live_run lg t = fold live_step lg t"

definition last_signal :: "string \<Rightarrow> live_log \<Rightarrow> (rat \<times> live_signal) option" where
  "last_signal dev lg =
     (case filter (\<lambda>(t, d, s). d = dev) lg of [] \<Rightarrow> None
      | x # xs \<Rightarrow> (case last (x # xs) of (t, d, s) \<Rightarrow> Some (t, s)))"

definition spec_state :: "rat \<Rightarrow> rat \<Rightarrow> rat \<times> live_signal \<Rightarrow> string" where
  "spec_state timeout now = (\<lambda>(t, s). case s of
      SigHeartbeat p \<Rightarrow> if now - t \<le> timeout then ONLINE else ''stale''
    | SigStatus st \<Rightarrow>
        if st = ONLINE then (if now - t \<le> timeout then ONLINE else ''stale'') else OFFLINE)"

section \<open>Facts\<close>

lemma last_signal_Nil [simp]: "last_signal dev [] = None"
  by (simp add: last_signal_def)

lemma last_signal_snoc:
  "last_signal dev (lg @ [(t, d, s)]) = (if d = dev then Some (t, s) else last_signal dev lg)"
  by (cases "filter (\<lambda>(t, d, s). d = dev) lg") (auto simp: last_signal_def)

lemma last_signal_None_iff: "last_signal dev lg = None \<longleftrightarrow> dev \<notin> (fst \<circ> snd) ` set lg"
  by (induction lg rule: rev_induct) (auto simp: last_signal_snoc split: if_splits)

lemma last_signal_mem: "last_signal dev lg = Some (t, s) \<Longrightarrow> (t, dev, s) \<in> set lg"
  by (induction lg rule: rev_induct) (auto simp: last_signal_snoc split: if_splits)

lemma live_run_snoc: "live_run (lg @ [x]) t = live_step x (live_run lg t)"
  by (simp add: live_run_def)

lemma live_step_timeout [simp]: "lt_timeout (live_step x t) = lt_timeout t"
  by (cases x) (simp add: live_step_def record_status_def record_heartbeat_def set_device_def split: live_signal.split)

lemma live_run_timeout [simp]: "lt_timeout (live_run lg t) = lt_timeout t"
  by (induction lg rule: rev_induct) (simp_all add: live_run_snoc, simp add: live_run_def)

lemma live_step_devices:
  "lt_devices (live_step (now, dev, sig) t) = dict_set dev
     (case sig of
        SigStatus s \<Rightarrow> (device_of dev t)\<lparr>ld_status := Some (norm_status s), ld_status_at := Some now\<rparr>
      | SigHeartbeat p \<Rightarrow> (device_of dev t)\<lparr>ld_hb_at := Some now, ld_hb_payload := Some p\<rparr>) (lt_devices t)"
  by (simp add: live_step_def record_status_def record_heartbeat_def set_device_def split: live_signal.split)

lemma live_run_keys:
  "set (dict_keys (lt_devices (live_run lg (new_live_tracker T)))) = (fst \<circ> snd) ` set lg
   \<and> distinct (dict_keys (lt_devices (live_run lg (new_live_tracker T))))"
proof (induction lg rule: rev_induct)
  case Nil
  then show ?case by (simp add: live_run_def new_live_tracker_def dict_keys_def)
next
  case (snoc x lg)
  then show ?case
    by (cases x) (auto simp: live_run_snoc live_step_devices set_dict_keys_set dict_set_distinct)
qed

text \<open>How the entry of a device relates to its last signal when time moves on.\<close>

definition before :: "rat option \<Rightarrow> rat \<Rightarrow> bool" where
  "before t u = (case t of None \<Rightarrow> True | Some x \<Rightarrow> x < u)"

fun entry_for :: "rat \<times> live_signal \<Rightarrow> live_device \<Rightarrow> bool" where
  "entry_for (t, SigStatus s) d =
     (ld_status d = Some (norm_status s) \<and> ld_status_at d = Some t \<and> before (ld_hb_at d) t)"
| "entry_for (t, SigHeartbeat p) d =
     (ld_hb_at d = Some t \<and> ld_hb_payload d = Some p \<and> before (ld_status_at d) t)"

lemma entry_before:
  "entry_for (t, s) d \<Longrightarrow> t < u \<Longrightarrow> before (ld_hb_at d) u \<and> before (ld_status_at d) u"
  by (cases s) (auto simp: before_def split: option.splits)

lemma entry_state:
  "entry_for (t, s) d \<Longrightarrow> fst (live_state T d now) = spec_state T now (t, s)"
  by (cases s) (auto simp: live_state_def spec_state_def alive_at_def before_def norm_status_def ONLINE_def
      OFFLINE_def max_def split: option.splits if_splits)

lemma live_run_entry:
  assumes "sorted_wrt (<) (map fst lg)"
  shows "case last_signal dev lg of
      None \<Rightarrow> dict_get (lt_devices (live_run lg (new_live_tracker T))) dev = None
    | Some p \<Rightarrow> (\<exists>d. dict_get (lt_devices (live_run lg (new_live_tracker T))) dev = Some d \<and> entry_for p d)"
  using assms
proof (induction lg rule: rev_induct)
  case Nil
  then show ?case by (simp add: live_run_def new_live_tracker_def dict_get_def)
next
  case (snoc x lg)
  obtain t dv s where x: "x = (t, dv, s)" by (cases x)
  let ?w = "live_run lg (new_live_tracker T)"
  have old: "case last_signal dev lg of None \<Rightarrow> dict_get (lt_devices ?w) dev = None
      | Some p \<Rightarrow> (\<exists>d. dict_get (lt_devices ?w) dev = Some d \<and> entry_for p d)"
    using snoc by (simp add: sorted_wrt_append)
  show ?case
  proof (cases "dv = dev")
    case False
    with old show ?thesis
      by (cases "last_signal dev lg") (simp_all add: x last_signal_snoc live_run_snoc live_step_devices)
  next
    case True
    have "before (ld_hb_at (device_of dev ?w)) t \<and> before (ld_status_at (device_of dev ?w)) t"
    proof (cases "last_signal dev lg")
      case None
      with old show ?thesis by (simp add: device_of_def new_device_def before_def)
    next
      case (Some p)
      obtain u q where p: "p = (u, q)" by (cases p)
      with Some have "(u, dev, q) \<in> set lg" using last_signal_mem by simp
      then have "u < t" using snoc.prems x by (auto simp: sorted_wrt_append)
      with old Some p show ?thesis by (auto simp: device_of_def dest: entry_before)
    qed
    with True show ?thesis
      by (cases s) (simp_all add: x last_signal_snoc live_run_snoc live_step_devices)
  qed
qed

lemma snapshot_row_state:
  assumes "sorted_wrt (<) (map fst lg)" and "r \<in> set (snapshot (live_run lg (new_live_tracker T)) now)"
  shows "\<exists>p. last_signal (lr_device r) lg = Some p \<and> lr_state r = spec_state T now p"
proof -
  let ?w = "live_run lg (new_live_tracker T)"
  have T: "lt_timeout ?w = T" by (simp add: new_live_tracker_def)
  obtain dv d where d: "(dv, d) \<in> set (lt_devices ?w)" "r = live_row_of T now (dv, d)"
    using assms(2) T by (auto simp: snapshot_def)
  then have get: "dict_get (lt_devices ?w) dv = Some d"
    using live_run_keys [of lg T] by (simp add: dict_get_Some_iff)
  then obtain p where p: "last_signal dv lg = Some p" "entry_for p d"
    using live_run_entry [OF assms(1), of T dv] by (cases "last_signal dv lg") auto
  obtain t s where ts: "p = (t, s)" by (cases p)
  with p(2) entry_state [of t s d T now] d(2) have "lr_device r = dv" "lr_state r = spec_state T now p"
    by (auto simp: live_row_of_def split: prod.split)
  with p(1) show ?thesis by blast
qed

section \<open>Properties\<close>

text \<open>C37: the snapshot lists every device that was heard from once, in the order of the ids, and when
  time moves on between signals the state of each is what its last signal says: offline after a
  Last-Will, online within the timeout of a sign of life, stale beyond it.\<close>

theorem snapshot_refines_last_signal:
  fixes T now :: rat
  assumes "sorted_wrt (<) (map fst lg)"
  defines "rows \<equiv> snapshot (live_run lg (new_live_tracker T)) now"
  shows "sorted (map lr_device rows) \<and> distinct (map lr_device rows)
    \<and> set (map lr_device rows) = (fst \<circ> snd) ` set lg
    \<and> (\<forall>r \<in> set rows. \<exists>p. last_signal (lr_device r) lg = Some p \<and> lr_state r = spec_state T now p)"
proof -
  let ?w = "live_run lg (new_live_tracker T)"
  have dev: "map lr_device (map (live_row_of (lt_timeout ?w) now) (lt_devices ?w)) = dict_keys (lt_devices ?w)"
    by (auto simp: dict_keys_def live_row_of_def split: prod.split)
  have T: "lt_timeout ?w = T" by (simp add: new_live_tracker_def)
  have srt: "sorted (map lr_device rows)" by (simp add: rows_def snapshot_def)
  have "mset (map lr_device rows) = mset (dict_keys (lt_devices ?w))"
    unfolding dev [symmetric] rows_def snapshot_def by (simp only: mset_map mset_sort)
  then have keys: "distinct (map lr_device rows)" "set (map lr_device rows) = (fst \<circ> snd) ` set lg"
    using live_run_keys [of lg T] by (metis mset_eq_imp_distinct_iff, metis mset_eq_setD)
  note state = snapshot_row_state [OF assms(1), of _ T now, folded rows_def]
  show ?thesis using srt keys state by blast
qed

theorem snapshot_refines_last_signal_witness:
  "map (\<lambda>r. (lr_device r, lr_state r))
     (snapshot (live_run [(1, ''st1'', SigStatus ''online''), (2, ''st2'', SigHeartbeat PNone), (3, ''st1'', SigStatus ''offline'')]
        (new_live_tracker 30)) 40) = [(''st1'', ''offline''), (''st2'', ''stale'')]"
proof -
  let ?lg = "[(1, ''st1'', SigStatus ''online''), (2, ''st2'', SigHeartbeat PNone), (3, ''st1'', SigStatus ''offline'')]"
  let ?rows = "snapshot (live_run ?lg (new_live_tracker 30)) 40"
  have *: "sorted (map lr_device ?rows) \<and> distinct (map lr_device ?rows)
      \<and> set (map lr_device ?rows) = {''st1'', ''st2''}
      \<and> (\<forall>r \<in> set ?rows. \<exists>p. last_signal (lr_device r) ?lg = Some p \<and> lr_state r = spec_state 30 40 p)"
    using snapshot_refines_last_signal [of ?lg 30 40] by (simp add: insert_commute)
  moreover have "sorted [''st1'', ''st2''] \<and> distinct [''st1'', ''st2'']" by simp
  ultimately have dev: "map lr_device ?rows = [''st1'', ''st2'']"
    by (metis (no_types, lifting) sorted_distinct_set_unique list.simps(15) empty_set)
  then obtain a b where ab: "?rows = [a, b]" "lr_device a = ''st1''" "lr_device b = ''st2''"
    by (auto simp: map_eq_Cons_conv)
  have "spec_state 30 40 (3, SigStatus ''offline'') = ''offline''" "spec_state 30 40 (2, SigHeartbeat PNone) = ''stale''"
    by (simp_all add: spec_state_def ONLINE_def OFFLINE_def)
  then show ?thesis using * unfolding ab(1) by (simp add: ab last_signal_def)
qed

end
