(* ===== verification/Disk_Reclaim.thy ===== *)
theory Disk_Reclaim
  imports Py_Text
begin

text \<open>
  \<open>services/bridge/src/disk_reclaim.py\<close>: how many sent rows to keep for the space that is free, and
  which log files may be removed when it runs out. The file system's answers are inputs.
\<close>

definition WARN_FREE_BYTES :: int where
  "WARN_FREE_BYTES = 1 * 1024 * 1024 * 1024"

definition CRITICAL_FREE_BYTES :: int where
  "CRITICAL_FREE_BYTES = 256 * 1024 * 1024"

definition KEEP_SENT_NORMAL :: int where
  "KEEP_SENT_NORMAL = 500"

definition KEEP_SENT_WARN :: int where
  "KEEP_SENT_WARN = 50"

definition KEEP_SENT_CRITICAL :: int where
  "KEEP_SENT_CRITICAL = 0"

definition keep_sent_for_free :: "int option \<Rightarrow> int" where
  "keep_sent_for_free free =
     (case free of
        None \<Rightarrow> KEEP_SENT_NORMAL
      | Some f \<Rightarrow>
          if WARN_FREE_BYTES \<le> f then KEEP_SENT_NORMAL
          else if CRITICAL_FREE_BYTES \<le> f then KEEP_SENT_WARN
          else KEEP_SENT_CRITICAL)"

section \<open>Rotated logs\<close>

text \<open>\<open>^(bridge|detector|child-mqtt)\.log\.[1-9]\d*$\<close>, where \<open>$\<close> also stands before a last line feed.\<close>

definition log_bases :: "string list" where
  "log_bases = [''bridge'', ''detector'', ''child-mqtt'']"

definition at_end :: "string \<Rightarrow> bool" where
  "at_end s = (s = [] \<or> s = [CHR 0x0A])"

definition rotation_number :: "string \<Rightarrow> bool" where
  "rotation_number s = (case s of [] \<Rightarrow> False
     | c # cs \<Rightarrow> is_digit c \<and> c \<noteq> CHR ''0'' \<and> at_end (dropWhile is_digit cs))"

definition rotated_log :: "string \<Rightarrow> bool" where
  "rotated_log name =
     list_ex (\<lambda>b. starts_with (b @ ''.log.'') name \<and> rotation_number (drop (length b + 5) name)) log_bases"

text \<open>The directory: its entries with whether each is a file, \<open>None\<close> when it cannot be listed.\<close>

definition rotated_log_paths :: "(string \<times> bool) list option \<Rightarrow> string list" where
  "rotated_log_paths names =
     (case names of None \<Rightarrow> []
      | Some ns \<Rightarrow> sort (map fst (filter (\<lambda>(n, is_file). is_file \<and> rotated_log n) ns)))"

text \<open>\<open>can_unlink\<close> tells for which names \<open>unlink\<close> succeeds.\<close>

definition unlink_rotated_logs :: "(string \<Rightarrow> bool) \<Rightarrow> (string \<times> bool) list option
    \<Rightarrow> string list \<times> (string \<times> bool) list option" where
  "unlink_rotated_logs can_unlink names =
     (let removed = filter can_unlink (rotated_log_paths names)
      in (removed, map_option (filter (\<lambda>(n, f). n \<notin> set removed)) names))"

section \<open>Facts\<close>

lemma dropWhile_digits_split:
  "rotation_number s \<longleftrightarrow> (\<exists>c cs r. s = c # cs @ r \<and> is_digit c \<and> c \<noteq> CHR ''0'' \<and> (\<forall>d \<in> set cs. is_digit d) \<and> at_end r)"
proof
  assume a: "rotation_number s"
  then obtain c cs where s: "s = c # cs" by (cases s) (simp_all add: rotation_number_def)
  have "\<forall>d \<in> set (takeWhile is_digit cs). is_digit d" by (blast dest: set_takeWhileD)
  moreover have "s = c # takeWhile is_digit cs @ dropWhile is_digit cs" using s by simp
  ultimately show "\<exists>c cs r. s = c # cs @ r \<and> is_digit c \<and> c \<noteq> CHR ''0'' \<and> (\<forall>d \<in> set cs. is_digit d) \<and> at_end r"
    using a s by (intro exI [of _ c] exI [of _ "takeWhile is_digit cs"] exI [of _ "dropWhile is_digit cs"])
      (simp add: rotation_number_def)
next
  assume "\<exists>c cs r. s = c # cs @ r \<and> is_digit c \<and> c \<noteq> CHR ''0'' \<and> (\<forall>d \<in> set cs. is_digit d) \<and> at_end r"
  then obtain c cs r where s: "s = c # cs @ r" "is_digit c" "c \<noteq> CHR ''0''" "\<forall>d \<in> set cs. is_digit d" "at_end r"
    by blast
  have "\<not> is_digit CHR 0x0A" by (simp add: is_digit_def digit_val_def)
  with s(5) have "dropWhile is_digit r = r" by (auto simp: at_end_def)
  with s(4) have "dropWhile is_digit (cs @ r) = r" by (simp add: dropWhile_append)
  with s show "rotation_number s" by (simp add: rotation_number_def)
qed

lemma rotated_log_iff:
  "rotated_log name \<longleftrightarrow> (\<exists>b \<in> set log_bases. \<exists>s. name = b @ ''.log.'' @ s \<and> rotation_number s)"
proof
  assume "rotated_log name"
  then obtain b r where "b \<in> set log_bases" "name = (b @ ''.log.'') @ r" "rotation_number (drop (length b + 5) name)"
    by (auto simp: rotated_log_def list_ex_iff starts_with_iff)
  then have "name = b @ ''.log.'' @ r \<and> rotation_number r" by simp
  with \<open>b \<in> set log_bases\<close> show "\<exists>b \<in> set log_bases. \<exists>s. name = b @ ''.log.'' @ s \<and> rotation_number s" by blast
next
  assume "\<exists>b \<in> set log_bases. \<exists>s. name = b @ ''.log.'' @ s \<and> rotation_number s"
  then obtain b r where "b \<in> set log_bases" "name = b @ ''.log.'' @ r" "rotation_number r" by blast
  then show "rotated_log name" by (auto simp: rotated_log_def list_ex_iff starts_with_iff intro!: bexI [of _ b])
qed

lemma unlink_known: "fst (unlink_rotated_logs can names) = filter can (rotated_log_paths names)"
  by (simp add: unlink_rotated_logs_def Let_def)

section \<open>Properties\<close>

text \<open>Less free space never keeps more sent rows, an unreadable file system keeps as many as a
  roomy one, and below the critical mark none is kept.\<close>

theorem keep_sent_monotone:
  "0 \<le> keep_sent_for_free (Some a)
   \<and> (a \<le> b \<longrightarrow> keep_sent_for_free (Some a) \<le> keep_sent_for_free (Some b))
   \<and> keep_sent_for_free (Some b) \<le> keep_sent_for_free None
   \<and> (keep_sent_for_free (Some a) = 0 \<longleftrightarrow> a < CRITICAL_FREE_BYTES)"
  by (simp add: keep_sent_for_free_def WARN_FREE_BYTES_def CRITICAL_FREE_BYTES_def
      KEEP_SENT_NORMAL_def KEEP_SENT_WARN_def KEEP_SENT_CRITICAL_def)

theorem keep_sent_monotone_witness:
  "keep_sent_for_free (Some 5) \<le> keep_sent_for_free (Some 300000000)"
  using keep_sent_monotone [of 5 300000000] by simp

text \<open>Making room removes only numbered rotations of the three known logs, never a log that is
  being written, and everything else in the directory stays; a rotation that can be removed is gone
  afterwards.\<close>

theorem unlink_only_rotations:
  assumes "fst (unlink_rotated_logs can (Some names)) = removed"
    and "snd (unlink_rotated_logs can (Some names)) = Some left"
  shows "(\<forall>n \<in> set removed. \<exists>b \<in> set log_bases. \<exists>s. n = b @ ''.log.'' @ s \<and> s \<noteq> [])
    \<and> (\<forall>b \<in> set log_bases. \<forall>f. (b @ ''.log'', f) \<in> set names \<longrightarrow> (b @ ''.log'', f) \<in> set left)
    \<and> (\<forall>n f. (n, f) \<in> set names \<and> \<not> rotated_log n \<longrightarrow> (n, f) \<in> set left)
    \<and> (\<forall>n. (n, True) \<in> set names \<and> rotated_log n \<and> can n \<longrightarrow> (n, True) \<notin> set left)"
proof -
  have rem: "set removed = {n. (n, True) \<in> set names \<and> rotated_log n \<and> can n}"
    using assms(1) unfolding unlink_known by (force simp: rotated_log_paths_def)
  have left: "left = filter (\<lambda>(n, f). n \<notin> set removed) names"
    using assms by (simp add: unlink_rotated_logs_def Let_def)
  have live: "\<not> rotated_log (b @ ''.log'')" if "b \<in> set log_bases" for b
    using that by (auto simp: log_bases_def rotated_log_def)
  have "\<exists>b \<in> set log_bases. \<exists>s. n = b @ ''.log.'' @ s \<and> s \<noteq> []" if "n \<in> set removed" for n
    using that rem rotated_log_iff [of n] by (fastforce simp: rotation_number_def)
  then show ?thesis using rem live unfolding left by auto
qed

theorem unlink_only_rotations_witness:
  "(''bridge.log'', True) \<in> set (the (snd (unlink_rotated_logs (\<lambda>_. True)
      (Some [(''bridge.log'', True), (''bridge.log.1'', True), (''notes'', True)]))))"
proof -
  let ?ns = "[(''bridge.log'', True), (''bridge.log.1'', True), (''notes'', True)]"
  obtain left where left: "snd (unlink_rotated_logs (\<lambda>_. True) (Some ?ns)) = Some left"
    by (simp add: unlink_rotated_logs_def Let_def)
  have "\<forall>b \<in> set log_bases. \<forall>f. (b @ ''.log'', f) \<in> set ?ns \<longrightarrow> (b @ ''.log'', f) \<in> set left"
    using unlink_only_rotations [OF refl left] by blast
  moreover have "''bridge'' \<in> set log_bases" by (simp add: log_bases_def)
  ultimately have "(''bridge'' @ ''.log'', True) \<in> set left" by fastforce
  with left show ?thesis by simp
qed

end
