(* ===== verification/Bridge_Main.thy ===== *)
theory Bridge_Main
  imports Config_Access Record_Sender Mqtt_Listener Mqtt_File_Log Liveness Disk_Reclaim
begin

text \<open>
  \<open>services/bridge/src/main.py\<close>: what the program reads from its configuration, the callbacks of the
  MQTT client and one turn of the main loop. The clocks, the outcomes of the commands, the free
  space and the results of file operations are inputs of a turn; the log lines are left out, except
  the warnings about devices that are down.
\<close>

section \<open>Settings\<close>

definition int_list :: "pyval \<Rightarrow> int list py" where
  "int_list v = (case v of
      PList xs \<Rightarrow> (if \<forall>x \<in> set xs. \<exists>i. x = PInt i then Inr (map (\<lambda>x. case x of PInt i \<Rightarrow> i | _ \<Rightarrow> 0) xs) else Inl TypeMismatch)
    | _ \<Rightarrow> Inl TypeMismatch)"

record hub_settings =
  hs_topic_event :: string
  hs_status_prefix :: string
  hs_hb_prefix :: string
  hs_hb_timeout :: rat
  hs_report_interval :: rat
  hs_record_topic :: string
  hs_log_path :: string
  hs_net_interval :: rat
  hs_time_interval :: rat
  hs_stats_interval :: rat
  hs_max_rows :: int
  hs_rec_max_rows :: int

text \<open>
  \<open>unretryable_ora_codes\<close> defaults to none; \<open>record.max_rows\<close> to the bound of the event buffer.
\<close>

definition bridge_deps_of :: "(pyval \<Rightarrow> merge_row \<Rightarrow> 'o \<Rightarrow> merge_result py \<times> 'o) \<Rightarrow> string \<Rightarrow> pyval dict
    \<Rightarrow> pyval dict \<Rightarrow> 'o bridge_deps py" where
  "bridge_deps_of oracle_fn mark cfg dev =
     py_bind (section_or_empty cfg ''record'') (\<lambda>rec.
     py_bind (py_bind (cfg_at cfg ''mqtt'' ''topic_ack'') as_str) (\<lambda>ack.
     py_bind (bridge_policy cfg) (\<lambda>pol.
     py_bind (as_str (get_or rec ''topic_ack'' (PStr ''presence/record/ack''))) (\<lambda>rack.
     py_bind (as_str (get_or rec ''topic_nack'' (PStr ''presence/record/nack''))) (\<lambda>rnack.
     py_bind (py_bind (py_subscript (PDict cfg) ''circuit_breaker'') dict_of) (\<lambda>cb.
     py_bind (int_list (get_or cb ''unretryable_ora_codes'' (PList []))) (\<lambda>codes.
       Inr \<lparr>bd_oracle = oracle_fn, bd_device_cfg = dev, bd_topic_ack = ack, bd_policy = pol,
            bd_rec_topic_ack = Some rack, bd_rec_topic_nack = Some rnack, bd_unretryable = codes,
            bd_giveup_mark = mark\<rparr>)))))))"

definition hub_settings_of :: "(pyval \<Rightarrow> string) \<Rightarrow> pyval dict \<Rightarrow> hub_settings py" where
  "hub_settings_of rp cfg =
     py_bind (section_or_empty cfg ''record'') (\<lambda>rec.
     py_bind (py_bind (cfg_at cfg ''mqtt'' ''topic_event'') as_str) (\<lambda>ev.
     py_bind (section_or_empty cfg ''liveness'') (\<lambda>liv.
     py_bind (as_str (get_or liv ''status_topic_prefix'' (PStr ''presence/status/''))) (\<lambda>sp.
     py_bind (as_str (get_or liv ''heartbeat_topic_prefix'' (PStr ''presence/heartbeat/''))) (\<lambda>hp.
     py_bind (num_rat (get_or liv ''heartbeat_timeout_seconds'' (PInt 60))) (\<lambda>hb.
     py_bind (num_rat (get_or liv ''report_interval_seconds'' (PInt 30))) (\<lambda>rep.
     py_bind (as_str (get_or rec ''topic'' (PStr ''presence/record''))) (\<lambda>topic.
     py_bind (py_bind (cfg_at cfg ''network_watcher'' ''poll_interval_seconds'') num_rat) (\<lambda>net.
     py_bind (py_bind (cfg_at cfg ''time_watcher'' ''poll_interval_seconds'') num_rat) (\<lambda>tm.
     py_bind (py_bind (cfg_at cfg ''logging'' ''buffer_stats_interval_seconds'') num_rat) (\<lambda>st.
     py_bind (py_bind (cfg_at cfg ''buffer'' ''max_rows'') py_int) (\<lambda>rows.
     py_bind (py_int (get_or rec ''max_rows'' (PInt rows))) (\<lambda>rec_rows.
       Inr \<lparr>hs_topic_event = ev, hs_status_prefix = sp, hs_hb_prefix = hp, hs_hb_timeout = hb, hs_report_interval = rep,
            hs_record_topic = topic, hs_log_path = resolve_mqtt_log_path rp liv, hs_net_interval = net,
            hs_time_interval = tm, hs_stats_interval = st, hs_max_rows = rows, hs_rec_max_rows = rec_rows\<rparr>)))))))))))))"

section \<open>The running program\<close>

record 'o hub =
  hb_core :: "'o bridge"
  hb_live :: live_tracker
  hb_file :: mqtt_file_log
  hb_logs :: "(string \<times> bool) list option"
  hb_last_network :: rat
  hb_last_time :: rat
  hb_last_stats :: rat
  hb_last_liveness :: rat
  hb_down :: "live_row list"

definition on_core :: "('o bridge \<Rightarrow> 'o bridge run) \<Rightarrow> 'o hub \<Rightarrow> 'o hub run" where
  "on_core f h = (case f (hb_core h) of (w, e) \<Rightarrow> (h\<lparr>hb_core := w\<rparr>, e))"

definition on_file :: "(mqtt_file_log \<Rightarrow> mqtt_file_log py) \<Rightarrow> 'o hub \<Rightarrow> 'o hub run" where
  "on_file f h = (case f (hb_file h) of Inl e \<Rightarrow> (h, Some e) | Inr m \<Rightarrow> (h\<lparr>hb_file := m\<rparr>, None))"

section \<open>Callbacks\<close>

definition received_event :: "string option \<Rightarrow> string \<Rightarrow> event_payload \<Rightarrow> raw_bytes \<Rightarrow> inbox_event" where
  "received_event ssid now_iso p raw =
     \<lparr>ie_event_id = ep_event_id p, ie_event_type = ep_event_type p, ie_mk_date = ep_mk_date p,
      ie_monotonic_ns = ep_monotonic_ns p, ie_wall_synced = ep_wall_clock_synced p, ie_device_id = ep_device_id p,
      ie_score = ep_score p, ie_raw_payload = replaced_text raw, ie_status = Received, ie_ssid_at_receive = ssid,
      ie_profile_at_send = None, ie_mk_date_committed = None, ie_received_at_iso = now_iso, ie_sent_at_iso = None,
      ie_retry_count = 0, ie_next_retry_at_iso = None, ie_last_error = None\<rparr>"

definition on_event :: "datetime \<Rightarrow> event_payload \<Rightarrow> raw_bytes \<Rightarrow> 'o bridge \<Rightarrow> 'o bridge run" where
  "on_event now p raw w =
     (let ssid = nw_cached (br_network w)
      in if rd_action (peek ssid (br_resolver w)) = ADrop then (w, None)
         else (case inbox_insert_received (received_event ssid (isoformat now) p raw) (br_inbox w) of
             Inl e \<Rightarrow> (w, Some e)
           | Inr t \<Rightarrow> (w\<lparr>br_inbox := t\<rparr>, None)))"

definition hub_event :: "datetime \<Rightarrow> raw_bytes \<Rightarrow> 'o hub \<Rightarrow> 'o hub run" where
  "hub_event now raw = on_core (on_event_message (on_event now) raw)"

definition on_status :: "(rat \<Rightarrow> string) \<Rightarrow> hub_settings \<Rightarrow> string \<Rightarrow> rat \<Rightarrow> string \<Rightarrow> raw_bytes \<Rightarrow> 'o hub \<Rightarrow> 'o hub run" where
  "on_status fr hs ts now topic raw h =
     (let t = strip (replaced_text raw)
      in case device_id_from_topic topic (hs_status_prefix hs) of
           None \<Rightarrow> (h, None)
         | Some dev \<Rightarrow> on_file (log_write fr ts ''status'' dev t) (h\<lparr>hb_live := record_status dev t now (hb_live h)\<rparr>))"

definition heartbeat_data :: "string \<Rightarrow> pyval py" where
  "heartbeat_data t =
     (case json_loads t of
        Inl ValueError \<Rightarrow> Inr (PDict [])
      | Inl e \<Rightarrow> Inl e
      | Inr (PDict d) \<Rightarrow> Inr (PDict d)
      | Inr _ \<Rightarrow> Inr (PDict []))"

definition on_heartbeat :: "(rat \<Rightarrow> string) \<Rightarrow> hub_settings \<Rightarrow> string \<Rightarrow> rat \<Rightarrow> string \<Rightarrow> raw_bytes \<Rightarrow> 'o hub \<Rightarrow> 'o hub run" where
  "on_heartbeat fr hs ts now topic raw h =
     (case device_id_from_topic topic (hs_hb_prefix hs) of
        None \<Rightarrow> (h, None)
      | Some dev \<Rightarrow>
          (let t = replaced_text raw
           in case heartbeat_data t of
                Inl e \<Rightarrow> (h, Some e)
              | Inr v \<Rightarrow> on_file (log_write fr ts ''heartbeat'' dev t) (h\<lparr>hb_live := record_heartbeat dev v now (hb_live h)\<rparr>)))"

definition received_record :: "string \<Rightarrow> record_payload \<Rightarrow> raw_bytes \<Rightarrow> record_event" where
  "received_record now_iso p raw =
     \<lparr>re_event_id = rp_event_id p, re_mk_date = rp_mk_date p, re_sta_no1 = rp_sta_no1 p, re_sta_no2 = rp_sta_no2 p,
      re_sta_no3 = rp_sta_no3 p, re_t1_status = rp_t1_status p, re_device_id = rp_device_id p,
      re_raw_payload = replaced_text raw, re_status = RReceived, re_received_at_iso = now_iso, re_sent_at_iso = None,
      re_mk_date_committed = None, re_retry_count = 0, re_next_retry_at_iso = None, re_last_error = None,
      re_failed_at_iso = None\<rparr>"

definition on_record :: "(rat \<Rightarrow> string) \<Rightarrow> (pyval \<Rightarrow> string) \<Rightarrow> 'o bridge_deps \<Rightarrow> string \<Rightarrow> datetime \<Rightarrow> raw_bytes
    \<Rightarrow> 'o hub \<Rightarrow> 'o hub run" where
  "on_record fr rp d ts now raw h =
     (case parse_record_payload rp raw of
        Inl ValueError \<Rightarrow> on_file (log_write fr ts ''record'' [] (replaced_text raw)) h
      | Inl e \<Rightarrow> (h, Some e)
      | Inr p \<Rightarrow> run_then (on_core (rec_receive d (received_record (isoformat now) p raw)) h)
          (on_file (log_write fr ts ''record'' (or_else (rp_device_id p) []) (replaced_text raw))))"

section \<open>The main loop\<close>

record turn =
  tu_now :: rat
  tu_ssid :: cmd_outcome
  tu_sync :: cmd_outcome
  tu_mono_ns :: int
  tu_wall :: datetime
  tu_send_ssid :: cmd_outcome
  tu_send_now :: datetime
  tu_rec_now :: datetime
  tu_free :: "int option"
  tu_can_unlink :: "string \<Rightarrow> bool"
  tu_readable :: bool
  tu_replaced :: bool

definition poll_network :: "hub_settings \<Rightarrow> turn \<Rightarrow> 'o hub \<Rightarrow> 'o hub" where
  "poll_network hs u h =
     (if hs_net_interval hs \<le> tu_now u - hb_last_network h
      then h\<lparr>hb_core := (hb_core h)\<lparr>br_network := snd (get_current_ssid (tu_ssid u) (br_network (hb_core h)))\<rparr>,
             hb_last_network := tu_now u\<rparr>
      else h)"

definition poll_time :: "hub_settings \<Rightarrow> turn \<Rightarrow> 'o hub \<Rightarrow> 'o hub" where
  "poll_time hs u h =
     (if hs_time_interval hs \<le> tu_now u - hb_last_time h
      then h\<lparr>hb_core := (hb_core h)\<lparr>br_time := sync_poll (tu_mono_ns u) (tu_sync u) (tu_wall u) (br_time (hb_core h))\<rparr>,
             hb_last_time := tu_now u\<rparr>
      else h)"

text \<open>\<open>mqtt_file.drop_records(set(dropped_ids)) if dropped_ids else 0\<close>.\<close>

definition drop_confirmed :: "(pyval \<Rightarrow> string) \<Rightarrow> string list \<Rightarrow> turn \<Rightarrow> 'o hub \<Rightarrow> 'o hub run" where
  "drop_confirmed rp ids u h =
     (if ids = [] then (h, None)
      else on_file (\<lambda>m. py_bind (drop_records rp (set ids) (tu_readable u) (tu_replaced u) m) (\<lambda>(n, m'). Inr m')) h)"

definition delete_sent_rows :: "int \<Rightarrow> 'o hub \<Rightarrow> 'o hub \<times> string list" where
  "delete_sent_rows keep h =
     (let (recs, rec_ids) = rec_delete_sent keep (br_records (hb_core h));
          (evs, ev_ids) = inbox_delete_sent keep (br_inbox (hb_core h))
      in (h\<lparr>hb_core := (hb_core h)\<lparr>br_records := recs, br_inbox := evs\<rparr>\<rparr>, rec_ids @ ev_ids))"

definition unlink_when_low :: "turn \<Rightarrow> 'o hub \<Rightarrow> 'o hub" where
  "unlink_when_low u h =
     (if (case tu_free u of None \<Rightarrow> False | Some f \<Rightarrow> f < WARN_FREE_BYTES)
      then h\<lparr>hb_logs := snd (unlink_rotated_logs (tu_can_unlink u) (hb_logs h))\<rparr> else h)"

definition evict_rows :: "hub_settings \<Rightarrow> 'o hub \<Rightarrow> 'o hub" where
  "evict_rows hs h =
     h\<lparr>hb_core := (hb_core h)
       \<lparr>br_inbox := fst (inbox_ring_evict (hs_max_rows hs) (br_inbox (hb_core h))),
        br_records := fst (rec_ring_evict (hs_rec_max_rows hs) (br_records (hb_core h)))\<rparr>\<rparr>"

definition reclaim :: "(pyval \<Rightarrow> string) \<Rightarrow> hub_settings \<Rightarrow> turn \<Rightarrow> 'o hub \<Rightarrow> 'o hub run" where
  "reclaim rp hs u h =
     (case delete_sent_rows (keep_sent_for_free (tu_free u)) h of
        (h', ids) \<Rightarrow> run_then (drop_confirmed rp ids u h') (\<lambda>h. (evict_rows hs (unlink_when_low u h), None)))"

definition reclaim_when_due :: "(pyval \<Rightarrow> string) \<Rightarrow> hub_settings \<Rightarrow> turn \<Rightarrow> 'o hub \<Rightarrow> 'o hub run" where
  "reclaim_when_due rp hs u h =
     (if hs_stats_interval hs \<le> tu_now u - hb_last_stats h
      then run_then (reclaim rp hs u h) (\<lambda>h. (h\<lparr>hb_last_stats := tu_now u\<rparr>, None))
      else (h, None))"

text \<open>The rows a \<open>device_down\<close> warning is logged for.\<close>

definition devices_down :: "live_row list \<Rightarrow> live_row list" where
  "devices_down rows = filter (\<lambda>r. lr_state r = OFFLINE \<or> lr_state r = ''stale'') rows"

definition report_liveness :: "hub_settings \<Rightarrow> turn \<Rightarrow> 'o hub \<Rightarrow> 'o hub" where
  "report_liveness hs u h =
     (if hs_report_interval hs \<le> tu_now u - hb_last_liveness h
      then h\<lparr>hb_down := hb_down h @ devices_down (snapshot (hb_live h) (tu_now u)), hb_last_liveness := tu_now u\<rparr>
      else h)"

definition hub_turn :: "(pyval \<Rightarrow> string) \<Rightarrow> hub_settings \<Rightarrow> 'o bridge_deps \<Rightarrow> turn \<Rightarrow> 'o hub \<Rightarrow> 'o hub run" where
  "hub_turn rp hs d u h =
     run_then (on_core (sender_run_once d (tu_send_ssid u) (tu_send_now u)) (poll_time hs u (poll_network hs u h)))
       (\<lambda>h. run_then (on_core (record_sender_run_once d (tu_rec_now u)) h)
       (\<lambda>h. run_then (reclaim_when_due rp hs u h)
       (\<lambda>h. (report_liveness hs u h, None))))"

section \<open>Histories\<close>

datatype hub_input =
    InEvent datetime raw_bytes
  | InStatus string rat string raw_bytes
  | InHeartbeat string rat string raw_bytes
  | InRecord string datetime raw_bytes
  | InTurn turn

record 'o hub_env =
  he_float :: "rat \<Rightarrow> string"
  he_repr :: "pyval \<Rightarrow> string"
  he_settings :: hub_settings
  he_deps :: "'o bridge_deps"

fun hub_input_run :: "'o hub_env \<Rightarrow> hub_input \<Rightarrow> 'o hub \<Rightarrow> 'o hub run" where
  "hub_input_run E (InEvent now raw) h = hub_event now raw h"
| "hub_input_run E (InStatus ts now topic raw) h = on_status (he_float E) (he_settings E) ts now topic raw h"
| "hub_input_run E (InHeartbeat ts now topic raw) h = on_heartbeat (he_float E) (he_settings E) ts now topic raw h"
| "hub_input_run E (InRecord ts now raw) h = on_record (he_float E) (he_repr E) (he_deps E) ts now raw h"
| "hub_input_run E (InTurn u) h = hub_turn (he_repr E) (he_settings E) (he_deps E) u h"

text \<open>
  A history of messages and turns. What a callback or a turn has done stays when it ends with an
  exception, because the stores are on disk.
\<close>

definition hub_run :: "'o hub_env \<Rightarrow> hub_input list \<Rightarrow> 'o hub \<Rightarrow> 'o hub" where
  "hub_run E ins h = fold (\<lambda>i h. fst (hub_input_run E i h)) ins h"

fun is_event_input :: "hub_input \<Rightarrow> bool" where
  "is_event_input (InEvent _ _) = True"
| "is_event_input _ = False"

section \<open>Facts\<close>

lemma on_core_fst [simp]: "fst (on_core f h) = h\<lparr>hb_core := fst (f (hb_core h))\<rparr>"
  by (simp add: on_core_def split: prod.split)

lemma on_file_core [simp]: "hb_core (fst (on_file f h)) = hb_core h"
  by (simp add: on_file_def split: sum.split)

text \<open>Deleting and evicting, seen from one row.\<close>

lemma inbox_delete_sent_get:
  assumes "inbox_wf t" and "inbox_get k t = Some e" and "ie_status e = Received"
  shows "inbox_get k (fst (inbox_delete_sent n t)) = Some e"
proof -
  have e: "e \<in> set t" "ie_event_id e = k" using assms(1,2) by (simp_all add: inbox_get_iff)
  let ?ids = "drop (nat (max 0 n)) (map ie_event_id (order_by_desc inbox_sent_age (filter (\<lambda>r. ie_status r = Sent) t)))"
  have "k \<notin> set ?ids"
  proof
    assume "k \<in> set ?ids"
    then have "k \<in> set (map ie_event_id (order_by_desc inbox_sent_age (filter (\<lambda>r. ie_status r = Sent) t)))"
      by (rule in_set_dropD)
    then obtain q where "q \<in> set t" "ie_status q = Sent" "ie_event_id q = k" by auto
    then have "inbox_get k t = Some q" using assms(1) by (simp add: inbox_get_iff)
    with \<open>ie_status q = Sent\<close> assms(2,3) show False by simp
  qed
  then have "e \<in> set (fst (inbox_delete_sent n t))" using e by (simp add: inbox_delete_sent_def Let_def sql_delete_keys_def)
  then show ?thesis using inbox_wf_delete_sent [OF assms(1)] e by (simp add: inbox_get_iff)
qed

lemma inbox_delete_sent_length: "length (fst (inbox_delete_sent n t)) \<le> length t"
  by (simp add: inbox_delete_sent_def Let_def sql_delete_keys_def)

lemma inbox_evict_length: "inbox_wf t \<Longrightarrow> 0 \<le> m \<Longrightarrow> length (fst (inbox_ring_evict m t)) = min (length t) (nat m)"
  using inbox_ring.evict_count(2) [of t m] by (simp add: inbox_wf_def)

lemma inbox_evict_small:
  assumes "inbox_wf t" and "int (length t) \<le> m"
  shows "inbox_get k (fst (inbox_ring_evict m t)) = inbox_get k t"
proof -
  let ?u = "fst (inbox_ring_evict m t)"
  have wf: "inbox_wf ?u" by (rule inbox_wf_ring_evict [OF assms(1)])
  have len: "length ?u = length t" using inbox_evict_length [OF assms(1), of m] assms(2) by simp
  have "distinct t" "distinct ?u" using assms(1) wf by (auto simp: inbox_wf_def distinct_map)
  with len inbox_ring.evict_subset [of m t] have "set ?u = set t"
    by (metis card_subset_eq distinct_card finite_set)
  then have "inbox_get k ?u = Some r \<longleftrightarrow> inbox_get k t = Some r" for r using assms(1) wf by (simp add: inbox_get_iff)
  then show ?thesis by (metis not_None_eq)
qed

text \<open>The part of an event that was captured, without what sending adds.\<close>

definition captured :: "inbox_event \<Rightarrow> inbox_event" where
  "captured e = e\<lparr>ie_status := Received, ie_profile_at_send := None, ie_mk_date_committed := None, ie_sent_at_iso := None,
     ie_retry_count := 0, ie_next_retry_at_iso := None, ie_last_error := None\<rparr>"

definition acked_in :: "string \<Rightarrow> string \<Rightarrow> bridge_msg list \<Rightarrow> bool" where
  "acked_in topic k out = (\<exists>mk ts. MAck topic k (Some mk) (Some ts) \<in> set out)"

definition waiting :: "string \<Rightarrow> string \<Rightarrow> inbox_event \<Rightarrow> 'o bridge \<Rightarrow> bool" where
  "waiting topic k e w = (acked_in topic k (br_out w)
     \<or> (\<exists>e'. inbox_get k (br_inbox w) = Some e' \<and> ie_status e' = Received \<and> captured e' = captured e))"

lemma waiting_frame:
  "waiting topic k e w \<Longrightarrow> inbox_get k (br_inbox w') = inbox_get k (br_inbox w) \<Longrightarrow> set (br_out w) \<subseteq> set (br_out w') \<Longrightarrow>
     waiting topic k e w'"
  by (auto simp: waiting_def acked_in_def)

lemma settle_event_waiting:
  assumes "waiting (bd_topic_ack d) k e w"
  shows "waiting (bd_topic_ack d) k e (fst (settle_event d now p m q r w))"
proof (cases "k = ie_event_id q")
  case False
  obtain ms where "br_out (fst (settle_event d now p m q r w)) = br_out w @ ms" using settle_event_out by blast
  with False show ?thesis by (intro waiting_frame [OF assms]) (simp_all add: settle_event_other)
next
  case True
  with assms show ?thesis
    by (auto simp: settle_event_def waiting_def acked_in_def Let_def inbox_update_retry_get captured_def split: sum.split)
qed

lemma send_event_waiting: "waiting (bd_topic_ack d) k e w \<Longrightarrow> waiting (bd_topic_ack d) k e (fst (send_event d now p prof q w))"
  using settle_event_waiting [of d k e _ now p _ q]
  by (cases rule: send_event_cases [of d now p prof q w]) (simp_all add: waiting_def)

definition core_ok :: "string \<Rightarrow> string \<Rightarrow> inbox_event \<Rightarrow> nat \<Rightarrow> 'o bridge \<Rightarrow> bool" where
  "core_ok topic k e n w = (inbox_wf (br_inbox w) \<and> length (br_inbox w) \<le> n \<and> waiting topic k e w)"

lemma send_event_length: "length (br_inbox (fst (send_event d now p prof q w))) = length (br_inbox w)"
  using send_event_stays [of w d now p prof q] unfolding sent_stays_def by (metis length_map)

lemma sender_run_core:
  assumes "core_ok (bd_topic_ack d) k e n w"
  shows "core_ok (bd_topic_ack d) k e n (fst (sender_run_once d out now w))"
proof (cases "sender_profile out now w")
  case None
  then show ?thesis using assms by (simp add: sender_run_idle core_ok_def waiting_def)
next
  case (Some pp)
  obtain p prof where pp: "pp = (p, prof)" by (cases pp)
  have "core_ok (bd_topic_ack d) k e n (fst (run_rows (send_event d now p prof)
      (inbox_iter_received_due (isoformat now) (br_inbox w)) (sender_start out now w)))"
    by (rule run_rows_invariant)
      (use assms in \<open>simp_all add: core_ok_def waiting_def send_event_wf send_event_length send_event_waiting [unfolded waiting_def]\<close>)
  then show ?thesis using sender_run_loop [OF Some [unfolded pp], of d] by simp
qed

lemma record_run_core:
  assumes "core_ok topic k e n w"
  shows "core_ok topic k e n (fst (record_sender_run_once d now w))"
proof -
  have ok: "core_ok topic k e n (fst (send_record d now p prof r u))" if "core_ok topic k e n u" for p prof r u
  proof -
    have "br_inbox (fst (send_record d now p prof r u)) = br_inbox u"
      by (rule send_record_cases [of d prof r u now p]) (simp_all add: settle_record_inbox)
    moreover obtain ms where "br_out (fst (send_record d now p prof r u)) = br_out u @ ms"
      using record_loop.step_sent by blast
    ultimately show ?thesis using that by (auto simp: core_ok_def intro: waiting_frame)
  qed
  have "core_ok topic k e n (fst (run_rows (send_record d now p prof) rs u))" if "core_ok topic k e n u" for p prof rs u
    by (rule run_rows_invariant [where I = "core_ok topic k e n"]) (simp_all add: ok that)
  moreover have "core_ok topic k e n (w\<lparr>br_breaker := b\<rparr>)" for b using assms by (simp add: core_ok_def waiting_def)
  ultimately show ?thesis using assms
    by (auto simp: record_sender_run_once_def Let_def split: option.split prod.split sum.split)
qed

lemma rec_receive_core:
  assumes "core_ok topic k e n w"
  shows "core_ok topic k e n (fst (rec_receive d r w))"
proof -
  have "br_inbox (fst (rec_receive d r w)) = br_inbox w" "\<exists>ms. br_out (fst (rec_receive d r w)) = br_out w @ ms"
    by (auto simp: rec_receive_def split: option.split sum.split record_status.split)
  with assms show ?thesis by (auto simp: core_ok_def intro: waiting_frame)
qed

lemma on_event_core:
  assumes "core_ok topic k e n w"
  shows "core_ok topic k e (Suc n) (fst (on_event now p raw w))"
proof -
  let ?e = "received_event (nw_cached (br_network w)) (isoformat now) p raw"
  have "core_ok topic k e (Suc n) (w\<lparr>br_inbox := t\<rparr>)" if t: "inbox_insert_received ?e (br_inbox w) = Inr t" for t
  proof -
    have "length t \<le> Suc (length (br_inbox w))"
      using t by (auto simp: inbox_insert_received_def sql_insert_ignore_def split: if_splits)
    moreover have "inbox_wf (br_inbox w)" "ie_status ?e = Received" using assms by (simp_all add: core_ok_def received_event_def)
    then have "inbox_wf t" using inbox_wf_insert t by blast
    moreover have "inbox_get k t = Some e'" if "inbox_get k (br_inbox w) = Some e'" for e'
      using inbox_insert_get [OF t, of k] that by simp
    then have "waiting topic k e (w\<lparr>br_inbox := t\<rparr>)"
      using assms by (fastforce simp add: core_ok_def waiting_def)
    ultimately show ?thesis using assms by (simp add: core_ok_def)
  qed
  moreover have "core_ok topic k e (Suc n) w" using assms by (simp add: core_ok_def)
  ultimately show ?thesis by (auto simp: on_event_def Let_def split: sum.split)
qed

lemma hub_event_core:
  "core_ok topic k e n (hb_core h) \<Longrightarrow> core_ok topic k e (Suc n) (hb_core (fst (hub_event now raw h)))"
  using on_event_core [of topic k e n "hb_core h"]
  by (auto simp: hub_event_def on_event_message_def core_ok_def split: sum.split py_exc.split)

text \<open>What \<open>reclaim\<close> does to the two stores does not depend on the log file.\<close>

lemma reclaim_core:
  assumes "core_ok topic k e n (hb_core h)" and "int n \<le> hs_max_rows hs"
  shows "core_ok topic k e n (hb_core (fst (reclaim rp hs u h)))"
proof -
  obtain h1 ids where h1: "delete_sent_rows (keep_sent_for_free (tu_free u)) h = (h1, ids)" by (rule prod.exhaust)
  have "br_inbox (hb_core h1) = fst (inbox_delete_sent (keep_sent_for_free (tu_free u)) (br_inbox (hb_core h)))"
    and out: "br_out (hb_core h1) = br_out (hb_core h)"
    using h1 by (auto simp: delete_sent_rows_def split: prod.splits)
  then have "core_ok topic k e n (hb_core h1)"
    using assms(1) inbox_delete_sent_length [of "keep_sent_for_free (tu_free u)" "br_inbox (hb_core h)"]
    by (auto simp: core_ok_def inbox_wf_delete_sent waiting_def inbox_delete_sent_get)
  then have "core_ok topic k e n (hb_core (fst (drop_confirmed rp ids u h1)))" by (simp add: drop_confirmed_def)
  moreover have "core_ok topic k e n (hb_core (evict_rows hs (unlink_when_low u v)))" if v: "core_ok topic k e n (hb_core v)" for v
  proof -
    have "int (length (br_inbox (hb_core v))) \<le> hs_max_rows hs" using v assms(2) by (simp add: core_ok_def)
    moreover have "0 \<le> hs_max_rows hs" using assms(2) by simp
    ultimately show ?thesis using v
      by (auto simp: evict_rows_def unlink_when_low_def core_ok_def inbox_wf_ring_evict inbox_evict_length waiting_def inbox_evict_small
          split: option.split)
  qed
  ultimately show ?thesis
    unfolding reclaim_def h1 prod.case by (intro run_then_invariant [where I = "\<lambda>v. core_ok topic k e n (hb_core v)"]) simp_all
qed

lemma hub_turn_core:
  assumes "core_ok (bd_topic_ack d) k e n (hb_core h)" and "int n \<le> hs_max_rows hs"
  shows "core_ok (bd_topic_ack d) k e n (hb_core (fst (hub_turn rp hs d u h)))"
proof -
  let ?I = "\<lambda>v. core_ok (bd_topic_ack d) k e n (hb_core v)"
  have "?I (poll_time hs u (poll_network hs u h))"
    using assms(1) by (simp add: poll_time_def poll_network_def core_ok_def waiting_def)
  moreover have "?I (fst (reclaim_when_due rp hs u v))" if "?I v" for v
    unfolding reclaim_when_due_def
    using that reclaim_core [OF that assms(2), of rp u] by (auto simp: run_then_fst split: option.split)
  moreover have "?I (report_liveness hs u v)" if "?I v" for v using that by (simp add: report_liveness_def)
  ultimately show ?thesis
    unfolding hub_turn_def by (intro run_then_invariant [where I = ?I]) (simp_all add: sender_run_core record_run_core)
qed

lemma hub_input_core:
  assumes "core_ok (bd_topic_ack (he_deps E)) k e n (hb_core h)" and "int n \<le> hs_max_rows (he_settings E)"
  shows "core_ok (bd_topic_ack (he_deps E)) k e (n + (if is_event_input i then 1 else 0)) (hb_core (fst (hub_input_run E i h)))"
proof (cases i)
  case (InEvent now raw)
  then show ?thesis using hub_event_core [OF assms(1)] by simp
next
  case (InStatus ts now topic raw)
  then show ?thesis using assms(1) by (auto simp: on_status_def Let_def split: option.split)
next
  case (InHeartbeat ts now topic raw)
  then show ?thesis using assms(1) by (auto simp: on_heartbeat_def Let_def split: option.split sum.split)
next
  case (InRecord ts now raw)
  then show ?thesis using assms(1) rec_receive_core [OF assms(1)]
    by (auto simp: on_record_def run_then_fst split: option.split sum.split py_exc.split)
next
  case (InTurn u)
  then show ?thesis using hub_turn_core [OF assms] by simp
qed

lemma hub_run_core:
  "core_ok (bd_topic_ack (he_deps E)) k e n (hb_core h) \<Longrightarrow>
     int (n + length (filter is_event_input ins)) \<le> hs_max_rows (he_settings E) \<Longrightarrow>
     core_ok (bd_topic_ack (he_deps E)) k e (n + length (filter is_event_input ins)) (hb_core (hub_run E ins h))"
proof (induction ins arbitrary: n h)
  case Nil
  then show ?case by (simp add: hub_run_def)
next
  case (Cons i ins)
  have "core_ok (bd_topic_ack (he_deps E)) k e (n + (if is_event_input i then 1 else 0)) (hb_core (fst (hub_input_run E i h)))"
    using Cons.prems by (intro hub_input_core) auto
  from Cons.IH [OF this] Cons.prems(2) show ?case by (cases "is_event_input i") (simp_all add: hub_run_def)
qed

section \<open>A small hub\<close>

definition example_settings :: hub_settings where
  "example_settings = \<lparr>hs_topic_event = ''presence/event'', hs_status_prefix = ''presence/status/'',
     hs_hb_prefix = ''presence/heartbeat/'', hs_hb_timeout = 60, hs_report_interval = 30,
     hs_record_topic = ''presence/record'', hs_log_path = ''/var/log/presence-logger/child-mqtt.log'', hs_net_interval = 5,
     hs_time_interval = 10, hs_stats_interval = 60, hs_max_rows = 3, hs_rec_max_rows = 3\<rparr>"

definition example_hub :: "unit hub" where
  "example_hub = \<lparr>hb_core = example_bridge, hb_live = new_live_tracker 60,
     hb_file = \<lparr>mfl_enabled = True, mfl_error = None, mfl_file = []\<rparr>, hb_logs = Some [], hb_last_network = 0, hb_last_time = 0,
     hb_last_stats = 0, hb_last_liveness = 0, hb_down = []\<rparr>"

definition example_turn :: turn where
  "example_turn = \<lparr>tu_now = 100, tu_ssid = CmdDone 0 ''yes:fab'', tu_sync = CmdNotFound, tu_mono_ns = 7, tu_wall = example_now,
     tu_send_ssid = CmdDone 0 ''yes:fab'', tu_send_now = example_now, tu_rec_now = example_now, tu_free = Some 1000,
     tu_can_unlink = (\<lambda>_. True), tu_readable = True, tu_replaced = True\<rparr>"

definition example_env :: "unit hub_env" where
  "example_env = \<lparr>he_float = (\<lambda>_. []), he_repr = (\<lambda>_. []), he_settings = example_settings,
     he_deps = example_deps (HttpUnreachable ''timed out'')\<rparr>"

section \<open>Properties\<close>

text \<open>C1: while the inbox has room for the events that arrive, no history of messages, turns of the main
  loop, failures and reclaims loses a received event: it is still waiting in the inbox with all that
  was captured of it, or its ACK was handed out.\<close>

theorem received_event_waits_or_is_acked:
  assumes "inbox_wf (br_inbox (hb_core h))" and "inbox_get k (br_inbox (hb_core h)) = Some e" and "ie_status e = Received"
    and "int (length (br_inbox (hb_core h)) + length (filter is_event_input ins)) \<le> hs_max_rows (he_settings E)"
  shows "(\<exists>mk ts. MAck (bd_topic_ack (he_deps E)) k (Some mk) (Some ts) \<in> set (br_out (hb_core (hub_run E ins h))))
    \<or> (\<exists>e'. inbox_get k (br_inbox (hb_core (hub_run E ins h))) = Some e' \<and> ie_status e' = Received \<and> captured e' = captured e)"
proof -
  have "core_ok (bd_topic_ack (he_deps E)) k e (length (br_inbox (hb_core h))) (hb_core h)"
    using assms(1-3) by (simp add: core_ok_def waiting_def)
  from hub_run_core [OF this assms(4)] show ?thesis by (simp add: core_ok_def waiting_def acked_in_def)
qed

theorem received_event_waits_or_is_acked_witness:
  "(\<exists>mk ts. MAck (bd_topic_ack (he_deps example_env)) ''e1'' (Some mk) (Some ts)
       \<in> set (br_out (hb_core (hub_run example_env [InTurn example_turn, InEvent example_now (Utf8 ''x'')] example_hub))))
   \<or> (\<exists>e'. inbox_get ''e1'' (br_inbox (hb_core (hub_run example_env [InTurn example_turn, InEvent example_now (Utf8 ''x'')] example_hub))) = Some e'
       \<and> ie_status e' = Received \<and> captured e' = captured example_event)"
  by (rule received_event_waits_or_is_acked)
    (simp_all add: example_hub_def example_inbox_wf, simp_all add: example_bridge_def inbox_get_def example_event_def example_env_def example_settings_def)

text \<open>The ids Oracle has confirmed.\<close>

definition confirmed_ids :: "'o hub \<Rightarrow> string set" where
  "confirmed_ids h = ie_event_id ` {e \<in> set (br_inbox (hb_core h)). ie_status e = Sent}
     \<union> re_event_id ` {r \<in> set (br_records (hb_core h)). re_status r = RSent}"

lemma delete_sent_rows_ids: "delete_sent_rows keep h = (h', ids) \<Longrightarrow> set ids \<subseteq> confirmed_ids h"
  by (auto simp: delete_sent_rows_def inbox_delete_sent_def rec_delete_sent_def confirmed_ids_def Let_def dest!: in_set_dropD)

lemma delete_sent_rows_wf:
  assumes "delete_sent_rows keep h = (h', ids)" and "inbox_wf (br_inbox (hb_core h))" and "rec_wf (br_records (hb_core h))"
  shows "inbox_wf (br_inbox (hb_core h'))" and "rec_wf (br_records (hb_core h'))"
  using assms inbox_wf_delete_sent [of "br_inbox (hb_core h)" keep] rec_wf_delete_sent [of "br_records (hb_core h)" keep]
  by (auto simp: delete_sent_rows_def split: prod.splits)

lemma delete_sent_rows_zero:
  assumes "delete_sent_rows 0 h = (h', ids)"
  shows "\<forall>e \<in> set (br_inbox (hb_core h')). ie_status e \<noteq> Sent" and "\<forall>r \<in> set (br_records (hb_core h')). re_status r \<noteq> RSent"
  using assms by (auto simp: delete_sent_rows_def inbox_delete_sent_def rec_delete_sent_def Let_def sql_delete_keys_def)

lemma delete_sent_rows_file [simp]: "hb_file (fst (delete_sent_rows keep h)) = hb_file h"
  by (simp add: delete_sent_rows_def split: prod.split)

text \<open>A line that goes belongs to a record one of the ids confirms.\<close>

definition confirmed_line :: "(pyval \<Rightarrow> string) \<Rightarrow> string set \<Rightarrow> string \<Rightarrow> bool" where
  "confirmed_line rp ids l = (\<exists>d p v. json_loads (strip l) = Inr (PDict d) \<and> dict_get d ''kind'' = Some (PStr ''record'')
     \<and> dict_get d ''payload'' = Some (PDict p) \<and> dict_get p ''event_id'' = Some v \<and> py_str rp v \<in> ids)"

lemma line_dropped_confirmed:
  assumes "line_fate rp ids l = Inr LineDropped"
  shows "confirmed_line rp ids l"
proof -
  obtain d where d: "json_loads (strip l) = Inr (PDict d)" "dict_get d ''kind'' = Some (PStr ''record'')"
    using assms by (auto simp: line_fate_def Let_def split: if_splits sum.splits py_exc.splits pyval.splits)
  have "py_truthy (case dict_get d ''payload'' of Some (PDict p) \<Rightarrow> (case dict_get p ''event_id'' of None \<Rightarrow> PNone | Some v \<Rightarrow> v) | _ \<Rightarrow> PNone)
     \<and> py_str rp (case dict_get d ''payload'' of Some (PDict p) \<Rightarrow> (case dict_get p ''event_id'' of None \<Rightarrow> PNone | Some v \<Rightarrow> v) | _ \<Rightarrow> PNone) \<in> ids"
    using assms d by (simp add: line_fate_def Let_def split: if_splits)
  with d show ?thesis
    by (auto simp: confirmed_line_def py_truthy_def split: option.splits pyval.splits)
qed

lemma drop_confirmed_file:
  assumes "drop_confirmed rp ids u h = (h', None)" and "mfl_enabled (hb_file h)"
  obtains "mfl_file (hb_file h') = mfl_file (hb_file h)"
  | P where "mfl_file (hb_file h') = concat (map (\<lambda>l. l @ [CHR 0x0A]) (filter P (splitlines (mfl_file (hb_file h)))))"
      and "\<And>l. l \<in> set (splitlines (mfl_file (hb_file h))) \<Longrightarrow> \<not> P l \<Longrightarrow> strip l = [] \<or> confirmed_line rp (set ids) l"
proof (cases "ids = []")
  case True
  with assms(1) that(1) show thesis by (simp add: drop_confirmed_def)
next
  case False
  then obtain n m where m: "drop_records rp (set ids) (tu_readable u) (tu_replaced u) (hb_file h) = Inr (n, m)" "hb_file h' = m"
    using assms(1) by (auto simp: drop_confirmed_def on_file_def py_bind_Inr_iff split: sum.splits)
  note law = drop_records_keeps_the_rest [OF m(1) assms(2)]
  show thesis
  proof (cases "tu_readable u \<and> tu_replaced u \<and> n \<noteq> 0")
    case True
    let ?ls = "splitlines (mfl_file (hb_file h))"
    obtain kept dropped where k: "filter_loop rp (set ids) ?ls = Inr (kept, dropped)"
      using m(1) True assms(2) False by (auto simp: drop_records_def filter_out_confirmed_records_def py_bind_Inr_iff)
    have "strip l = [] \<or> confirmed_line rp (set ids) l" if l: "l \<in> set ?ls" "line_fate rp (set ids) l \<noteq> Inr LineKept" for l
    proof -
      obtain f where f: "line_fate rp (set ids) l = Inr f" using filter_loop_fates [OF k] l(1) by blast
      show ?thesis
      proof (cases f)
        case LineBlank
        with f show ?thesis by (auto simp: line_fate_def Let_def split: if_splits sum.splits py_exc.splits pyval.splits)
      qed (use f l line_dropped_confirmed in auto)
    qed
    with law True False m(2) show thesis by (intro that(2)) auto
  next
    case F: False
    with law False m(2) have "m = hb_file h" by auto
    with m(2) that(1) show thesis by simp
  qed
qed

lemma confirmed_line_mono: "confirmed_line rp ids l \<Longrightarrow> ids \<subseteq> ids' \<Longrightarrow> confirmed_line rp ids' l"
  by (auto simp: confirmed_line_def)

text \<open>C12: a reclaim leaves both stores within their bounds; of the children's log it only takes blank
  lines and records whose id Oracle has confirmed, and keeps the others in order; when the disk is
  almost full no confirmed row is left in either store.\<close>

theorem reclaim_frees_only_confirmed:
  assumes "reclaim rp hs u h = (h', None)" and "mfl_enabled (hb_file h)"
    and "inbox_wf (br_inbox (hb_core h))" and "rec_wf (br_records (hb_core h))"
    and "0 \<le> hs_max_rows hs" and "0 \<le> hs_rec_max_rows hs"
  shows "int (length (br_inbox (hb_core h'))) \<le> hs_max_rows hs
    \<and> int (length (br_records (hb_core h'))) \<le> hs_rec_max_rows hs
    \<and> (mfl_file (hb_file h') = mfl_file (hb_file h)
       \<or> (\<exists>P. mfl_file (hb_file h') = concat (map (\<lambda>l. l @ [CHR 0x0A]) (filter P (splitlines (mfl_file (hb_file h)))))
            \<and> (\<forall>l \<in> set (splitlines (mfl_file (hb_file h))). P l \<or> strip l = [] \<or> confirmed_line rp (confirmed_ids h) l)))
    \<and> (\<forall>f. tu_free u = Some f \<and> f < CRITICAL_FREE_BYTES \<longrightarrow>
         (\<forall>e \<in> set (br_inbox (hb_core h')). ie_status e \<noteq> Sent) \<and> (\<forall>r \<in> set (br_records (hb_core h')). re_status r \<noteq> RSent))"
proof -
  obtain h1 ids where h1: "delete_sent_rows (keep_sent_for_free (tu_free u)) h = (h1, ids)" by (rule prod.exhaust)
  obtain h2 where h2: "drop_confirmed rp ids u h1 = (h2, None)" and h': "h' = evict_rows hs (unlink_when_low u h2)"
    using assms(1) by (auto simp: reclaim_def h1 run_then_def split: prod.splits option.splits)
  have core: "hb_core h2 = hb_core h1" using arg_cong [OF h2, of fst] by (auto simp: drop_confirmed_def split: if_splits)
  have frame: "hb_file h' = hb_file h2" "hb_core (unlink_when_low u h2) = hb_core h1"
    by (simp_all add: h' evict_rows_def unlink_when_low_def core)
  have f1: "hb_file h1 = hb_file h" using delete_sent_rows_file [of "keep_sent_for_free (tu_free u)" h] by (simp add: h1)
  note wf = delete_sent_rows_wf [OF h1 assms(3,4)]
  have rows: "br_inbox (hb_core h') = fst (inbox_ring_evict (hs_max_rows hs) (br_inbox (hb_core h1)))"
    "br_records (hb_core h') = fst (rec_ring_evict (hs_rec_max_rows hs) (br_records (hb_core h1)))"
    by (simp_all add: h' evict_rows_def frame(2))
  have "int (length (br_inbox (hb_core h'))) \<le> hs_max_rows hs" using inbox_evict_length [OF wf(1) assms(5)] assms(5) by (simp add: rows)
  moreover have "int (length (br_records (hb_core h'))) \<le> hs_rec_max_rows hs"
    using rec_ring.evict_count(2) [of "br_records (hb_core h1)" "hs_rec_max_rows hs"] wf(2) assms(6) by (simp add: rows rec_wf_def)
  moreover have "mfl_file (hb_file h') = mfl_file (hb_file h)
       \<or> (\<exists>P. mfl_file (hb_file h') = concat (map (\<lambda>l. l @ [CHR 0x0A]) (filter P (splitlines (mfl_file (hb_file h)))))
            \<and> (\<forall>l \<in> set (splitlines (mfl_file (hb_file h))). P l \<or> strip l = [] \<or> confirmed_line rp (confirmed_ids h) l))"
    by (rule drop_confirmed_file [OF h2])
      (use assms(2) f1 frame confirmed_line_mono [OF _ delete_sent_rows_ids [OF h1]] in \<open>auto, metis\<close>)
  moreover have "(\<forall>e \<in> set (br_inbox (hb_core h')). ie_status e \<noteq> Sent) \<and> (\<forall>r \<in> set (br_records (hb_core h')). re_status r \<noteq> RSent)"
    if f: "tu_free u = Some f \<and> f < CRITICAL_FREE_BYTES" for f
  proof -
    have "keep_sent_for_free (tu_free u) = 0"
      using f by (simp add: keep_sent_for_free_def KEEP_SENT_CRITICAL_def CRITICAL_FREE_BYTES_def WARN_FREE_BYTES_def)
    with delete_sent_rows_zero h1 have "\<forall>e \<in> set (br_inbox (hb_core h1)). ie_status e \<noteq> Sent" "\<forall>r \<in> set (br_records (hb_core h1)). re_status r \<noteq> RSent"
      by metis+
    then show ?thesis
      using inbox_ring.evict_subset [of "hs_max_rows hs" "br_inbox (hb_core h1)"] rec_ring.evict_subset [of "hs_rec_max_rows hs" "br_records (hb_core h1)"]
      by (auto simp: rows)
  qed
  ultimately show ?thesis by blast
qed

theorem reclaim_frees_only_confirmed_witness:
  "int (length (br_inbox (hb_core (evict_rows example_settings (unlink_when_low example_turn (fst (delete_sent_rows 0 example_hub))))))) \<le> 3"
proof -
  have free: "keep_sent_for_free (tu_free example_turn) = 0"
    by (simp add: keep_sent_for_free_def KEEP_SENT_CRITICAL_def CRITICAL_FREE_BYTES_def WARN_FREE_BYTES_def example_turn_def)
  have none: "snd (delete_sent_rows 0 example_hub) = []"
    by (simp add: delete_sent_rows_def rec_delete_sent_def inbox_delete_sent_def example_hub_def example_bridge_def example_event_def
        order_by_desc_def)
  have "reclaim (\<lambda>_. []) example_settings example_turn example_hub
      = (evict_rows example_settings (unlink_when_low example_turn (fst (delete_sent_rows 0 example_hub))), None)"
    using none by (cases "delete_sent_rows 0 example_hub") (simp add: reclaim_def free drop_confirmed_def run_then_def)
  from reclaim_frees_only_confirmed [OF this] show ?thesis
    using example_inbox_wf by (simp add: example_hub_def example_settings_def) (simp add: example_bridge_def)
qed

end
