(* ===== verification/Detector_Buffer.thy ===== *)
theory Detector_Buffer
  imports Inbox
begin

text \<open>
  \<open>services/detector/src/buffer.py\<close>: the durable table of the detector's own events, from the moment
  they are made until the bridge acknowledges them.
\<close>

datatype pending_status = Pending | BSent | Acked

record pending_event =
  pe_event_id :: string
  pe_event_type :: string
  pe_mk_date :: "string option"
  pe_monotonic_ns :: int
  pe_wall_synced :: bool
  pe_score :: "rat option"
  pe_status :: pending_status
  pe_created_at_iso :: string
  pe_retry_count :: int
  pe_next_retry_at_iso :: "string option"
  pe_last_publish_at_iso :: "string option"

type_synonym pending_events = "pending_event list"

definition buf_check :: "pending_event \<Rightarrow> bool" where
  "buf_check e = (pe_event_type e = ''ENTER'' \<or> pe_event_type e = ''EXIT'')"

definition buf_insert_pending :: "pending_event \<Rightarrow> pending_events \<Rightarrow> pending_events py" where
  "buf_insert_pending e t =
     (if \<not> sqlite_int_ok (pe_monotonic_ns e) \<or> \<not> sqlite_int_ok (pe_retry_count e) then Inl OverflowError
      else if \<not> buf_check e then Inl IntegrityError
      else Inr (sql_insert_ignore pe_event_id e t))"

definition buf_mark_sent :: "string \<Rightarrow> pending_events \<Rightarrow> pending_events" where
  "buf_mark_sent event_id t = sql_update (\<lambda>r. pe_event_id r = event_id) (\<lambda>r. r\<lparr>pe_status := BSent\<rparr>) t"

definition buf_mark_acked :: "string \<Rightarrow> pending_events \<Rightarrow> pending_events" where
  "buf_mark_acked event_id t = sql_update (\<lambda>r. pe_event_id r = event_id) (\<lambda>r. r\<lparr>pe_status := Acked\<rparr>) t"

text \<open>The third column takes the second argument too, as the code binds it.\<close>

definition buf_update_retry_metadata :: "string \<Rightarrow> int \<Rightarrow> string \<Rightarrow> pending_events \<Rightarrow> pending_events" where
  "buf_update_retry_metadata event_id retry_count next_retry_at_iso t =
     sql_update (\<lambda>r. pe_event_id r = event_id)
       (\<lambda>r. r\<lparr>pe_retry_count := retry_count, pe_next_retry_at_iso := Some next_retry_at_iso,
              pe_last_publish_at_iso := Some next_retry_at_iso\<rparr>) t"

definition buf_get :: "string \<Rightarrow> pending_events \<Rightarrow> pending_event option" where
  "buf_get event_id t = find (\<lambda>r. pe_event_id r = event_id) t"

definition buf_iter_due_for_retry :: "string \<Rightarrow> pending_status \<Rightarrow> pending_events \<Rightarrow> pending_event list" where
  "buf_iter_due_for_retry now_iso status t =
     order_by pe_created_at_iso
       (filter (\<lambda>r. pe_status r = status \<and> due_at (pe_next_retry_at_iso r) now_iso) t)"

definition buf_all_rows :: "pending_events \<Rightarrow> pending_event list" where
  "buf_all_rows t = order_by pe_created_at_iso t"

definition buf_count :: "pending_events \<Rightarrow> nat" where
  "buf_count t = length t"

definition buf_ring_evict :: "int \<Rightarrow> pending_events \<Rightarrow> pending_events \<times> nat" where
  "buf_ring_evict max_rows t =
     ring_evict_rows pe_event_id pe_status pe_created_at_iso [Acked, BSent, Pending] max_rows t"

section \<open>Facts\<close>

definition buf_wf :: "pending_events \<Rightarrow> bool" where
  "buf_wf t = (distinct (map pe_event_id t) \<and> (\<forall>r \<in> set t. buf_check r))"

lemma buf_wf_empty [simp]: "buf_wf []"
  by (simp add: buf_wf_def)

lemma buf_update_keys [row_laws]:
  "map pe_event_id (buf_mark_sent i t) = map pe_event_id t"
  "map pe_event_id (buf_mark_acked i t) = map pe_event_id t"
  "map pe_event_id (buf_update_retry_metadata i n x t) = map pe_event_id t"
  by (simp_all add: buf_mark_sent_def buf_mark_acked_def buf_update_retry_metadata_def sql_update_keys)

lemma buf_update_get:
  "buf_get k (buf_mark_sent i t) = (if k = i then map_option (\<lambda>r. r\<lparr>pe_status := BSent\<rparr>) (buf_get k t) else buf_get k t)"
  "buf_get k (buf_mark_acked i t) = (if k = i then map_option (\<lambda>r. r\<lparr>pe_status := Acked\<rparr>) (buf_get k t) else buf_get k t)"
  "buf_get k (buf_update_retry_metadata i n x t)
     = (if k = i then map_option (\<lambda>r. r\<lparr>pe_retry_count := n, pe_next_retry_at_iso := Some x,
          pe_last_publish_at_iso := Some x\<rparr>) (buf_get k t) else buf_get k t)"
  by (simp_all add: buf_get_def buf_mark_sent_def buf_mark_acked_def buf_update_retry_metadata_def sql_update_find)

lemma buf_insert_get:
  "buf_insert_pending e t = Inr t' \<Longrightarrow>
     buf_get k t' = (case buf_get k t of Some x \<Rightarrow> Some x | None \<Rightarrow> if pe_event_id e = k then Some e else None)"
  by (auto simp: buf_insert_pending_def buf_get_def sql_insert_find split: if_splits)

lemma buf_get_iff: "buf_wf t \<Longrightarrow> buf_get k t = Some r \<longleftrightarrow> r \<in> set t \<and> pe_event_id r = k"
  by (simp add: buf_get_def buf_wf_def find_key_Some_iff)

lemma buf_get_key: "buf_get k t = Some r \<Longrightarrow> pe_event_id r = k"
  by (auto simp: buf_get_def find_Some_iff)

lemma buf_wf_update:
  "buf_wf t \<Longrightarrow> buf_wf (buf_mark_sent i t)" "buf_wf t \<Longrightarrow> buf_wf (buf_mark_acked i t)"
  "buf_wf t \<Longrightarrow> buf_wf (buf_update_retry_metadata i n x t)"
  by (auto simp: buf_wf_def buf_update_keys)
    (auto simp: buf_mark_sent_def buf_mark_acked_def buf_update_retry_metadata_def sql_update_def buf_check_def)

lemma buf_wf_insert: "buf_wf t \<Longrightarrow> buf_insert_pending e t = Inr t' \<Longrightarrow> buf_wf t'"
  by (auto simp: buf_insert_pending_def buf_wf_def sql_insert_ignore_def split: if_splits)

lemma buf_status_set: "s \<in> set [Acked, BSent, Pending]"
  by (cases s) simp_all

interpretation buf_ring: bounded_store pe_event_id pe_status pe_created_at_iso "[Acked, BSent, Pending]" buf_ring_evict
  by unfold_locales (simp add: buf_ring_evict_def, rule buf_status_set, simp)

lemma buf_due_member:
  "r \<in> set (buf_iter_due_for_retry now st t) \<longleftrightarrow> r \<in> set t \<and> pe_status r = st \<and> due_at (pe_next_retry_at_iso r) now"
  by (auto simp: buf_iter_due_for_retry_def)

lemma buf_due_distinct: "buf_wf t \<Longrightarrow> distinct (map pe_event_id (buf_iter_due_for_retry now st t))"
  by (simp add: buf_iter_due_for_retry_def distinct_order_by distinct_map_filter buf_wf_def)

section \<open>Properties\<close>

text \<open>Eviction brings the buffer down to its bound, and an event the bridge has not acknowledged
  goes only when every acknowledged one is gone, one never published only when no published one is
  left either.\<close>

theorem buffer_ring_evict_unacked_last:
  assumes "buf_wf t" and "0 \<le> m" and "r \<in> set t" and "r \<notin> set (fst (buf_ring_evict m t))"
    and "q \<in> set (fst (buf_ring_evict m t))"
  shows "length (fst (buf_ring_evict m t)) = min (length t) (nat m)
    \<and> set (fst (buf_ring_evict m t)) \<subseteq> set t
    \<and> (pe_status r = BSent \<longrightarrow> pe_status q \<noteq> Acked)
    \<and> (pe_status r = Pending \<longrightarrow> pe_status q = Pending)"
proof -
  have d: "distinct (map pe_event_id t)" using assms(1) by (simp add: buf_wf_def)
  have order: "pe_status q \<noteq> u" if "[Acked, BSent, Pending] = us @ pe_status r # vs" "u \<in> set us" for us u vs
    using buf_ring.evict_keeps_later_status [OF d that assms(3) refl assms(4,5)] .
  have "pe_status q \<noteq> Acked" if "pe_status r = BSent" using order [of "[Acked]" "[Pending]" Acked] that by simp
  moreover have "pe_status q \<noteq> Acked \<and> pe_status q \<noteq> BSent" if "pe_status r = Pending"
    using order [of "[Acked, BSent]" "[]" Acked] order [of "[Acked, BSent]" "[]" BSent] that by simp
  ultimately show ?thesis
    using buf_ring.evict_count [OF d assms(2)] buf_ring.evict_subset [of m t]
    by (cases "pe_status q") auto
qed

definition example_pending :: "string \<Rightarrow> pending_status \<Rightarrow> pending_event" where
  "example_pending i s = \<lparr>pe_event_id = i, pe_event_type = ''ENTER'', pe_mk_date = None, pe_monotonic_ns = 1,
     pe_wall_synced = False, pe_score = None, pe_status = s, pe_created_at_iso = i, pe_retry_count = 0,
     pe_next_retry_at_iso = None, pe_last_publish_at_iso = None\<rparr>"

theorem buffer_ring_evict_unacked_last_witness:
  "length (fst (buf_ring_evict 1 [example_pending ''a'' Pending, example_pending ''b'' Acked])) = 1"
proof -
  let ?t = "[example_pending ''a'' Pending, example_pending ''b'' Acked]"
  have evict: "fst (buf_ring_evict 1 ?t) = [example_pending ''a'' Pending]"
    by (simp add: buf_ring_evict_def ring_evict_rows_def example_pending_def order_by_def sql_delete_keys_def)
  have "buf_wf ?t" by (simp add: buf_wf_def example_pending_def buf_check_def)
  then show ?thesis
    using buffer_ring_evict_unacked_last [of ?t 1 "example_pending ''b'' Acked" "example_pending ''a'' Pending"]
    by (simp add: evict)
qed

end
