(* ===== verification/Presence_Fsm.thy ===== *)
theory Presence_Fsm
  imports Py_Value
begin

text \<open>
  \<open>services/detector/src/fsm.py\<close> and \<open>inference.py\<close>: from the scores of a frame to ENTER and EXIT.
  Scores and thresholds are exact rationals; the conversion of a threshold to nanoseconds truncates.
\<close>

section \<open>One frame\<close>

record detection_result =
  dr_has_person :: bool
  dr_top_score :: rat
  dr_count :: nat

text \<open>The backend's detections: for each one its categories, by name and score.\<close>

type_synonym detections = "(string \<times> rat) list list"

definition see_category :: "string \<Rightarrow> string \<times> rat \<Rightarrow> rat \<times> nat \<Rightarrow> rat \<times> nat" where
  "see_category target = (\<lambda>(name, score) (best, n).
     if name = target \<and> best < score then (score, n + 1) else (best, n))"

definition detect :: "rat \<Rightarrow> string \<Rightarrow> detections \<Rightarrow> detection_result" where
  "detect threshold target ds =
     (case fold (fold (see_category target)) ds (0 :: rat, 0 :: nat) of (best, n) \<Rightarrow>
        \<lparr>dr_has_person = (threshold \<le> best), dr_top_score = best, dr_count = n\<rparr>)"

section \<open>The state machine\<close>

datatype presence = ABSENT | PRESENT

definition event_type_of :: "presence \<Rightarrow> string" where
  "event_type_of s = (if s = PRESENT then ''ENTER'' else ''EXIT'')"

record fsm_config =
  fc_enter_seconds :: rat
  fc_exit_seconds :: rat

record observation =
  ob_present :: bool
  ob_score :: rat
  ob_mono_ns :: int

record transition =
  tr_from :: presence
  tr_to :: presence
  tr_event_type :: string
  tr_mono_ns :: int
  tr_duration_ms :: int
  tr_score :: rat
  tr_reason :: "string option"

record fsm =
  fs_config :: fsm_config
  fs_state :: presence
  fs_candidate :: "presence option"
  fs_started :: "int option"
  fs_score :: rat

definition new_fsm :: "fsm_config \<Rightarrow> fsm" where
  "new_fsm c = \<lparr>fs_config = c, fs_state = ABSENT, fs_candidate = None, fs_started = None, fs_score = 0\<rparr>"

definition observed :: "observation \<Rightarrow> presence" where
  "observed obs = (if ob_present obs then PRESENT else ABSENT)"

definition threshold_ns :: "fsm_config \<Rightarrow> presence \<Rightarrow> int" where
  "threshold_ns c s = trunc_rat ((if s = PRESENT then fc_enter_seconds c else fc_exit_seconds c) * 1000000000)"

definition observe :: "observation \<Rightarrow> fsm \<Rightarrow> transition option \<times> fsm" where
  "observe obs m0 =
     (let o' = observed obs; m = m0\<lparr>fs_score := ob_score obs\<rparr>
      in if o' = fs_state m then (None, m\<lparr>fs_candidate := None, fs_started := None\<rparr>)
         else if fs_candidate m \<noteq> Some o'
           then (None, m\<lparr>fs_candidate := Some o', fs_started := Some (ob_mono_ns obs)\<rparr>)
         else
           (let started = (case fs_started m of Some t \<Rightarrow> t | None \<Rightarrow> ob_mono_ns obs);
                elapsed = ob_mono_ns obs - started
            in if threshold_ns (fs_config m) o' \<le> elapsed
               then (Some \<lparr>tr_from = fs_state m, tr_to = o', tr_event_type = event_type_of o',
                           tr_mono_ns = ob_mono_ns obs, tr_duration_ms = elapsed div 1000000,
                           tr_score = ob_score obs, tr_reason = None\<rparr>,
                     m\<lparr>fs_state := o', fs_candidate := None, fs_started := None\<rparr>)
               else (None, m)))"

definition force_exit :: "int \<Rightarrow> string \<Rightarrow> fsm \<Rightarrow> transition option \<times> fsm" where
  "force_exit mono_ns reason m =
     (if fs_state m \<noteq> PRESENT then (None, m)
      else (Some \<lparr>tr_from = PRESENT, tr_to = ABSENT, tr_event_type = ''EXIT'', tr_mono_ns = mono_ns,
                  tr_duration_ms = 0, tr_score = fs_score m, tr_reason = Some reason\<rparr>,
            m\<lparr>fs_state := ABSENT, fs_candidate := None, fs_started := None\<rparr>))"

section \<open>Runs\<close>

datatype fsm_input = Observe observation | ForceExit int string

fun fsm_step :: "fsm_input \<Rightarrow> fsm \<Rightarrow> transition option \<times> fsm" where
  "fsm_step (Observe obs) m = observe obs m"
| "fsm_step (ForceExit t r) m = force_exit t r m"

fun fsm_run :: "fsm_input list \<Rightarrow> fsm \<Rightarrow> transition list \<times> fsm" where
  "fsm_run [] m = ([], m)"
| "fsm_run (i # is) m =
     (case fsm_step i m of (t, m') \<Rightarrow>
        (case fsm_run is m' of (ts, m'') \<Rightarrow> (case t of None \<Rightarrow> ts | Some x \<Rightarrow> x # ts, m'')))"

text \<open>Events that alternate, beginning with a change away from \<open>s\<close>.\<close>

fun alternates :: "presence \<Rightarrow> transition list \<Rightarrow> bool" where
  "alternates s [] = True"
| "alternates s (t # ts) =
     (tr_from t = s \<and> tr_to t \<noteq> s \<and> tr_event_type t = event_type_of (tr_to t) \<and> alternates (tr_to t) ts)"

lemma observe_config [simp]: "fs_config (snd (observe obs m)) = fs_config m"
  by (simp add: observe_def Let_def)

lemma observe_transition:
  assumes "observe obs m = (Some t, m')"
  shows "tr_from t = fs_state m" and "tr_to t = observed obs" and "tr_to t \<noteq> tr_from t" and "fs_state m' = tr_to t"
    and "tr_event_type t = event_type_of (tr_to t)"
  using assms by (auto simp: observe_def Let_def split: if_splits)

lemma observe_quiet: "observe obs m = (None, m') \<Longrightarrow> fs_state m' = fs_state m"
  by (auto simp: observe_def Let_def split: if_splits)

lemma fsm_step_state:
  assumes "fsm_step i m = (t, m')"
  shows "case t of None \<Rightarrow> fs_state m' = fs_state m
    | Some x \<Rightarrow> tr_from x = fs_state m \<and> tr_to x \<noteq> fs_state m \<and> fs_state m' = tr_to x
        \<and> tr_event_type x = event_type_of (tr_to x)"
proof (cases i)
  case (Observe obs)
  show ?thesis
  proof (cases t)
    case None
    with assms Observe observe_quiet show ?thesis by simp
  next
    case (Some x)
    with assms Observe have "observe obs m = (Some x, m')" by simp
    from observe_transition [OF this] Some show ?thesis by auto
  qed
next
  case (ForceExit u r)
  with assms show ?thesis by (auto simp: force_exit_def event_type_of_def split: if_splits)
qed

lemma fsm_run_alternates: "alternates (fs_state m) (fst (fsm_run is m))"
proof (induction "is" arbitrary: m)
  case Nil
  then show ?case by simp
next
  case (Cons i "is")
  obtain t m' where t: "fsm_step i m = (t, m')" by (cases "fsm_step i m")
  then show ?case
    using fsm_step_state [OF t] Cons.IH [of m'] by (cases t) (auto split: prod.split)
qed

lemma fsm_run_state:
  "fs_state (snd (fsm_run is m)) = (case rev (fst (fsm_run is m)) of [] \<Rightarrow> fs_state m | t # _ \<Rightarrow> tr_to t)"
proof (induction "is" arbitrary: m)
  case Nil
  then show ?case by simp
next
  case (Cons i "is")
  obtain t m' where t: "fsm_step i m = (t, m')" by (cases "fsm_step i m")
  obtain ts m'' where ts: "fsm_run is m' = (ts, m'')" by (cases "fsm_run is m'")
  then show ?case
    using fsm_step_state [OF t] Cons.IH [of m'] t by (cases t; cases "rev ts") auto
qed

section \<open>Debouncing\<close>

text \<open>A run of observations only.\<close>

definition obs_run :: "observation list \<Rightarrow> fsm \<Rightarrow> fsm" where
  "obs_run os m = fold (\<lambda>x. snd \<circ> observe x) os m"

lemma obs_run_simps [simp]: "obs_run [] m = m" "obs_run (x # os) m = obs_run os (snd (observe x m))"
  by (simp_all add: obs_run_def)

lemma obs_run_append: "obs_run (xs @ ys) m = obs_run ys (obs_run xs m)"
  by (simp add: obs_run_def)

lemma obs_run_config [simp]: "fs_config (obs_run os m) = fs_config m"
  by (induction os arbitrary: m) simp_all

text \<open>
  Where a candidate comes from: a suffix of the observations that all saw it, the first of them at
  the time the candidate started.
\<close>

definition streak :: "observation list \<Rightarrow> presence \<Rightarrow> int \<Rightarrow> bool" where
  "streak os s t = (\<exists>zs x ys. os = zs @ x # ys \<and> ob_mono_ns x = t \<and> (\<forall>q \<in> set (x # ys). observed q = s))"

lemma streak_snoc:
  assumes "streak os s t" and "observed q = s"
  shows "streak (os @ [q]) s t"
proof -
  from assms(1) obtain zs x ys where "os = zs @ x # ys" "ob_mono_ns x = t" "\<forall>r \<in> set (x # ys). observed r = s"
    unfolding streak_def by blast
  with assms(2) show ?thesis unfolding streak_def
    by (intro exI [of _ zs] exI [of _ x] exI [of _ "ys @ [q]"]) auto
qed

lemma streak_start: "observed q = s \<Longrightarrow> ob_mono_ns q = t \<Longrightarrow> streak (os @ [q]) s t"
  unfolding streak_def by (intro exI [of _ os] exI [of _ q] exI [of _ "[]"]) simp

lemma candidate_is_streak:
  "case fs_candidate (obs_run os (new_fsm c)) of None \<Rightarrow> True
    | Some s \<Rightarrow> s \<noteq> fs_state (obs_run os (new_fsm c))
        \<and> (\<exists>t. fs_started (obs_run os (new_fsm c)) = Some t \<and> streak os s t)"
proof (induction os rule: rev_induct)
  case Nil
  then show ?case by (simp add: new_fsm_def)
next
  case (snoc q os)
  let ?m = "obs_run os (new_fsm c)"
  have run: "obs_run (os @ [q]) (new_fsm c) = snd (observe q ?m)" by (simp add: obs_run_append)
  consider "observed q = fs_state ?m" | "observed q \<noteq> fs_state ?m" "fs_candidate ?m \<noteq> Some (observed q)"
    | "observed q \<noteq> fs_state ?m" "fs_candidate ?m = Some (observed q)" by blast
  then show ?case
  proof cases
    case 1
    then show ?thesis unfolding run by (simp add: observe_def Let_def)
  next
    case 2
    then show ?thesis unfolding run using streak_start [of q "observed q" "ob_mono_ns q" os] by (simp add: observe_def Let_def)
  next
    case 3
    with snoc obtain t where t: "fs_started ?m = Some t" "streak os (observed q) t" by auto
    with 3 streak_snoc [OF t(2) refl] show ?thesis unfolding run by (simp add: observe_def Let_def)
  qed
qed

lemma observe_fires:
  assumes "observe q m = (Some t, m')" and "fs_started m = Some u"
  shows "fs_candidate m = Some (observed q) \<and> threshold_ns (fs_config m) (observed q) \<le> ob_mono_ns q - u
    \<and> tr_duration_ms t = (ob_mono_ns q - u) div 1000000 \<and> tr_mono_ns t = ob_mono_ns q"
  using assms by (auto simp: observe_def Let_def split: if_splits)

lemma observe_fires_candidate:
  "observe q m = (Some t, m') \<Longrightarrow> fs_candidate m = Some (observed q) \<and> fs_state m \<noteq> observed q"
  by (auto simp: observe_def Let_def split: if_splits)

text \<open>While every observation sees \<open>s\<close>, the machine is in \<open>s\<close> or waits for it since the first of them.\<close>

lemma streak_progress:
  assumes "\<forall>q \<in> set ys. observed q = s" and "ys \<noteq> []"
    and "sorted (map ob_mono_ns (xs @ ys))"
  shows "fs_state (obs_run (xs @ ys) (new_fsm c)) = s
    \<or> fs_candidate (obs_run (xs @ ys) (new_fsm c)) = Some s
      \<and> (\<exists>t. fs_started (obs_run (xs @ ys) (new_fsm c)) = Some t \<and> t \<le> ob_mono_ns (hd ys))"
  using assms
proof (induction ys rule: rev_induct)
  case Nil
  then show ?case by simp
next
  case (snoc q ys)
  let ?m = "obs_run (xs @ ys) (new_fsm c)"
  have run: "obs_run (xs @ ys @ [q]) (new_fsm c) = snd (observe q ?m)"
    by (simp add: obs_run_append)
  have q: "observed q = s" using snoc.prems by simp
  show ?case
  proof (cases "ys = []")
    case True
    consider "fs_state ?m = s" | "fs_state ?m \<noteq> s" "fs_candidate ?m \<noteq> Some s"
      | "fs_state ?m \<noteq> s" "fs_candidate ?m = Some s" by blast
    then show ?thesis
    proof cases
      case 1
      then show ?thesis unfolding run using q True by (simp add: observe_def Let_def)
    next
      case 2
      then show ?thesis unfolding run using q True by (simp add: observe_def Let_def)
    next
      case 3
      with candidate_is_streak [of xs c] True obtain t where t: "fs_started ?m = Some t" "streak xs s t" by auto
      from t(2) have "t \<in> ob_mono_ns ` set xs" unfolding streak_def by auto
      then have "t \<le> ob_mono_ns q" using snoc.prems(3) True by (auto simp: sorted_append)
      with 3 t(1) q True show ?thesis unfolding run by (auto simp: observe_def Let_def)
    qed
  next
    case False
    with snoc.prems have IH: "fs_state ?m = s \<or> fs_candidate ?m = Some s
      \<and> (\<exists>t. fs_started ?m = Some t \<and> t \<le> ob_mono_ns (hd ys))"
      by (intro snoc.IH) (auto simp: sorted_append)
    have hd: "hd (ys @ [q]) = hd ys" using False by simp
    from IH q show ?thesis unfolding run hd by (auto simp: observe_def Let_def)
  qed
qed

section \<open>Properties\<close>

text \<open>C27: whatever is observed and however often the camera is lost, the events alternate, ENTER
  first, and the machine is in the state the last event led to.\<close>

theorem fsm_events_alternate:
  "alternates ABSENT (fst (fsm_run is (new_fsm c)))
   \<and> fs_state (snd (fsm_run is (new_fsm c)))
      = (case rev (fst (fsm_run is (new_fsm c))) of [] \<Rightarrow> ABSENT | t # _ \<Rightarrow> tr_to t)"
proof -
  have "fs_state (new_fsm c) = ABSENT" by (simp add: new_fsm_def)
  then show ?thesis using fsm_run_alternates [of "new_fsm c" "is"] fsm_run_state [of "is" "new_fsm c"]
    by (auto split: list.split)
qed


definition example_fsm_config :: fsm_config where
  "example_fsm_config = \<lparr>fc_enter_seconds = 3, fc_exit_seconds = 5\<rparr>"

definition example_obs :: "bool \<Rightarrow> int \<Rightarrow> observation" where
  "example_obs b secs = \<lparr>ob_present = b, ob_score = 1 / 2, ob_mono_ns = secs * 1000000000\<rparr>"

lemma example_threshold: "threshold_ns example_fsm_config PRESENT = 3000000000"
  by (simp add: threshold_ns_def example_fsm_config_def trunc_rat_def)


text \<open>C30: a state that is observed without a break for the configured time, at least twice, is the
  machine's state afterwards, whatever it saw before.\<close>

theorem steady_observation_confirms:
  assumes "\<forall>q \<in> set (x # ys @ [q]). observed q = s" and "sorted (map ob_mono_ns (xs @ x # ys @ [q]))"
    and "threshold_ns c s \<le> ob_mono_ns q - ob_mono_ns x"
  shows "fs_state (obs_run (xs @ x # ys @ [q]) (new_fsm c)) = s"
proof -
  let ?m = "obs_run (xs @ x # ys) (new_fsm c)"
  have run: "obs_run (xs @ x # ys @ [q]) (new_fsm c) = snd (observe q ?m)"
    by (simp add: obs_run_append)
  have "fs_state ?m = s \<or> fs_candidate ?m = Some s \<and> (\<exists>t. fs_started ?m = Some t \<and> t \<le> ob_mono_ns (hd (x # ys)))"
    by (rule streak_progress) (use assms in \<open>auto simp: sorted_append\<close>)
  moreover have "observed q = s" using assms(1) by simp
  ultimately show ?thesis
    unfolding run using assms(3) by (auto simp: observe_def Let_def new_fsm_def)
qed

theorem steady_observation_confirms_witness:
  "fs_state (obs_run ([example_obs False 1] @ example_obs True 2 # [] @ [example_obs True 6]) (new_fsm example_fsm_config)) = PRESENT"
  by (rule steady_observation_confirms)
    (simp_all add: example_threshold, simp_all add: example_obs_def observed_def)

end
