(* ===== verification/Detector_Main.thy ===== *)
theory Detector_Main
  imports Detector_Buffer Presence_Fsm Time_Sync Bridge_Config Send_Loop
begin

text \<open>
  \<open>services/detector/src/main.py\<close>, \<open>mqtt_client.py\<close> and \<open>time_source.py\<close>: persisting and publishing
  an event, publishing again what was not acknowledged, and taking in the ACKs. The random event id,
  the clocks and the outcome of the synchronisation query are inputs.
\<close>

section \<open>Configuration\<close>

definition DETECTOR_REQUIRED :: "(string \<times> string list) list" where
  "DETECTOR_REQUIRED =
    [(''camera'', [''device'', ''width'', ''height'', ''warmup_frames'']),
     (''inference'', [''model_path'', ''target_fps'', ''score_threshold'', ''category'']),
     (''debounce'', [''enter_seconds'', ''exit_seconds'']),
     (''mqtt'', [''host'', ''port'', ''qos'', ''topic_event'', ''topic_ack'', ''client_id_prefix'']),
     (''retry'', [''initial_delay_seconds'', ''max_delay_seconds'', ''multiplier'']),
     (''buffer'', [''path'', ''max_rows''])]"

definition load_detector_config :: "(string \<Rightarrow> string option) \<Rightarrow> pyval option \<Rightarrow> pyval dict cfg" where
  "load_detector_config env f =
     py_bind (load_expanded env f) (\<lambda>data.
       py_bind (validate_required data DETECTOR_REQUIRED) (\<lambda>_. Inr data))"

section \<open>Time\<close>

definition format_mk_date :: "datetime \<Rightarrow> string" where
  "format_mk_date d = strftime_compact d"

definition format_iso_with_tz :: "datetime \<Rightarrow> string" where
  "format_iso_with_tz d = isoformat_ms d"

definition is_synced :: "cmd_outcome \<Rightarrow> bool" where
  "is_synced out =
     (case out of
        CmdNotFound \<Rightarrow> True
      | CmdTimeout \<Rightarrow> False
      | CmdOSError \<Rightarrow> False
      | CmdDone rc stdout \<Rightarrow>
          (let t = lower (strip stdout) in if t = ''yes'' then True else if t = ''no'' then False else True))"

section \<open>The detector\<close>

record detector =
  dt_fsm :: fsm
  dt_buf :: pending_events
  dt_connected :: bool
  dt_out :: "(string \<times> pyval) list"

record detector_deps =
  dd_device_id :: pyval
  dd_topic_event :: string
  dd_policy :: backoff_policy

text \<open>\<open>publish_event\<close>: the payload is handed to the client as it is.\<close>

definition publish_event :: "string \<Rightarrow> pyval \<Rightarrow> detector \<Rightarrow> detector run" where
  "publish_event topic payload s =
     (if \<not> dt_connected s then (s, Some RuntimeError) else (s\<lparr>dt_out := dt_out s @ [(topic, payload)]\<rparr>, None))"

definition str_or_none :: "string option \<Rightarrow> pyval" where
  "str_or_none s = (case s of None \<Rightarrow> PNone | Some t \<Rightarrow> PStr t)"

definition event_json :: "string \<Rightarrow> string \<Rightarrow> string option \<Rightarrow> string option \<Rightarrow> int \<Rightarrow> bool \<Rightarrow> pyval \<Rightarrow> rat \<Rightarrow> pyval" where
  "event_json event_id event_type event_time event_time_iso mono_ns synced device_id score =
     PDict [(''event_id'', PStr event_id), (''event'', PStr event_type), (''event_time'', str_or_none event_time),
       (''event_time_iso'', str_or_none event_time_iso), (''monotonic_ns'', PInt mono_ns),
       (''wall_clock_synced'', PBool synced), (''device_id'', device_id), (''score'', PFloat score),
       (''schema_version'', PInt 1)]"

definition new_pending :: "string \<Rightarrow> bool \<Rightarrow> datetime \<Rightarrow> transition \<Rightarrow> pending_event" where
  "new_pending event_id synced now t =
     \<lparr>pe_event_id = event_id, pe_event_type = tr_event_type t,
      pe_mk_date = (if synced then Some (format_mk_date now) else None),
      pe_monotonic_ns = tr_mono_ns t, pe_wall_synced = synced, pe_score = Some (tr_score t), pe_status = Pending,
      pe_created_at_iso = format_iso_with_tz now, pe_retry_count = 0, pe_next_retry_at_iso = None,
      pe_last_publish_at_iso = None\<rparr>"

definition emit_transition :: "detector_deps \<Rightarrow> string \<Rightarrow> cmd_outcome \<Rightarrow> datetime \<Rightarrow> transition
    \<Rightarrow> detector \<Rightarrow> detector run" where
  "emit_transition d event_id out now t s =
     (let synced = is_synced out;
          payload = event_json event_id (tr_event_type t) (if synced then Some (format_mk_date now) else None)
            (if synced then Some (format_iso_with_tz now) else None) (tr_mono_ns t) synced (dd_device_id d) (tr_score t)
      in case buf_insert_pending (new_pending event_id synced now t) (dt_buf s) of
           Inl e \<Rightarrow> (s, Some e)
         | Inr b \<Rightarrow>
             (case publish_event (dd_topic_event d) payload (s\<lparr>dt_buf := b\<rparr>) of
                (s', Some e) \<Rightarrow> (s', Some e)
              | (s', None) \<Rightarrow> (s'\<lparr>dt_buf := buf_mark_sent event_id (dt_buf s')\<rparr>, None)))"

definition process_observation :: "detector_deps \<Rightarrow> string \<Rightarrow> cmd_outcome \<Rightarrow> datetime \<Rightarrow> observation
    \<Rightarrow> detector \<Rightarrow> detector run" where
  "process_observation d event_id out now obs s =
     (case observe obs (dt_fsm s) of (t, m) \<Rightarrow>
        (case t of None \<Rightarrow> (s\<lparr>dt_fsm := m\<rparr>, None)
         | Some t \<Rightarrow> emit_transition d event_id out now t (s\<lparr>dt_fsm := m\<rparr>)))"

text \<open>The camera gone for ten frames: whoever was present has left.\<close>

definition camera_lost :: "detector_deps \<Rightarrow> string \<Rightarrow> cmd_outcome \<Rightarrow> datetime \<Rightarrow> int \<Rightarrow> detector \<Rightarrow> detector run" where
  "camera_lost d event_id out now mono_ns s =
     (case force_exit mono_ns ''camera_lost'' (dt_fsm s) of (t, m) \<Rightarrow>
        (case t of None \<Rightarrow> (s\<lparr>dt_fsm := m\<rparr>, None)
         | Some t \<Rightarrow> emit_transition d event_id out now t (s\<lparr>dt_fsm := m\<rparr>)))"

definition build_resend_payload :: "detector_deps \<Rightarrow> pending_event \<Rightarrow> pyval" where
  "build_resend_payload d row =
     event_json (pe_event_id row) (pe_event_type row) (pe_mk_date row)
       (if pe_wall_synced row then Some (pe_created_at_iso row) else None) (pe_monotonic_ns row)
       (pe_wall_synced row) (dd_device_id d) (case pe_score row of None \<Rightarrow> 0 | Some q \<Rightarrow> q)"

text \<open>One turn of the loop of \<open>retry_pending\<close>.\<close>

definition resend_row :: "detector_deps \<Rightarrow> datetime \<Rightarrow> pending_event \<Rightarrow> detector \<Rightarrow> detector run" where
  "resend_row d now row s =
     (case publish_event (dd_topic_event d) (build_resend_payload d row) s of
        (s', Some e) \<Rightarrow> (s', Some e)
      | (s', None) \<Rightarrow>
          (let attempt = pe_retry_count row + 1
           in case next_retry_at now attempt (dd_policy d) of
                Inl e \<Rightarrow> (s', Some e)
              | Inr t \<Rightarrow>
                  (s'\<lparr>dt_buf := buf_update_retry_metadata (pe_event_id row) attempt (format_iso_with_tz t) (dt_buf s')\<rparr>,
                   None)))"

definition resend_status :: "detector_deps \<Rightarrow> datetime \<Rightarrow> pending_status \<Rightarrow> detector \<Rightarrow> detector run" where
  "resend_status d now st s =
     run_rows (resend_row d now) (buf_iter_due_for_retry (format_iso_with_tz now) st (dt_buf s)) s"

definition retry_pending :: "detector_deps \<Rightarrow> datetime \<Rightarrow> detector \<Rightarrow> detector run" where
  "retry_pending d now s = run_rows (resend_status d now) [Pending, BSent] s"

text \<open>The callback of \<open>subscribe_ack\<close> on a decoded message, \<open>None\<close> when it cannot be decoded. The callback
  is declared on strings; the model stops at an event id that is no string.\<close>

definition ack_message :: "pyval option \<Rightarrow> detector \<Rightarrow> detector run" where
  "ack_message m s =
     (case m of
        None \<Rightarrow> (s, None)
      | Some data \<Rightarrow>
          (case py_bind (py_get data ''event_id'') (\<lambda>i. py_bind (py_get data ''mk_date_committed'') (\<lambda>k.
              if py_truthy i \<and> py_truthy k then (case i of PStr e \<Rightarrow> Inr (Some e) | _ \<Rightarrow> Inl TypeMismatch) else Inr None)) of
             Inl e \<Rightarrow> (s, Some e)
           | Inr None \<Rightarrow> (s, None)
           | Inr (Some e) \<Rightarrow> (s\<lparr>dt_buf := buf_mark_acked e (dt_buf s)\<rparr>, None)))"

section \<open>Facts\<close>

lemma publish_event_frame [simp]:
  "dt_buf (fst (publish_event t p s)) = dt_buf s" "dt_fsm (fst (publish_event t p s)) = dt_fsm s"
  "dt_connected (fst (publish_event t p s)) = dt_connected s"
  by (simp_all add: publish_event_def)

lemma publish_event_connected: "dt_connected s \<Longrightarrow> publish_event t p s = (s\<lparr>dt_out := dt_out s @ [(t, p)]\<rparr>, None)"
  by (simp add: publish_event_def)

lemma resend_row_cases:
  obtains e where "resend_row d now row s = (s, Some e)" "\<not> dt_connected s"
  | e where "resend_row d now row s = (s\<lparr>dt_out := dt_out s @ [(dd_topic_event d, build_resend_payload d row)]\<rparr>, Some e)"
      "next_retry_at now (pe_retry_count row + 1) (dd_policy d) = Inl e"
  | t where "resend_row d now row s = (s\<lparr>dt_out := dt_out s @ [(dd_topic_event d, build_resend_payload d row)],
        dt_buf := buf_update_retry_metadata (pe_event_id row) (pe_retry_count row + 1) (format_iso_with_tz t) (dt_buf s)\<rparr>, None)"
      "next_retry_at now (pe_retry_count row + 1) (dd_policy d) = Inr t"
proof (cases "dt_connected s")
  case False
  then show thesis using that(1) by (simp add: resend_row_def publish_event_def)
next
  case True
  show thesis
  proof (cases "next_retry_at now (pe_retry_count row + 1) (dd_policy d)")
    case (Inl e)
    with True show thesis using that(2) by (simp add: resend_row_def publish_event_def Let_def)
  next
    case (Inr t)
    with True show thesis using that(3) by (simp add: resend_row_def publish_event_def Let_def)
  qed
qed

interpretation resend_loop: send_loop pe_event_id "\<lambda>k s. buf_get k (dt_buf s)" "resend_row d now"
  "\<lambda>s. buf_wf (dt_buf s)" dt_out for d now
proof
  show "buf_get k (dt_buf (fst (resend_row d now r s))) = buf_get k (dt_buf s)" if "k \<noteq> pe_event_id r" for k r s
    by (rule resend_row_cases [of d now r s]) (simp_all add: buf_update_get that)
  show "buf_wf (dt_buf (fst (resend_row d now r s)))" if "buf_wf (dt_buf s)" for r s
    by (rule resend_row_cases [of d now r s]) (simp_all add: buf_wf_update that)
  show "\<exists>ms. dt_out (fst (resend_row d now r s)) = dt_out s @ ms" for r s
    by (rule resend_row_cases [of d now r s]) simp_all
qed


lemma resend_row_ok:
  assumes "dt_connected s" and "next_retry_at now (pe_retry_count row + 1) (dd_policy d) = Inr t"
  shows "resend_row d now row s = (s\<lparr>dt_out := dt_out s @ [(dd_topic_event d, build_resend_payload d row)],
        dt_buf := buf_update_retry_metadata (pe_event_id row) (pe_retry_count row + 1) (format_iso_with_tz t) (dt_buf s)\<rparr>, None)"
  using assms by (simp add: resend_row_def publish_event_connected Let_def)

definition backoff_defined :: "detector_deps \<Rightarrow> datetime \<Rightarrow> pending_event \<Rightarrow> bool" where
  "backoff_defined d now r = (\<exists>t. next_retry_at now (pe_retry_count r + 1) (dd_policy d) = Inr t)"

definition resend_message :: "detector_deps \<Rightarrow> pending_event \<Rightarrow> string \<times> pyval" where
  "resend_message d r = (dd_topic_event d, build_resend_payload d r)"

text \<open>With whole seconds in the configuration the policy always gives a next time.\<close>

lemma next_retry_at_total: "0 \<le> n \<Longrightarrow> \<exists>t. next_retry_at now (n + 1) (int_policy i m c) = Inr t"
  using next_retry_at_int [of "n + 1"] by simp

lemma whole_seconds_defined: "dd_policy d = int_policy i m c \<Longrightarrow> 0 \<le> pe_retry_count r \<Longrightarrow> backoff_defined d now r"
  by (simp add: backoff_defined_def next_retry_at_total)

lemma resend_run_ok:
  "dt_connected s \<Longrightarrow> (\<And>r. r \<in> set rs \<Longrightarrow> backoff_defined d now r) \<Longrightarrow>
     snd (run_rows (resend_row d now) rs s) = None \<and> dt_connected (fst (run_rows (resend_row d now) rs s))
     \<and> dt_out (fst (run_rows (resend_row d now) rs s)) = dt_out s @ map (resend_message d) rs"
proof (induction rs arbitrary: s)
  case Nil
  then show ?case by simp
next
  case (Cons r rs)
  obtain t where t: "next_retry_at now (pe_retry_count r + 1) (dd_policy d) = Inr t"
    using Cons.prems(2) [of r] by (auto simp: backoff_defined_def)
  show ?case using Cons.IH Cons.prems by (simp add: resend_row_ok [OF Cons.prems(1) t] resend_message_def)
qed

text \<open>A row whose next time the policy cannot give stops the loop.\<close>

lemma resend_run_stops:
  "dt_connected s \<Longrightarrow> r \<in> set rs \<Longrightarrow> \<not> backoff_defined d now r \<Longrightarrow> snd (run_rows (resend_row d now) rs s) \<noteq> None"
proof (induction rs arbitrary: s)
  case (Cons q rs)
  show ?case
  proof (cases "next_retry_at now (pe_retry_count q + 1) (dd_policy d)")
    case (Inl e)
    then show ?thesis using Cons.prems(1) by (simp add: resend_row_def publish_event_connected Let_def)
  next
    case (Inr t)
    then have "r \<in> set rs" using Cons.prems(2,3) by (auto simp: backoff_defined_def)
    with Cons.IH Cons.prems show ?thesis by (simp add: resend_row_ok [OF Cons.prems(1) Inr])
  qed
qed simp

text \<open>What \<open>retry_pending\<close> makes of a row it publishes again.\<close>

definition resent :: "datetime \<Rightarrow> pending_event \<Rightarrow> pending_event" where
  "resent t r = r\<lparr>pe_retry_count := pe_retry_count r + 1, pe_next_retry_at_iso := Some (format_iso_with_tz t),
     pe_last_publish_at_iso := Some (format_iso_with_tz t)\<rparr>"

definition resend_due :: "datetime \<Rightarrow> pending_status \<Rightarrow> pending_event \<Rightarrow> bool" where
  "resend_due now st r = (pe_status r = st \<and> due_at (pe_next_retry_at_iso r) (format_iso_with_tz now))"

definition resend_outcome :: "detector_deps \<Rightarrow> datetime \<Rightarrow> pending_event \<Rightarrow> detector \<Rightarrow> bool" where
  "resend_outcome d now r s =
     (\<exists>t. next_retry_at now (pe_retry_count r + 1) (dd_policy d) = Inr t
        \<and> buf_get (pe_event_id r) (dt_buf s) = Some (resent t r))"

lemma resend_status_due:
  assumes "buf_wf (dt_buf s)" and "snd (resend_status d now st s) = None"
    and "buf_get k (dt_buf s) = Some r" and "resend_due now st r"
  shows "resend_outcome d now r (fst (resend_status d now st s))"
proof -
  let ?rs = "buf_iter_due_for_retry (format_iso_with_tz now) st (dt_buf s)"
  have k: "k = pe_event_id r" using buf_get_key [OF assms(3)] by simp
  have r: "r \<in> set ?rs" using assms(1,3,4) by (simp add: buf_due_member buf_get_iff resend_due_def)
  have run: "snd (run_rows (resend_row d now) ?rs s) = None" using assms(2) by (simp add: resend_status_def)
  from resend_loop.run_row [OF buf_due_distinct [OF assms(1)] r run assms(1)]
  obtain u where u: "buf_get (pe_event_id r) (dt_buf u) = buf_get (pe_event_id r) (dt_buf s)"
    "snd (resend_row d now r u) = None"
    "buf_get (pe_event_id r) (dt_buf (fst (resend_status d now st s))) = buf_get (pe_event_id r) (dt_buf (fst (resend_row d now r u)))"
    unfolding resend_status_def by blast
  show ?thesis
  proof (rule resend_row_cases [of d now r u])
    fix t assume t: "next_retry_at now (pe_retry_count r + 1) (dd_policy d) = Inr t"
      "resend_row d now r u = (u\<lparr>dt_out := dt_out u @ [(dd_topic_event d, build_resend_payload d r)],
        dt_buf := buf_update_retry_metadata (pe_event_id r) (pe_retry_count r + 1) (format_iso_with_tz t) (dt_buf u)\<rparr>, None)"
    show ?thesis unfolding resend_outcome_def
      using u t assms(3) k by (intro exI [of _ t]) (simp add: buf_update_get resent_def)
  qed (use u(2) in simp_all)
qed

lemma resend_status_not_due:
  assumes "buf_wf (dt_buf s)" and "\<And>r. buf_get k (dt_buf s) = Some r \<Longrightarrow> \<not> resend_due now st r"
  shows "buf_get k (dt_buf (fst (resend_status d now st s))) = buf_get k (dt_buf s)"
  unfolding resend_status_def
  by (rule resend_loop.run_other) (use assms in \<open>auto simp: buf_due_member resend_due_def buf_get_iff\<close>)

lemma resend_status_wf: "buf_wf (dt_buf s) \<Longrightarrow> buf_wf (dt_buf (fst (resend_status d now st s)))"
  unfolding resend_status_def by (rule resend_loop.run_keeps)

text \<open>Publishing again the rows of one status leaves the due rows of another as they are.\<close>

lemma buf_due_update_other:
  assumes "\<And>r. r \<in> set t \<Longrightarrow> pe_event_id r = i \<Longrightarrow> pe_status r \<noteq> st"
  shows "buf_iter_due_for_retry now st (buf_update_retry_metadata i n x t) = buf_iter_due_for_retry now st t"
proof -
  have "filter (\<lambda>r. pe_status r = st \<and> due_at (pe_next_retry_at_iso r) now) (buf_update_retry_metadata i n x t)
      = filter (\<lambda>r. pe_status r = st \<and> due_at (pe_next_retry_at_iso r) now) t"
    using assms unfolding buf_update_retry_metadata_def sql_update_def by (induction t) auto
  then show ?thesis by (simp add: buf_iter_due_for_retry_def)
qed

lemma resend_status_due_other:
  assumes "buf_wf (dt_buf s)" and "st' \<noteq> st"
  shows "buf_iter_due_for_retry n st' (dt_buf (fst (resend_status d now st s))) = buf_iter_due_for_retry n st' (dt_buf s)"
proof -
  let ?K = "pe_event_id ` {r \<in> set (dt_buf s). pe_status r = st}"
  let ?I = "\<lambda>u. buf_iter_due_for_retry n st' (dt_buf u) = buf_iter_due_for_retry n st' (dt_buf s)
    \<and> (\<forall>r \<in> set (dt_buf u). pe_event_id r \<in> ?K \<longrightarrow> pe_status r = st)"
  have keep: "?I (fst (resend_row d now r u))"
    if r: "r \<in> set (buf_iter_due_for_retry (format_iso_with_tz now) st (dt_buf s))" and u: "?I u" for r u
  proof -
    have k: "pe_event_id r \<in> ?K" using r by (auto simp: buf_due_member)
    show ?thesis
    proof (rule resend_row_cases [of d now r u])
      fix t
      assume t: "resend_row d now r u = (u\<lparr>dt_out := dt_out u @ [(dd_topic_event d, build_resend_payload d r)],
        dt_buf := buf_update_retry_metadata (pe_event_id r) (pe_retry_count r + 1) (format_iso_with_tz t) (dt_buf u)\<rparr>, None)"
      have "buf_iter_due_for_retry n st' (buf_update_retry_metadata (pe_event_id r) (pe_retry_count r + 1)
          (format_iso_with_tz t) (dt_buf u)) = buf_iter_due_for_retry n st' (dt_buf u)"
        by (rule buf_due_update_other) (use u k assms(2) in auto)
      with t u show ?thesis by (auto simp: buf_update_retry_metadata_def sql_update_def)
    qed (use u in simp_all)
  qed
  have "?I s" using assms(1) by (auto simp: buf_wf_def dest: inj_onD [OF iffD1 [OF distinct_map, THEN conjunct2]])
  then have "?I (fst (resend_status d now st s))"
    unfolding resend_status_def by (rule run_rows_invariant [of _ ?I, rotated]) (rule keep)
  then show ?thesis by blast
qed

section \<open>Properties\<close>

text \<open>What is published again at a time, the never published events first, and the rows this is about.\<close>

definition resend_rows :: "datetime \<Rightarrow> pending_events \<Rightarrow> pending_event list" where
  "resend_rows now t = buf_iter_due_for_retry (format_iso_with_tz now) Pending t @ buf_iter_due_for_retry (format_iso_with_tz now) BSent t"

lemma resend_rows_member:
  "r \<in> set (resend_rows now t) \<longleftrightarrow> r \<in> set t \<and> pe_status r \<noteq> Acked \<and> due_at (pe_next_retry_at_iso r) (format_iso_with_tz now)"
  by (cases "pe_status r") (auto simp: resend_rows_def buf_due_member)

lemma retry_pending_run:
  assumes "buf_wf (dt_buf s)" and "dt_connected s" and "resend_status d now Pending s = (u, e)"
    and "resend_status d now BSent u = (v, f)" and "\<And>r. r \<in> set (resend_rows now (dt_buf s)) \<Longrightarrow> backoff_defined d now r"
  shows "e = None" and "f = None" and "retry_pending d now s = (v, None)"
    and "dt_out v = dt_out s @ map (resend_message d) (resend_rows now (dt_buf s))"
proof -
  let ?n = "format_iso_with_tz now"
  have due2: "buf_iter_due_for_retry ?n BSent (dt_buf u) = buf_iter_due_for_retry ?n BSent (dt_buf s)"
    using resend_status_due_other [OF assms(1), of BSent Pending ?n d now] by (simp add: assms(3))
  have one: "e = None \<and> dt_connected u \<and> dt_out u = dt_out s @ map (resend_message d) (buf_iter_due_for_retry ?n Pending (dt_buf s))"
    using resend_run_ok [OF assms(2), of "buf_iter_due_for_retry ?n Pending (dt_buf s)" d now] assms(3,5)
    by (simp add: resend_status_def resend_rows_def)
  have two: "f = None \<and> dt_out v = dt_out u @ map (resend_message d) (buf_iter_due_for_retry ?n BSent (dt_buf s))"
    using resend_run_ok [of u "buf_iter_due_for_retry ?n BSent (dt_buf u)" d now] assms(4,5) one
    by (simp add: resend_status_def resend_rows_def due2)
  from one two show "e = None" "f = None" "retry_pending d now s = (v, None)"
    "dt_out v = dt_out s @ map (resend_message d) (resend_rows now (dt_buf s))"
    by (simp_all add: retry_pending_def assms(3,4) resend_rows_def)
qed

lemma retry_pending_stops:
  assumes "buf_wf (dt_buf s)" and "dt_connected s" and "r \<in> set (resend_rows now (dt_buf s))" and "\<not> backoff_defined d now r"
  shows "snd (retry_pending d now s) \<noteq> None"
proof -
  let ?n = "format_iso_with_tz now" and ?p = "resend_status d now Pending s"
  have due2: "buf_iter_due_for_retry ?n BSent (dt_buf (fst ?p)) = buf_iter_due_for_retry ?n BSent (dt_buf s)"
    by (rule resend_status_due_other [OF assms(1)]) simp
  show ?thesis
  proof (cases "\<forall>q \<in> set (buf_iter_due_for_retry ?n Pending (dt_buf s)). backoff_defined d now q")
    case True
    then have one: "snd ?p = None" "dt_connected (fst ?p)"
      using resend_run_ok [OF assms(2), of "buf_iter_due_for_retry ?n Pending (dt_buf s)" d now] by (simp_all add: resend_status_def)
    have "r \<in> set (buf_iter_due_for_retry ?n BSent (dt_buf (fst ?p)))" using assms(3,4) True by (auto simp: resend_rows_def due2)
    from resend_run_stops [OF one(2) this assms(4)] one(1) show ?thesis
      by (auto simp: retry_pending_def resend_status_def [of d now BSent] split: prod.split option.split)
  next
    case False
    then obtain q where "q \<in> set (buf_iter_due_for_retry ?n Pending (dt_buf s))" "\<not> backoff_defined d now q" by blast
    from resend_run_stops [OF assms(2) this] show ?thesis
      by (auto simp: retry_pending_def resend_status_def [of d now Pending] split: prod.split option.split)
  qed
qed

lemma retried_row:
  assumes "buf_wf (dt_buf s)" and u: "resend_status d now Pending s = (u, e)" and v: "resend_status d now BSent u = (v, f)"
    and "e = None" and "f = None" and "buf_get k (dt_buf s) = Some r"
  shows "if pe_status r \<noteq> Acked \<and> due_at (pe_next_retry_at_iso r) (format_iso_with_tz now)
      then resend_outcome d now r v else buf_get k (dt_buf v) = Some r"
proof -
  have wf: "buf_wf (dt_buf u)" using resend_status_wf [OF assms(1), of d now Pending] by (simp add: u)
  have k: "k = pe_event_id r" using buf_get_key [OF assms(6)] by simp
  have p1: "resend_due now Pending r \<Longrightarrow> resend_outcome d now r u" "\<not> resend_due now Pending r \<Longrightarrow> buf_get k (dt_buf u) = Some r"
    using resend_status_due [OF assms(1) _ assms(6), of d now Pending]
      resend_status_not_due [OF assms(1), of k now Pending d] assms(6) by (simp_all add: u assms(4))
  have p2: "resend_due now BSent q \<Longrightarrow> resend_outcome d now q v" "\<not> resend_due now BSent q \<Longrightarrow> buf_get k (dt_buf v) = Some q"
    if "buf_get k (dt_buf u) = Some q" for q
    using resend_status_due [OF wf _ that, of d now BSent] resend_status_not_due [OF wf, of k now BSent d] that
    by (simp_all add: v assms(5))
  show ?thesis
  proof (cases "resend_due now Pending r")
    case True
    then obtain t where t: "next_retry_at now (pe_retry_count r + 1) (dd_policy d) = Inr t" "buf_get k (dt_buf u) = Some (resent t r)"
      using p1(1) by (auto simp: resend_outcome_def k)
    moreover have "\<not> resend_due now BSent (resent t r)" using True by (simp add: resend_due_def resent_def)
    ultimately show ?thesis using p2(2) [of "resent t r"] True by (simp add: resend_outcome_def k resend_due_def)
  next
    case False
    with p1(2) p2 [of r] show ?thesis by (cases "pe_status r") (auto simp: resend_due_def)
  qed
qed


text \<open>A detector with an event never published, one not due and one acknowledged.\<close>

definition example_detector :: detector where
  "example_detector = \<lparr>dt_fsm = new_fsm example_fsm_config,
     dt_buf = [example_pending ''a'' Pending, (example_pending ''b'' BSent)\<lparr>pe_next_retry_at_iso := Some ''2''\<rparr>,
       example_pending ''c'' Acked],
     dt_connected = True, dt_out = []\<rparr>"

definition example_detector_deps :: detector_deps where
  "example_detector_deps = \<lparr>dd_device_id = PStr ''pi'', dd_topic_event = ''presence/event'', dd_policy = int_policy 5 3 600\<rparr>"


end
