(* ===== verification/Detector_Steps.thy ===== *)
theory Detector_Steps
  imports Detector_Main
begin

text \<open>
  The two threads of the detector: the main loop, which inserts, publishes and marks an event in three
  steps and resends in a loop over rows taken at its start, and the thread of the MQTT client, which
  takes in ACKs at any moment. A program counter says where the main loop is. A crash with a restart
  keeps the buffer, which is on disk.
\<close>

datatype emit_pc =
    EIdle
  | EInserted string pyval
  | EPublished string
  | EResend datetime "pending_event list" "pending_status list"

definition emit_payload :: "detector_deps \<Rightarrow> string \<Rightarrow> bool \<Rightarrow> datetime \<Rightarrow> transition \<Rightarrow> pyval" where
  "emit_payload d event_id synced now t =
     event_json event_id (tr_event_type t) (if synced then Some (format_mk_date now) else None)
       (if synced then Some (format_iso_with_tz now) else None) (tr_mono_ns t) synced (dd_device_id d) (tr_score t)"

text \<open>The guard of the first rule is what \<open>uuid4\<close> gives: an id no event had before.\<close>

inductive det_step :: "detector_deps \<Rightarrow> detector \<times> emit_pc \<Rightarrow> detector \<times> emit_pc \<Rightarrow> bool"
  for d :: detector_deps where
  det_insert: "buf_get i (dt_buf s) = None \<Longrightarrow> buf_insert_pending (new_pending i synced now t) (dt_buf s) = Inr b \<Longrightarrow>
     det_step d (s, EIdle) (s\<lparr>dt_buf := b\<rparr>, EInserted i (emit_payload d i synced now t))"
| det_publish: "publish_event (dd_topic_event d) p s = (s', None) \<Longrightarrow> det_step d (s, EInserted i p) (s', EPublished i)"
| det_mark: "det_step d (s, EPublished i) (s\<lparr>dt_buf := buf_mark_sent i (dt_buf s)\<rparr>, EIdle)"
| det_ack: "ack_message m s = (s', e) \<Longrightarrow> det_step d (s, pc) (s', pc)"
| det_scan: "det_step d (s, EIdle) (s, EResend now [] [Pending, BSent])"
| det_select: "det_step d (s, EResend now [] (st # sts))
     (s, EResend now (buf_iter_due_for_retry (format_iso_with_tz now) st (dt_buf s)) sts)"
| det_resend: "resend_row d now r s = (s', None) \<Longrightarrow>
     det_step d (s, EResend now (r # rs) sts) (s', EResend now rs sts)"
| det_scanned: "det_step d (s, EResend now [] []) (s, EIdle)"
| det_observe: "det_step d (s, EIdle) (s\<lparr>dt_fsm := m\<rparr>, EIdle)"
| det_restart: "det_step d (s, pc) (s\<lparr>dt_fsm := new_fsm c, dt_connected := b\<rparr>, EIdle)"

inductive_cases det_mark_inv: "det_step d (s, EPublished i) (s', EIdle)"

inductive_simps det_publish_simps: "det_step d (s, EInserted i p) (s', EPublished j)"

abbreviation det_steps :: "detector_deps \<Rightarrow> detector \<times> emit_pc \<Rightarrow> detector \<times> emit_pc \<Rightarrow> bool" where
  "det_steps d \<equiv> (det_step d)\<^sup>*\<^sup>*"

section \<open>Facts\<close>

text \<open>The first message of an event is the one \<open>retry_pending\<close> would send for its row.\<close>

lemma emit_payload_row: "emit_payload d i synced now t = build_resend_payload d (new_pending i synced now t)"
  by (simp add: emit_payload_def build_resend_payload_def new_pending_def)

lemma emit_transition_steps:
  assumes "buf_get i (dt_buf s) = None" and "emit_transition d i out now t s = (s', None)"
  shows "det_steps d (s, EIdle) (s', EIdle)"
proof -
  let ?p = "emit_payload d i (is_synced out) now t"
  obtain b where b: "buf_insert_pending (new_pending i (is_synced out) now t) (dt_buf s) = Inr b"
    using assms(2) by (auto simp: emit_transition_def Let_def split: sum.splits)
  obtain u where u: "publish_event (dd_topic_event d) ?p (s\<lparr>dt_buf := b\<rparr>) = (u, None)"
    and s': "s' = u\<lparr>dt_buf := buf_mark_sent i (dt_buf u)\<rparr>"
    using assms(2) b by (auto simp: emit_transition_def emit_payload_def Let_def split: prod.splits option.splits)
  have "det_step d (s, EIdle) (s\<lparr>dt_buf := b\<rparr>, EInserted i ?p)" using assms(1) b by (rule det_insert)
  moreover have "det_step d (s\<lparr>dt_buf := b\<rparr>, EInserted i ?p) (u, EPublished i)" using u by (rule det_publish)
  moreover have "det_step d (u, EPublished i) (s', EIdle)" unfolding s' by (rule det_mark)
  ultimately show ?thesis by (meson converse_rtranclp_into_rtranclp rtranclp.rtrancl_refl)
qed

lemma ack_message_cases:
  obtains e where "ack_message m s = (s, e)"
  | i where "ack_message m s = (s\<lparr>dt_buf := buf_mark_acked i (dt_buf s)\<rparr>, None)"
proof -
  obtain s' e where a: "ack_message m s = (s', e)" by (cases "ack_message m s")
  then have "s' = s \<or> (\<exists>i. s' = s\<lparr>dt_buf := buf_mark_acked i (dt_buf s)\<rparr> \<and> e = None)"
    unfolding ack_message_def by (auto split: option.splits sum.splits)
  with a that show thesis by blast
qed

text \<open>No operation changes what would be sent for a row.\<close>

definition payloads_kept :: "detector_deps \<Rightarrow> pending_events \<Rightarrow> pending_events \<Rightarrow> bool" where
  "payloads_kept d b b' =
     (\<forall>i q. buf_get i b = Some q \<longrightarrow>
        (\<exists>q'. buf_get i b' = Some q' \<and> build_resend_payload d q' = build_resend_payload d q))"

lemma payloads_kept_refl [simp]: "payloads_kept d b b"
  by (simp add: payloads_kept_def)

lemma payloads_kept_ops:
  "payloads_kept d b (buf_mark_sent i b)" "payloads_kept d b (buf_mark_acked i b)"
  "payloads_kept d b (buf_update_retry_metadata i n x b)"
  "buf_insert_pending e b = Inr b' \<Longrightarrow> payloads_kept d b b'"
  by (auto simp: payloads_kept_def buf_update_get buf_insert_get build_resend_payload_def)

definition has_row :: "detector_deps \<Rightarrow> pending_events \<Rightarrow> pyval \<Rightarrow> bool" where
  "has_row d b p = (\<exists>i q. buf_get i b = Some q \<and> p = build_resend_payload d q)"

lemma has_row_kept: "has_row d b p \<Longrightarrow> payloads_kept d b b' \<Longrightarrow> has_row d b' p"
  by (fastforce simp: has_row_def payloads_kept_def)

lemma has_row_acked: "has_row d b p \<Longrightarrow> has_row d (buf_mark_acked i b) p"
  by (rule has_row_kept [OF _ payloads_kept_ops(2)])

definition pc_rows :: "detector_deps \<Rightarrow> emit_pc \<Rightarrow> pyval list" where
  "pc_rows d pc = (case pc of EInserted i p \<Rightarrow> [p] | EResend now rs sts \<Rightarrow> map (build_resend_payload d) rs | _ \<Rightarrow> [])"

definition det_inv :: "detector_deps \<Rightarrow> detector \<times> emit_pc \<Rightarrow> bool" where
  "det_inv d c = (buf_wf (dt_buf (fst c))
     \<and> (\<forall>m \<in> set (dt_out (fst c)). fst m = dd_topic_event d \<and> has_row d (dt_buf (fst c)) (snd m))
     \<and> (\<forall>p \<in> set (pc_rows d (snd c)). has_row d (dt_buf (fst c)) p))"

lemma det_inv_buffer:
  assumes "det_inv d (s, pc)" and "payloads_kept d (dt_buf s) (dt_buf s')" and "buf_wf (dt_buf s')"
    and "\<And>m. m \<in> set (dt_out s') \<Longrightarrow> m \<in> set (dt_out s) \<or> fst m = dd_topic_event d \<and> has_row d (dt_buf s') (snd m)"
    and "\<And>p. p \<in> set (pc_rows d pc') \<Longrightarrow> p \<in> set (pc_rows d pc) \<or> has_row d (dt_buf s') p"
  shows "det_inv d (s', pc')"
  using assms has_row_kept [of d "dt_buf s" _ "dt_buf s'"] unfolding det_inv_def by (metis fst_conv snd_conv)

lemma due_rows_have_row: "buf_wf b \<Longrightarrow> r \<in> set (buf_iter_due_for_retry n st b) \<Longrightarrow> has_row d b (build_resend_payload d r)"
  by (auto simp: has_row_def buf_due_member buf_get_iff)

lemma det_step_inv:
  assumes "det_step d c c'" and "det_inv d c"
  shows "det_inv d c'"
  using assms
proof (induction rule: det_step.induct)
  case (det_insert i s synced now t b)
  have "buf_get i b = Some (new_pending i synced now t)"
    using buf_insert_get [OF det_insert.hyps(2), of i] det_insert.hyps(1) by (simp add: new_pending_def)
  then have row: "has_row d b (emit_payload d i synced now t)"
    unfolding has_row_def emit_payload_row by blast
  show ?case
    by (rule det_inv_buffer [OF det_insert.prems])
      (use row det_insert.prems payloads_kept_ops(4) [OF det_insert.hyps(2)] buf_wf_insert [OF _ det_insert.hyps(2)]
        in \<open>auto simp: det_inv_def pc_rows_def\<close>)
next
  case (det_publish p s s' i)
  then show ?case
    by (intro det_inv_buffer [OF det_publish.prems])
      (auto simp: publish_event_def det_inv_def pc_rows_def split: if_splits)
next
  case (det_mark s i)
  show ?case
    by (rule det_inv_buffer [OF det_mark])
      (use det_mark in \<open>auto simp: det_inv_def pc_rows_def payloads_kept_ops buf_wf_update\<close>)
next
  case (det_ack m s s' e pc)
  show ?case
  proof (cases rule: ack_message_cases [of m s])
    case (1 f)
    with det_ack show ?thesis by simp
  next
    case (2 i)
    have "det_inv d (s\<lparr>dt_buf := buf_mark_acked i (dt_buf s)\<rparr>, pc)"
      using det_ack.prems has_row_acked unfolding det_inv_def by (simp add: buf_wf_update)
    with 2 det_ack.hyps show ?thesis by simp
  qed
next
  case (det_scan s now)
  then show ?case by (simp add: det_inv_def pc_rows_def)
next
  case (det_select s now st sts)
  then show ?case using due_rows_have_row by (auto simp: det_inv_def pc_rows_def)
next
  case (det_resend now r s s' rs sts)
  then show ?case
  proof (cases rule: resend_row_cases [of d now r s])
    case (3 t)
    have "has_row d (dt_buf s) (build_resend_payload d r)" using det_resend.prems by (simp add: det_inv_def pc_rows_def)
    then have "has_row d (dt_buf s') (build_resend_payload d r)"
      using has_row_kept 3 det_resend.hyps payloads_kept_ops(3) by fastforce
    with 3 det_resend show ?thesis
      by (intro det_inv_buffer [OF det_resend.prems]) (auto simp: payloads_kept_ops buf_wf_update det_inv_def pc_rows_def)
  qed simp_all
next
  case (det_scanned s now)
  then show ?case by (simp add: det_inv_def pc_rows_def)
next
  case (det_observe s m)
  then show ?case by (simp add: det_inv_def pc_rows_def)
next
  case (det_restart s pc c b)
  then show ?case by (simp add: det_inv_def pc_rows_def)
qed

lemma det_steps_inv: "det_steps d c c' \<Longrightarrow> det_inv d c \<Longrightarrow> det_inv d c'"
  by (induction rule: rtranclp_induct) (auto intro: det_step_inv)

text \<open>An event the bridge has acknowledged, and no step of the main loop in progress for it.\<close>

definition pc_free :: "string \<Rightarrow> emit_pc \<Rightarrow> bool" where
  "pc_free k pc = (case pc of EIdle \<Rightarrow> True | EInserted i p \<Rightarrow> i \<noteq> k \<and> py_subscript p ''event_id'' = Inr (PStr i)
     | EPublished i \<Rightarrow> i \<noteq> k | EResend now rs sts \<Rightarrow> k \<notin> pe_event_id ` set rs \<and> Acked \<notin> set sts)"

definition row_acked :: "string \<Rightarrow> pending_events \<Rightarrow> bool" where
  "row_acked k b = (\<exists>r. buf_get k b = Some r \<and> pe_status r = Acked)"

definition not_about :: "string \<Rightarrow> string \<times> pyval \<Rightarrow> bool" where
  "not_about k m = (py_subscript (snd m) ''event_id'' \<noteq> Inr (PStr k))"

definition quiet :: "string \<Rightarrow> (string \<times> pyval) list \<Rightarrow> detector \<times> emit_pc \<Rightarrow> bool" where
  "quiet k out c = (buf_wf (dt_buf (fst c)) \<and> row_acked k (dt_buf (fst c)) \<and> pc_free k (snd c)
     \<and> (\<exists>ms. dt_out (fst c) = out @ ms \<and> (\<forall>m \<in> set ms. not_about k m)))"

lemma quiet_buffer:
  "quiet k out (s, pc) \<Longrightarrow> buf_wf b \<Longrightarrow> row_acked k b \<Longrightarrow> pc_free k pc' \<Longrightarrow> quiet k out (s\<lparr>dt_buf := b\<rparr>, pc')"
  by (simp add: quiet_def)

lemma quiet_message:
  "quiet k out (s, pc) \<Longrightarrow> not_about k m \<Longrightarrow> pc_free k pc' \<Longrightarrow> quiet k out (s\<lparr>dt_out := dt_out s @ [m]\<rparr>, pc')"
  by (auto simp: quiet_def)

lemma row_acked_ops:
  "row_acked k b \<Longrightarrow> k \<noteq> i \<Longrightarrow> row_acked k (buf_mark_sent i b)" "row_acked k b \<Longrightarrow> row_acked k (buf_mark_acked i b)"
  "row_acked k b \<Longrightarrow> row_acked k (buf_update_retry_metadata i n x b)"
  "row_acked k b \<Longrightarrow> buf_insert_pending e b = Inr b' \<Longrightarrow> row_acked k b'"
  by (auto simp: row_acked_def buf_update_get buf_insert_get)

lemma event_json_id [simp]: "py_subscript (event_json i a b c' n sy dev q) ''event_id'' = Inr (PStr i)"
  by (simp add: event_json_def py_subscript_def dict_get_def)

lemma resend_not_about: "pe_event_id r \<noteq> k \<Longrightarrow> not_about k (t, build_resend_payload d r)"
  by (simp add: not_about_def build_resend_payload_def)

lemma det_step_quiet:
  assumes "det_step d c c'" and "quiet k out c"
  shows "quiet k out c'"
  using assms
proof (induction rule: det_step.induct)
  case (det_insert i s synced now t b)
  then have "i \<noteq> k" by (auto simp: quiet_def row_acked_def)
  show ?case
  proof (rule quiet_buffer [OF det_insert.prems])
    show "buf_wf b" using det_insert by (intro buf_wf_insert [OF _ det_insert.hyps(2)]) (simp add: quiet_def)
    show "row_acked k b" using det_insert by (intro row_acked_ops(4) [OF _ det_insert.hyps(2)]) (simp add: quiet_def)
    show "pc_free k (EInserted i (emit_payload d i synced now t))" using \<open>i \<noteq> k\<close> by (simp add: pc_free_def emit_payload_def)
  qed
next
  case (det_publish p s s' i)
  then have "not_about k (dd_topic_event d, p)" "i \<noteq> k" by (auto simp: quiet_def pc_free_def not_about_def)
  moreover have "s' = s\<lparr>dt_out := dt_out s @ [(dd_topic_event d, p)]\<rparr>"
    using det_publish.hyps by (simp add: publish_event_def split: if_splits)
  ultimately show ?case using quiet_message [OF det_publish.prems] by (simp add: pc_free_def)
next
  case (det_mark s i)
  then show ?case
    by (intro quiet_buffer [OF det_mark]) (auto simp: quiet_def pc_free_def buf_wf_update row_acked_ops)
next
  case (det_ack m s s' e pc)
  then show ?case
    by (cases rule: ack_message_cases [of m s])
      (auto intro!: quiet_buffer [OF det_ack.prems] simp: quiet_def buf_wf_update row_acked_ops)
next
  case (det_select s now st sts)
  have "k \<notin> pe_event_id ` set (buf_iter_due_for_retry (format_iso_with_tz now) st (dt_buf s))"
  proof
    assume "k \<in> pe_event_id ` set (buf_iter_due_for_retry (format_iso_with_tz now) st (dt_buf s))"
    then obtain x where "x \<in> set (dt_buf s)" "pe_event_id x = k" "pe_status x = st" by (auto simp: buf_due_member)
    with det_select show False by (auto simp: quiet_def row_acked_def pc_free_def buf_get_iff dest: buf_get_iff [THEN iffD2, OF _ conjI])
  qed
  with det_select show ?case by (auto simp: quiet_def pc_free_def)
next
  case (det_resend now r s s' rs sts)
  then have k: "pe_event_id r \<noteq> k" by (auto simp: quiet_def pc_free_def)
  from det_resend show ?case
  proof (cases rule: resend_row_cases [of d now r s])
    case (3 t)
    let ?u = "s\<lparr>dt_out := dt_out s @ [(dd_topic_event d, build_resend_payload d r)]\<rparr>"
    have "quiet k out (?u, EResend now rs sts)"
      by (rule quiet_message [OF det_resend.prems resend_not_about [OF k]]) (use det_resend.prems in \<open>simp add: quiet_def pc_free_def\<close>)
    then have "quiet k out (?u\<lparr>dt_buf := buf_update_retry_metadata (pe_event_id r) (pe_retry_count r + 1)
        (format_iso_with_tz t) (dt_buf s)\<rparr>, EResend now rs sts)"
      by (rule quiet_buffer) (use det_resend.prems in \<open>simp_all add: quiet_def buf_wf_update row_acked_ops pc_free_def\<close>)
    then show ?thesis using 3 det_resend.hyps by simp
  qed simp_all
qed (simp_all add: quiet_def pc_free_def)

lemma det_steps_quiet: "det_steps d c c' \<Longrightarrow> quiet k out c \<Longrightarrow> quiet k out c'"
  by (induction rule: rtranclp_induct) (auto intro: det_step_quiet)

section \<open>A small detector\<close>

definition example_transition :: transition where
  "example_transition = \<lparr>tr_from = ABSENT, tr_to = PRESENT, tr_event_type = ''ENTER'', tr_mono_ns = 7,
     tr_duration_ms = 3000, tr_score = 1 / 2, tr_reason = None\<rparr>"

definition example_idle :: detector where
  "example_idle = example_detector\<lparr>dt_buf := []\<rparr>"

definition example_emitted :: detector where
  "example_emitted = fst (emit_transition example_detector_deps ''u'' CmdNotFound \<lparr>dt_us = 5000000, dt_off = 0\<rparr> example_transition example_idle)"

lemma example_insert:
  "buf_insert_pending (new_pending ''u'' sy now example_transition) [] = Inr [new_pending ''u'' sy now example_transition]"
  by (simp add: buf_insert_pending_def new_pending_def example_transition_def sqlite_int_ok_def buf_check_def
      sql_insert_ignore_def)

lemma example_emits:
  shows "emit_transition example_detector_deps ''u'' CmdNotFound \<lparr>dt_us = 5000000, dt_off = 0\<rparr> example_transition example_idle
     = (example_emitted, None)" and "length (dt_out example_emitted) = 1"
  by (simp_all add: example_emitted_def emit_transition_def example_idle_def example_detector_def example_insert
      publish_event_def Let_def is_synced_def)

section \<open>Properties\<close>

text \<open>C7: whatever the interleaving of the main loop with ACKs and with crashes, a message about an event
  goes out only after the event is on disk, and it is, first time or repeated, the message its row
  determines: two messages with the same event id are equal.\<close>

theorem published_events_are_on_disk:
  assumes "det_steps d (s, EIdle) (s', pc)" and "buf_wf (dt_buf s)" and "dt_out s = []"
  shows "(\<forall>m \<in> set (dt_out s'). fst m = dd_topic_event d \<and> (\<exists>q \<in> set (dt_buf s'). snd m = build_resend_payload d q))
    \<and> (\<forall>m \<in> set (dt_out s'). \<forall>m' \<in> set (dt_out s').
         py_subscript (snd m) ''event_id'' = py_subscript (snd m') ''event_id'' \<longrightarrow> m = m')"
proof -
  have inv: "det_inv d (s', pc)"
    using det_steps_inv [OF assms(1)] assms(2,3) by (simp add: det_inv_def pc_rows_def)
  have row: "\<exists>q. buf_get (pe_event_id q) (dt_buf s') = Some q \<and> snd m = build_resend_payload d q \<and> fst m = dd_topic_event d"
    if "m \<in> set (dt_out s')" for m
  proof -
    have "fst m = dd_topic_event d" "has_row d (dt_buf s') (snd m)" using inv that by (simp_all add: det_inv_def)
    then obtain i q where q: "buf_get i (dt_buf s') = Some q" "snd m = build_resend_payload d q" by (auto simp: has_row_def)
    with buf_get_key [OF q(1)] \<open>fst m = dd_topic_event d\<close> show ?thesis by blast
  qed
  have same: "m = m'" if m: "m \<in> set (dt_out s')" "m' \<in> set (dt_out s')"
    "py_subscript (snd m) ''event_id'' = py_subscript (snd m') ''event_id''" for m m'
  proof -
    obtain q q' where q: "buf_get (pe_event_id q) (dt_buf s') = Some q" "snd m = build_resend_payload d q"
      "buf_get (pe_event_id q') (dt_buf s') = Some q'" "snd m' = build_resend_payload d q'"
      "fst m = dd_topic_event d" "fst m' = dd_topic_event d"
      using row [OF m(1)] row [OF m(2)] by blast
    have "pe_event_id q = pe_event_id q'" using m(3) unfolding q(2,4) by (simp add: build_resend_payload_def)
    then have "q = q'" using q(1,3) by (metis option.inject)
    then show ?thesis using q(2,4,5,6) by (metis prod.expand)
  qed
  have disk: "\<exists>q \<in> set (dt_buf s'). snd m = build_resend_payload d q" if "m \<in> set (dt_out s')" for m
    using row [OF that] inv by (auto simp: det_inv_def buf_get_iff)
  have topic: "fst m = dd_topic_event d" if "m \<in> set (dt_out s')" for m using inv that by (simp add: det_inv_def)
  show ?thesis
  proof (intro conjI ballI impI)
    fix m assume m: "m \<in> set (dt_out s')"
    show "fst m = dd_topic_event d" by (rule topic [OF m])
    show "\<exists>q \<in> set (dt_buf s'). snd m = build_resend_payload d q" by (rule disk [OF m])
  next
    fix m m' assume m: "m \<in> set (dt_out s')" "m' \<in> set (dt_out s')"
      "py_subscript (snd m) ''event_id'' = py_subscript (snd m') ''event_id''"
    show "m = m'" by (rule same [OF m])
  qed
qed

theorem published_events_are_on_disk_witness:
  "length (dt_out example_emitted) = 1
   \<and> (\<exists>q \<in> set (dt_buf example_emitted). snd (hd (dt_out example_emitted)) = build_resend_payload example_detector_deps q)"
proof -
  have "buf_get ''u'' (dt_buf example_idle) = None" by (simp add: example_idle_def buf_get_def)
  from emit_transition_steps [OF this example_emits(1)]
  have "\<forall>m \<in> set (dt_out example_emitted). fst m = dd_topic_event example_detector_deps
      \<and> (\<exists>q \<in> set (dt_buf example_emitted). snd m = build_resend_payload example_detector_deps q)"
    by (rule published_events_are_on_disk [THEN conjunct1]) (simp_all add: example_idle_def example_detector_def)
  moreover have "hd (dt_out example_emitted) \<in> set (dt_out example_emitted)" using example_emits(2) by (cases "dt_out example_emitted") auto
  ultimately show ?thesis using example_emits(2) by blast
qed

text \<open>C8: once an acknowledged event is at rest, it stays acknowledged and is never published again, in
  whatever order the threads go on.\<close>

theorem acked_event_stays_acked:
  assumes "det_steps d (s, EIdle) (s', pc)" and "buf_wf (dt_buf s)"
    and "buf_get k (dt_buf s) = Some r" and "pe_status r = Acked"
  shows "(\<exists>r'. buf_get k (dt_buf s') = Some r' \<and> pe_status r' = Acked)
    \<and> (\<exists>ms. dt_out s' = dt_out s @ ms \<and> (\<forall>m \<in> set ms. py_subscript (snd m) ''event_id'' \<noteq> Inr (PStr k)))"
proof -
  have "quiet k (dt_out s) (s, EIdle)" using assms(2-4) by (simp add: quiet_def row_acked_def pc_free_def)
  then have "quiet k (dt_out s) (s', pc)" by (rule det_steps_quiet [OF assms(1)])
  then show ?thesis by (simp add: quiet_def row_acked_def not_about_def)
qed

theorem acked_event_stays_acked_witness:
  "\<exists>r. buf_get ''c'' (dt_buf (example_detector\<lparr>dt_connected := False\<rparr>)) = Some r \<and> pe_status r = Acked"
proof -
  have "det_step example_detector_deps (example_detector, EIdle)
      (example_detector\<lparr>dt_fsm := new_fsm example_fsm_config, dt_connected := False\<rparr>, EIdle)"
    by (rule det_restart)
  moreover have "example_detector\<lparr>dt_fsm := new_fsm example_fsm_config, dt_connected := False\<rparr> = example_detector\<lparr>dt_connected := False\<rparr>"
    by (simp add: example_detector_def)
  ultimately have "det_steps example_detector_deps (example_detector, EIdle) (example_detector\<lparr>dt_connected := False\<rparr>, EIdle)"
    by (metis r_into_rtranclp)
  moreover have "buf_wf (dt_buf example_detector)" "buf_get ''c'' (dt_buf example_detector) = Some (example_pending ''c'' Acked)"
    "pe_status (example_pending ''c'' Acked) = Acked"
    by (simp_all add: example_detector_def buf_wf_def buf_check_def buf_get_def example_pending_def)
  ultimately show ?thesis using acked_event_stays_acked by blast
qed

definition ack_json :: "string \<Rightarrow> string \<Rightarrow> pyval" where
  "ack_json i mk = PDict [(''event_id'', PStr i), (''mk_date_committed'', PStr mk)]"

text \<open>C10: an ACK that arrives after an event was published and before the main loop has marked it sent
  is lost: the event ends as sent, not acknowledged, and is due to be published again.\<close>

theorem early_ack_is_lost:
  assumes "buf_get i (dt_buf s) = None" and "dt_connected s" and "i \<noteq> []" and "mk \<noteq> []"
    and "buf_insert_pending (new_pending i synced now t) (dt_buf s) = Inr b"
  shows "\<exists>s1 s2 s3 r. det_steps d (s, EIdle) (s1, EPublished i)
    \<and> ack_message (Some (ack_json i mk)) s1 = (s2, None) \<and> row_acked i (dt_buf s2)
    \<and> det_step d (s2, EPublished i) (s3, EIdle)
    \<and> buf_get i (dt_buf s3) = Some r \<and> resend_due later BSent r"
proof -
  let ?p = "emit_payload d i synced now t"
  let ?s0 = "s\<lparr>dt_buf := b\<rparr>"
  let ?s1 = "?s0\<lparr>dt_out := dt_out s @ [(dd_topic_event d, ?p)]\<rparr>"
  let ?s2 = "?s1\<lparr>dt_buf := buf_mark_acked i b\<rparr>"
  let ?s3 = "?s2\<lparr>dt_buf := buf_mark_sent i (dt_buf ?s2)\<rparr>"
  have g: "buf_get i b = Some (new_pending i synced now t)"
    using buf_insert_get [OF assms(5), of i] assms(1) by (simp add: new_pending_def)
  have "det_step d (s, EIdle) (?s0, EInserted i ?p)" using assms(1,5) by (rule det_insert)
  moreover have "det_step d (?s0, EInserted i ?p) (?s1, EPublished i)"
    by (rule det_publish) (use assms(2) in \<open>simp add: publish_event_def\<close>)
  ultimately have "det_steps d (s, EIdle) (?s1, EPublished i)"
    by (meson converse_rtranclp_into_rtranclp rtranclp.rtrancl_refl)
  moreover have "ack_message (Some (ack_json i mk)) ?s1 = (?s2, None)"
    using assms(3,4) by (simp add: ack_message_def ack_json_def py_get_def dict_get_def py_truthy_def)
  moreover have "row_acked i (dt_buf ?s2)" using g by (simp add: row_acked_def buf_update_get)
  moreover have "det_step d (?s2, EPublished i) (?s3, EIdle)" by (rule det_mark)
  moreover have "buf_get i (dt_buf ?s3) = Some (new_pending i synced now t\<lparr>pe_status := BSent\<rparr>)"
    using g by (simp add: buf_update_get)
  moreover have "resend_due later BSent (new_pending i synced now t\<lparr>pe_status := BSent\<rparr>)"
    by (simp add: resend_due_def new_pending_def due_at_def)
  ultimately show ?thesis by blast
qed

theorem early_ack_is_lost_witness:
  "\<exists>s1 s2 s3 r. det_steps example_detector_deps (example_idle, EIdle) (s1, EPublished ''u'')
    \<and> ack_message (Some (ack_json ''u'' ''20260101000000'')) s1 = (s2, None) \<and> row_acked ''u'' (dt_buf s2)
    \<and> det_step example_detector_deps (s2, EPublished ''u'') (s3, EIdle)
    \<and> buf_get ''u'' (dt_buf s3) = Some r \<and> resend_due \<lparr>dt_us = 9000000, dt_off = 0\<rparr> BSent r"
  by (rule early_ack_is_lost [where synced = True and now = "\<lparr>dt_us = 5000000, dt_off = 0\<rparr>" and t = example_transition])
    (simp_all add: example_idle_def example_detector_def buf_get_def example_insert)

end
