(* ===== verification/Detector_Loop.thy ===== *)
theory Detector_Loop
  imports Detector_Main Config_Access
begin

text \<open>
  The program around the detector (\<open>services/detector/src/main.py\<close>): what it reads from its settings, the camera's
  count of failures, one turn of the frame loop and the end. What the backend detects in a frame, the clocks and the
  outcomes of the commands are inputs of a turn; ACKs that the client's thread takes in are handed to the turn they
  come in, their interleaving with single statements is in \<open>Detector_Steps\<close>. Log calls are left out.
\<close>

section \<open>Settings\<close>

record loop_settings =
  ls_threshold :: rat
  ls_category :: string
  ls_period :: rat
  ls_beat_interval :: rat
  ls_status_topic :: string
  ls_beat_topic :: string

text \<open>\<open>prefix + device_id\<close>.\<close>

definition topic_of :: "pyval \<Rightarrow> pyval \<Rightarrow> string py" where
  "topic_of prefix dev = (case (prefix, dev) of (PStr p, PStr d) \<Rightarrow> Inr (p @ d) | _ \<Rightarrow> Inl TypeError)"

definition loop_settings_of :: "pyval dict \<Rightarrow> pyval dict \<Rightarrow> loop_settings py" where
  "loop_settings_of cfg dev =
     py_bind (py_subscript (PDict dev) ''device_id'') (\<lambda>dev_id.
     py_bind (py_bind (cfg_at cfg ''inference'' ''score_threshold'') num_rat) (\<lambda>thr.
     py_bind (py_bind (cfg_at cfg ''inference'' ''category'') as_str) (\<lambda>cat.
     py_bind (section_or_empty cfg ''liveness'') (\<lambda>liv.
     py_bind (topic_of (get_or liv ''status_topic_prefix'' (PStr ''presence/status/'')) dev_id) (\<lambda>status.
     py_bind (topic_of (get_or liv ''heartbeat_topic_prefix'' (PStr ''presence/heartbeat/'')) dev_id) (\<lambda>beat.
     py_bind (num_rat (get_or liv ''heartbeat_interval_seconds'' (PInt 20))) (\<lambda>interval.
     py_bind (py_bind (cfg_at cfg ''inference'' ''target_fps'') num_rat) (\<lambda>fps.
       if fps = 0 then Inl ZeroDivisionError
       else Inr \<lparr>ls_threshold = thr, ls_category = cat, ls_period = 1 / fps, ls_beat_interval = interval,
         ls_status_topic = status, ls_beat_topic = beat\<rparr>))))))))"

definition fsm_config_of :: "pyval dict \<Rightarrow> fsm_config py" where
  "fsm_config_of cfg =
     py_bind (py_bind (cfg_at cfg ''debounce'' ''enter_seconds'') num_rat) (\<lambda>enter.
     py_bind (py_bind (cfg_at cfg ''debounce'' ''exit_seconds'') num_rat) (\<lambda>exit.
       Inr \<lparr>fc_enter_seconds = enter, fc_exit_seconds = exit\<rparr>))"

definition detector_deps_of :: "pyval dict \<Rightarrow> pyval dict \<Rightarrow> detector_deps py" where
  "detector_deps_of cfg dev =
     py_bind (py_subscript (PDict dev) ''device_id'') (\<lambda>dev_id.
     py_bind (py_bind (cfg_at cfg ''mqtt'' ''topic_event'') as_str) (\<lambda>topic.
     py_bind (bridge_policy cfg) (\<lambda>pol.
       Inr \<lparr>dd_device_id = dev_id, dd_topic_event = topic, dd_policy = pol\<rparr>)))"

section \<open>The running program\<close>

record frame_loop =
  fl_core :: detector
  fl_will :: "(string \<times> string) option"
  fl_retained :: "(string \<times> string) list"
  fl_failures :: nat
  fl_last_retry :: rat
  fl_last_health :: rat
  fl_last_beat :: rat
  fl_last_stats :: rat
  fl_slept :: rat

text \<open>
  One turn: the ACKs that came in, the frame as what is detected in it (\<open>None\<close> when the camera gives none), the
  clocks where they are read, the random id of an event, and whether the health file could be touched.
\<close>

record frame =
  fi_acks :: "pyval option list"
  fi_start :: rat
  fi_frame :: "detections option"
  fi_mono_ns :: int
  fi_event_id :: string
  fi_sync :: cmd_outcome
  fi_wall :: datetime
  fi_now :: rat
  fi_retry_wall :: datetime
  fi_touch_error :: "py_exc option"
  fi_beat_wall :: datetime
  fi_beat_sync :: cmd_outcome
  fi_end :: rat

definition camera_read :: "'f option \<Rightarrow> nat \<Rightarrow> 'f option \<times> nat" where
  "camera_read f n = (case f of None \<Rightarrow> (None, n + 1) | Some x \<Rightarrow> (Some x, 0))"

definition on_detector :: "(detector \<Rightarrow> detector run) \<Rightarrow> frame_loop \<Rightarrow> frame_loop run" where
  "on_detector f l = (case f (fl_core l) of (s, e) \<Rightarrow> (l\<lparr>fl_core := s\<rparr>, e))"

text \<open>\<open>publish_retained\<close>, \<open>publish_heartbeat\<close> and \<open>disconnect\<close> of the client.\<close>

definition publish_retained :: "string \<Rightarrow> string \<Rightarrow> frame_loop \<Rightarrow> frame_loop run" where
  "publish_retained topic payload l =
     (if \<not> dt_connected (fl_core l) then (l, Some RuntimeError)
      else (l\<lparr>fl_retained := fl_retained l @ [(topic, payload)]\<rparr>, None))"

definition publish_heartbeat :: "string \<Rightarrow> pyval \<Rightarrow> detector \<Rightarrow> detector run" where
  "publish_heartbeat topic payload s =
     (if \<not> dt_connected s then (s, Some RuntimeError) else (s\<lparr>dt_out := dt_out s @ [(topic, payload)]\<rparr>, None))"

definition disconnect :: "frame_loop \<Rightarrow> frame_loop" where
  "disconnect l = l\<lparr>fl_core := (fl_core l)\<lparr>dt_connected := False\<rparr>\<rparr>"

definition take_acks :: "frame \<Rightarrow> frame_loop \<Rightarrow> frame_loop" where
  "take_acks i l = l\<lparr>fl_core := fold (\<lambda>m s. fst (ack_message m s)) (fi_acks i) (fl_core l)\<rparr>"

definition watch_camera :: "detector_deps \<Rightarrow> frame \<Rightarrow> detections option \<Rightarrow> frame_loop \<Rightarrow> frame_loop run" where
  "watch_camera d i f l =
     (if f = None \<and> 10 \<le> fl_failures l
      then on_detector (camera_lost d (fi_event_id i) (fi_sync i) (fi_wall i) (fi_mono_ns i)) l else (l, None))"

definition observation_of :: "loop_settings \<Rightarrow> frame \<Rightarrow> detections \<Rightarrow> observation" where
  "observation_of ls i ds = (let r = detect (ls_threshold ls) (ls_category ls) ds in
     \<lparr>ob_present = dr_has_person r, ob_score = dr_top_score r, ob_mono_ns = fi_mono_ns i\<rparr>)"

definition see_frame :: "detector_deps \<Rightarrow> loop_settings \<Rightarrow> frame \<Rightarrow> detections option \<Rightarrow> frame_loop \<Rightarrow> frame_loop run" where
  "see_frame d ls i f l =
     (case f of None \<Rightarrow> (l, None)
      | Some ds \<Rightarrow> on_detector (process_observation d (fi_event_id i) (fi_sync i) (fi_wall i) (observation_of ls i ds)) l)"

definition retry_when_due :: "detector_deps \<Rightarrow> frame \<Rightarrow> frame_loop \<Rightarrow> frame_loop run" where
  "retry_when_due d i l =
     (if 5 \<le> fi_now i - fl_last_retry l
      then run_then (on_detector (retry_pending d (fi_retry_wall i)) l) (\<lambda>l. (l\<lparr>fl_last_retry := fi_now i\<rparr>, None))
      else (l, None))"

definition touch_when_due :: "frame \<Rightarrow> frame_loop \<Rightarrow> frame_loop run" where
  "touch_when_due i l =
     (if 5 \<le> fi_now i - fl_last_health l
      then (case fi_touch_error i of Some e \<Rightarrow> (l, Some e) | None \<Rightarrow> (l\<lparr>fl_last_health := fi_now i\<rparr>, None))
      else (l, None))"

definition heartbeat_json :: "detector_deps \<Rightarrow> frame \<Rightarrow> frame_loop \<Rightarrow> pyval" where
  "heartbeat_json d i l =
     PDict [(''device_id'', dd_device_id d), (''ts_iso'', PStr (format_iso_with_tz (fi_beat_wall i))),
       (''wall_clock_synced'', PBool (is_synced (fi_beat_sync i))), (''buffer_pending'', PInt (int (buf_count (dt_buf (fl_core l))))),
       (''camera_consecutive_errors'', PInt (int (fl_failures l))), (''schema_version'', PInt 1)]"

text \<open>The heartbeat never stops the program: what it raises is logged.\<close>

definition beat_when_due :: "detector_deps \<Rightarrow> loop_settings \<Rightarrow> frame \<Rightarrow> frame_loop \<Rightarrow> frame_loop" where
  "beat_when_due d ls i l =
     (if ls_beat_interval ls \<le> fi_now i - fl_last_beat l
      then (fst (on_detector (publish_heartbeat (ls_beat_topic ls) (heartbeat_json d i l)) l))\<lparr>fl_last_beat := fi_now i\<rparr>
      else l)"

definition stats_when_due :: "frame \<Rightarrow> frame_loop \<Rightarrow> frame_loop" where
  "stats_when_due i l = (if 60 \<le> fi_now i - fl_last_stats l then l\<lparr>fl_last_stats := fi_now i\<rparr> else l)"

definition sleep_rest :: "loop_settings \<Rightarrow> frame \<Rightarrow> frame_loop \<Rightarrow> frame_loop" where
  "sleep_rest ls i l =
     (let elapsed = fi_end i - fi_start i in
      if elapsed < ls_period ls then l\<lparr>fl_slept := fl_slept l + (ls_period ls - elapsed)\<rparr> else l)"

definition frame_turn :: "detector_deps \<Rightarrow> loop_settings \<Rightarrow> frame \<Rightarrow> frame_loop \<Rightarrow> frame_loop run" where
  "frame_turn d ls i l0 =
     (case camera_read (fi_frame i) (fl_failures l0) of (f, n) \<Rightarrow>
       run_then (watch_camera d i f ((take_acks i l0)\<lparr>fl_failures := n\<rparr>)) (\<lambda>l.
       run_then (see_frame d ls i f l) (\<lambda>l.
       run_then (retry_when_due d i l) (\<lambda>l.
       run_then (touch_when_due i l) (\<lambda>l.
         (sleep_rest ls i (stats_when_due i (beat_when_due d ls i l)), None))))))"

section \<open>Start and end\<close>

definition start_loop :: "loop_settings \<Rightarrow> fsm_config \<Rightarrow> pending_events \<Rightarrow> frame_loop" where
  "start_loop ls c rows =
     \<lparr>fl_core = \<lparr>dt_fsm = new_fsm c, dt_buf = rows, dt_connected = True, dt_out = []\<rparr>,
      fl_will = Some (ls_status_topic ls, ''offline''), fl_retained = [(ls_status_topic ls, ''online'')], fl_failures = 0,
      fl_last_retry = 0, fl_last_health = 0, fl_last_beat = 0, fl_last_stats = 0, fl_slept = 0\<rparr>"

text \<open>The end after a signal: \<open>offline\<close> is announced, and a failure to do so is passed over.\<close>

definition stop_loop :: "loop_settings \<Rightarrow> frame_loop \<Rightarrow> frame_loop" where
  "stop_loop ls l = disconnect (fst (publish_retained (ls_status_topic ls) ''offline'' l))"

text \<open>
  The program from its loaded settings and the rows its database holds to a signal after the given turns; an exception
  ends it without the announcement, which is then the broker's to make.
\<close>

definition detector_main :: "pyval dict \<Rightarrow> pyval dict \<Rightarrow> pending_events \<Rightarrow> frame list \<Rightarrow> frame_loop run py" where
  "detector_main cfg dev rows is =
     py_bind (fsm_config_of cfg) (\<lambda>c.
     py_bind (loop_settings_of cfg dev) (\<lambda>ls.
     py_bind (detector_deps_of cfg dev) (\<lambda>d.
       Inr (run_then (run_rows (frame_turn d ls) is (start_loop ls c rows)) (\<lambda>l. (stop_loop ls l, None))))))"

section \<open>The log of events\<close>

text \<open>What the buffer says happened: the ids and kinds of its rows, in the order they were put in.\<close>

definition event_log :: "frame_loop \<Rightarrow> (string \<times> string) list" where
  "event_log l = map (\<lambda>r. (pe_event_id r, pe_event_type r)) (dt_buf (fl_core l))"

definition buf_log :: "pending_events \<Rightarrow> (string \<times> string) list" where
  "buf_log t = map (\<lambda>r. (pe_event_id r, pe_event_type r)) t"

lemma buf_log_updates [simp]:
  "buf_log (buf_mark_sent k t) = buf_log t" "buf_log (buf_mark_acked k t) = buf_log t"
  "buf_log (buf_update_retry_metadata k n x t) = buf_log t"
  by (simp_all add: buf_log_def buf_mark_sent_def buf_mark_acked_def buf_update_retry_metadata_def sql_update_def)

lemma buf_log_insert:
  assumes "buf_insert_pending e t = Inr u" and "pe_event_id e \<notin> fst ` set (buf_log t)"
  shows "buf_log u = buf_log t @ [(pe_event_id e, pe_event_type e)]"
  using assms by (auto simp: buf_insert_pending_def sql_insert_ignore_def buf_log_def image_image split: if_splits)

definition core_view :: "detector \<Rightarrow> fsm \<times> (string \<times> string) list" where
  "core_view s = (dt_fsm s, buf_log (dt_buf s))"

lemma ack_view [simp]: "core_view (fst (ack_message m s)) = core_view s"
  by (simp add: ack_message_def core_view_def split: option.split sum.split)

lemma acks_view [simp]: "core_view (fold (\<lambda>m s. fst (ack_message m s)) ms s) = core_view s"
  by (induction ms arbitrary: s) simp_all

lemma resend_row_view: "core_view (fst (resend_row d now r s)) = core_view s"
  by (rule resend_row_cases [of d now r s]) (simp_all add: core_view_def)

lemma retry_view [simp]: "core_view (fst (retry_pending d now s)) = core_view s"
proof -
  have rows: "core_view (fst (run_rows (resend_row d now) rs u)) = core_view s" if "core_view u = core_view s" for rs u
    by (rule run_rows_invariant [where I = "\<lambda>v. core_view v = core_view s"]) (simp_all add: resend_row_view that)
  show ?thesis unfolding retry_pending_def
    by (rule run_rows_invariant [where I = "\<lambda>v. core_view v = core_view s"]) (simp_all add: resend_status_def rows)
qed

text \<open>An emission that goes through adds exactly its row.\<close>

lemma emit_view:
  assumes "emit_transition d k out now t s = (v, None)" and "k \<notin> fst ` set (buf_log (dt_buf s))"
  shows "core_view v = (dt_fsm s, buf_log (dt_buf s) @ [(k, tr_event_type t)])"
proof -
  let ?e = "new_pending k (is_synced out) now t"
  obtain b where b: "buf_insert_pending ?e (dt_buf s) = Inr b" and c: "dt_connected s"
    using assms(1) by (auto simp: emit_transition_def Let_def publish_event_def split: sum.splits if_splits)
  have "pe_event_id ?e = k" "pe_event_type ?e = tr_event_type t" by (simp_all add: new_pending_def)
  with buf_log_insert [OF b] assms(2) have "buf_log b = buf_log (dt_buf s) @ [(k, tr_event_type t)]" by simp
  with assms(1) b c show ?thesis by (auto simp: emit_transition_def Let_def publish_event_def core_view_def)
qed

text \<open>The inputs the turns give the state machine.\<close>

definition turn_input :: "loop_settings \<Rightarrow> frame \<Rightarrow> nat \<Rightarrow> fsm_input list" where
  "turn_input ls i n = (case camera_read (fi_frame i) n of
      (None, k) \<Rightarrow> if 10 \<le> k then [ForceExit (fi_mono_ns i) ''camera_lost''] else []
    | (Some ds, _) \<Rightarrow> [Observe (observation_of ls i ds)])"

definition event_of :: "string \<Rightarrow> transition \<Rightarrow> string \<times> string" where
  "event_of k t = (k, tr_event_type t)"

definition input_view ::
  "string \<Rightarrow> fsm_input list \<Rightarrow> fsm \<times> (string \<times> string) list \<Rightarrow> fsm \<times> (string \<times> string) list" where
  "input_view k ins = (\<lambda>(m, es). (snd (fsm_run ins m), es @ map (event_of k) (fst (fsm_run ins m))))"

lemma observation_view:
  assumes "process_observation d k out now obs s = (v, None)" and "k \<notin> fst ` set (buf_log (dt_buf s))"
  shows "core_view v = input_view k [Observe obs] (core_view s)"
proof -
  obtain t m where o: "observe obs (dt_fsm s) = (t, m)" by (cases "observe obs (dt_fsm s)")
  show ?thesis
  proof (cases t)
    case None
    with o assms(1) show ?thesis by (auto simp: process_observation_def core_view_def input_view_def)
  next
    case (Some x)
    with o assms(1) have "emit_transition d k out now x (s\<lparr>dt_fsm := m\<rparr>) = (v, None)" by (simp add: process_observation_def)
    from emit_view [OF this] assms(2) o Some show ?thesis by (simp add: core_view_def input_view_def event_of_def)
  qed
qed

lemma camera_lost_view:
  assumes "camera_lost d k out now t0 s = (v, None)" and "k \<notin> fst ` set (buf_log (dt_buf s))"
  shows "core_view v = input_view k [ForceExit t0 ''camera_lost''] (core_view s)"
proof -
  obtain t m where o: "force_exit t0 ''camera_lost'' (dt_fsm s) = (t, m)" by (cases "force_exit t0 ''camera_lost'' (dt_fsm s)")
  show ?thesis
  proof (cases t)
    case None
    with o assms(1) show ?thesis by (auto simp: camera_lost_def core_view_def input_view_def)
  next
    case (Some x)
    with o assms(1) have "emit_transition d k out now x (s\<lparr>dt_fsm := m\<rparr>) = (v, None)" by (simp add: camera_lost_def)
    from emit_view [OF this] assms(2) o Some show ?thesis by (simp add: core_view_def input_view_def event_of_def)
  qed
qed

lemma run_thenE:
  assumes "run_then r f = (s, None)"
  obtains u where "r = (u, None)" and "f u = (s, None)"
  using assms by (auto simp: run_then_def split: prod.splits option.splits)

lemma on_detectorE:
  assumes "on_detector f l = (l', None)"
  obtains s where "f (fl_core l) = (s, None)" and "l' = l\<lparr>fl_core := s\<rparr>"
  using assms by (auto simp: on_detector_def split: prod.splits)

definition loop_view :: "frame_loop \<Rightarrow> (fsm \<times> (string \<times> string) list) \<times> nat" where
  "loop_view l = (core_view (fl_core l), fl_failures l)"

lemma loop_view_eq: "fl_core l = s \<Longrightarrow> fl_failures l = n \<Longrightarrow> loop_view l = (core_view s, n)"
  by (simp add: loop_view_def)

lemma retry_due_view: "retry_when_due d i l = (l', None) \<Longrightarrow> loop_view l' = loop_view l"
  by (auto simp: retry_when_due_def loop_view_def split: if_splits elim!: run_thenE on_detectorE)
     (metis fst_conv retry_view)

lemma touch_view: "touch_when_due i l = (l', None) \<Longrightarrow> loop_view l' = loop_view l"
  by (auto simp: touch_when_due_def loop_view_def split: if_splits option.splits)

lemma rest_view [simp]: "loop_view (sleep_rest ls i (stats_when_due i (beat_when_due d ls i l))) = loop_view l"
  by (simp add: loop_view_def sleep_rest_def stats_when_due_def beat_when_due_def on_detector_def publish_heartbeat_def
      core_view_def Let_def)

lemma frame_turn_view:
  assumes run: "frame_turn d ls i l = (l', None)" and new: "fi_event_id i \<notin> fst ` set (event_log l)"
  shows "loop_view l' = (input_view (fi_event_id i) (turn_input ls i (fl_failures l)) (core_view (fl_core l)),
     snd (camera_read (fi_frame i) (fl_failures l)))"
proof -
  obtain f n where c: "camera_read (fi_frame i) (fl_failures l) = (f, n)" by (cases "camera_read (fi_frame i) (fl_failures l)")
  let ?k = "fi_event_id i" and ?l0 = "(take_acks i l)\<lparr>fl_failures := n\<rparr>"
  have v0: "core_view (fl_core ?l0) = core_view (fl_core l)" by (simp add: take_acks_def)
  have new0: "?k \<notin> fst ` set (buf_log (dt_buf (fl_core ?l0)))"
    using new v0 by (simp add: core_view_def event_log_def buf_log_def)
  from run c obtain l1 l2 l3 l4 where l1: "watch_camera d i f ?l0 = (l1, None)" and l2: "see_frame d ls i f l1 = (l2, None)"
    and l3: "retry_when_due d i l2 = (l3, None)" and l4: "touch_when_due i l3 = (l4, None)"
    and l': "l' = sleep_rest ls i (stats_when_due i (beat_when_due d ls i l4))"
    by (auto simp: frame_turn_def elim!: run_thenE)
  have tail: "loop_view l' = loop_view l2" unfolding l' using retry_due_view [OF l3] touch_view [OF l4] by simp
  have "loop_view l2 = (input_view ?k (turn_input ls i (fl_failures l)) (core_view (fl_core l)), n)"
  proof (cases f)
    case None
    then have l21: "l2 = l1" using l2 by (simp add: see_frame_def)
    show ?thesis
    proof (cases "10 \<le> n")
      case True
      with None l1 obtain s where s: "camera_lost d ?k (fi_sync i) (fi_wall i) (fi_mono_ns i) (fl_core ?l0) = (s, None)"
        and u: "l1 = ?l0\<lparr>fl_core := s\<rparr>" by (auto simp: watch_camera_def elim: on_detectorE)
      from camera_lost_view [OF s new0] True None c v0 show ?thesis
        unfolding l21 u by (simp add: loop_view_def turn_input_def)
    next
      case False
      with None l1 have "l1 = ?l0" by (simp add: watch_camera_def)
      with False None c v0 l21 show ?thesis by (simp add: loop_view_def turn_input_def input_view_def core_view_def)
    qed
  next
    case (Some ds)
    with l1 have u: "l1 = ?l0" by (simp add: watch_camera_def)
    from l2 Some obtain s where s: "process_observation d ?k (fi_sync i) (fi_wall i) (observation_of ls i ds) (fl_core l1) = (s, None)"
      and l2': "l2 = l1\<lparr>fl_core := s\<rparr>" by (auto simp: see_frame_def elim: on_detectorE)
    from observation_view [OF s] new0 Some c v0 show ?thesis unfolding u l2' by (simp add: loop_view_def turn_input_def)
  qed
  with tail c show ?thesis by simp
qed

fun loop_inputs :: "loop_settings \<Rightarrow> nat \<Rightarrow> frame list \<Rightarrow> fsm_input list" where
  "loop_inputs ls n [] = []"
| "loop_inputs ls n (i # is) = turn_input ls i n @ loop_inputs ls (snd (camera_read (fi_frame i) n)) is"

lemma fsm_run_append:
  "fsm_run (xs @ ys) m = (fst (fsm_run xs m) @ fst (fsm_run ys (snd (fsm_run xs m))), snd (fsm_run ys (snd (fsm_run xs m))))"
  by (induction xs arbitrary: m) (auto split: prod.split option.split)

lemma disjoint_grown: "A \<subseteq> insert k B \<Longrightarrow> k \<notin> I \<Longrightarrow> I \<inter> B = {} \<Longrightarrow> I \<inter> A = {}"
  by blast

text \<open>C28: the frame loop stores exactly the transitions of the state machine: after any turns that raise nothing,
  with ACKs, retries, heartbeats and failing frames in between, the machine is where a run over the observations
  and the camera losses takes it, and the buffer has gained one row per transition, in order, and lost none.
\<close>

theorem detector_stores_every_transition:
  assumes "run_rows (frame_turn d ls) is l = (l', None)"
    and "distinct (map fi_event_id is)" and "set (map fi_event_id is) \<inter> fst ` set (event_log l) = {}"
  shows "dt_fsm (fl_core l') = snd (fsm_run (loop_inputs ls (fl_failures l) is) (dt_fsm (fl_core l)))
     \<and> map snd (event_log l') = map snd (event_log l)
         @ map tr_event_type (fst (fsm_run (loop_inputs ls (fl_failures l) is) (dt_fsm (fl_core l))))"
  using assms
proof (induction "is" arbitrary: l)
  case Nil
  then show ?case by simp
next
  case (Cons i "is")
  let ?n = "fl_failures l" and ?m = "dt_fsm (fl_core l)"
  obtain u where u: "frame_turn d ls i l = (u, None)" "run_rows (frame_turn d ls) is u = (l', None)"
    using Cons.prems(1) by (auto split: prod.splits option.splits)
  have "fi_event_id i \<notin> fst ` set (event_log l)" using Cons.prems(3) by auto
  from frame_turn_view [OF u(1) this] have v: "dt_fsm (fl_core u) = snd (fsm_run (turn_input ls i ?n) ?m)"
    "event_log u = event_log l @ map (event_of (fi_event_id i)) (fst (fsm_run (turn_input ls i ?n) ?m))"
    "fl_failures u = snd (camera_read (fi_frame i) ?n)"
    by (simp_all add: loop_view_def core_view_def input_view_def event_log_def buf_log_def)
  have "fst ` set (event_log u) \<subseteq> insert (fi_event_id i) (fst ` set (event_log l))" unfolding v(2) by (auto simp: event_of_def)
  moreover have "fi_event_id i \<notin> set (map fi_event_id is)" using Cons.prems(2) by simp
  moreover have "set (map fi_event_id is) \<inter> fst ` set (event_log l) = {}" using Cons.prems(3) by auto
  ultimately have "set (map fi_event_id is) \<inter> fst ` set (event_log u) = {}" by (rule disjoint_grown)
  from Cons.IH [OF u(2) _ this] Cons.prems(2) show ?case
    unfolding v(3) by (simp add: fsm_run_append v(1,2) event_of_def comp_def)
qed

text \<open>A person in view of two frames, with thresholds of zero seconds.\<close>

definition ex_loop_settings :: loop_settings where
  "ex_loop_settings = \<lparr>ls_threshold = 1 / 2, ls_category = ''person'', ls_period = 1 / 5, ls_beat_interval = 20,
     ls_status_topic = ''presence/status/d1'', ls_beat_topic = ''presence/heartbeat/d1''\<rparr>"

definition ex_frame :: "string \<Rightarrow> int \<Rightarrow> frame" where
  "ex_frame k t = \<lparr>fi_acks = [None], fi_start = 0, fi_frame = Some [[(''person'', 9 / 10)]], fi_mono_ns = t, fi_event_id = k,
     fi_sync = CmdDone 0 ''yes'', fi_wall = \<lparr>dt_us = 1, dt_off = 0\<rparr>, fi_now = 1,
     fi_retry_wall = \<lparr>dt_us = 1, dt_off = 0\<rparr>, fi_touch_error = None,
     fi_beat_wall = \<lparr>dt_us = 1, dt_off = 0\<rparr>, fi_beat_sync = CmdDone 0 ''yes'', fi_end = 1\<rparr>"

definition ex_detector_deps :: detector_deps where
  "ex_detector_deps = \<lparr>dd_device_id = PStr ''d1'', dd_topic_event = ''presence/event'', dd_policy = int_policy 5 3 600\<rparr>"

definition ex_loop :: frame_loop where
  "ex_loop = start_loop ex_loop_settings \<lparr>fc_enter_seconds = 0, fc_exit_seconds = 0\<rparr> []"

lemma ex_frames_run: "snd (run_rows (frame_turn ex_detector_deps ex_loop_settings) [ex_frame ''e1'' 1, ex_frame ''e2'' 2] ex_loop) = None"
  by code_simp

lemma detector_stores_every_transition_witness:
  "\<exists>l'. run_rows (frame_turn ex_detector_deps ex_loop_settings) [ex_frame ''e1'' 1, ex_frame ''e2'' 2] ex_loop = (l', None)
     \<and> map snd (event_log l') = [''ENTER'']"
proof -
  let ?run = "run_rows (frame_turn ex_detector_deps ex_loop_settings) [ex_frame ''e1'' 1, ex_frame ''e2'' 2] ex_loop"
  have r: "?run = (fst ?run, None)" using ex_frames_run by (metis prod.collapse)
  have i: "map tr_event_type (fst (fsm_run (loop_inputs ex_loop_settings (fl_failures ex_loop) [ex_frame ''e1'' 1, ex_frame ''e2'' 2])
      (dt_fsm (fl_core ex_loop)))) = [''ENTER'']" by code_simp
  have e: "event_log ex_loop = []" by (simp add: event_log_def ex_loop_def start_loop_def)
  from detector_stores_every_transition [OF r] have "map snd (event_log (fst ?run)) = [''ENTER'']"
    unfolding i e by (simp add: ex_frame_def)
  with r show ?thesis by (intro exI conjI)
qed

end
