(* ===== verification/Child_Ack.thy ===== *)
theory Child_Ack
  imports Sql_Store Send_Loop Py_Json
begin

text \<open>
  \<open>child/ack_delivery.py\<close>: the ledger of a child's records, the session that publishes them and waits
  for the answer of the bridge, and the delivery of a CSV file. The thread of the MQTT client is the
  list of what it takes in between two looks of the waiting loop at the ledger; the clocks and the
  file's attributes are inputs.
\<close>

section \<open>The ledger\<close>

datatype delivery_status = DPending | DAcked | DLegacy | DNacked

record delivery =
  dl_destination :: string
  dl_event_id :: string
  dl_mk_date :: string
  dl_payload :: string
  dl_status :: delivery_status
  dl_last_attempt :: "rat option"
  dl_acked_at :: "string option"
  dl_nack_reason :: "string option"
  dl_nacked_at :: "string option"

type_synonym ledger = "delivery list"

definition dl_key :: "delivery \<Rightarrow> string \<times> string" where
  "dl_key r = (dl_destination r, dl_event_id r)"

text \<open>The file on disk: whether its table knows the status \<open>nacked\<close>; an older one is rebuilt.\<close>

record ledger_db =
  ldb_knows_nacked :: bool
  ldb_rows :: ledger

definition ledger_migrate :: "ledger_db \<Rightarrow> ledger_db" where
  "ledger_migrate db = \<lparr>ldb_knows_nacked = True,
     ldb_rows = map (\<lambda>r. r\<lparr>dl_nack_reason := None, dl_nacked_at := None\<rparr>) (ldb_rows db)\<rparr>"

definition ensure_schema :: "ledger_db option \<Rightarrow> ledger_db" where
  "ensure_schema db =
     (case db of
        None \<Rightarrow> \<lparr>ldb_knows_nacked = True, ldb_rows = []\<rparr>
      | Some d \<Rightarrow> if ldb_knows_nacked d then d else ledger_migrate d)"

definition store_find :: "string \<Rightarrow> string \<Rightarrow> ledger \<Rightarrow> delivery option" where
  "store_find dest event_id t = find (\<lambda>r. dl_key r = (dest, event_id)) t"

text \<open>\<open>get\<close>: the row with its payload read back.\<close>

definition store_get :: "string \<Rightarrow> string \<Rightarrow> ledger \<Rightarrow> (delivery \<times> pyval) option py" where
  "store_get dest event_id t =
     (case store_find dest event_id t of
        None \<Rightarrow> Inr None
      | Some r \<Rightarrow> py_bind (json_loads (dl_payload r)) (\<lambda>v. Inr (Some (r, v))))"

definition rec_text :: "pyval dict \<Rightarrow> string \<Rightarrow> string py" where
  "rec_text rec k = py_bind (py_subscript (PDict rec) k) as_str"

definition store_status :: "string \<Rightarrow> pyval dict \<Rightarrow> ledger \<Rightarrow> delivery_status option py" where
  "store_status dest rec t =
     py_bind (rec_text rec ''event_id'') (\<lambda>i. py_bind (store_get dest i t) (\<lambda>r. Inr (map_option (dl_status \<circ> fst) r)))"

text \<open>\<open>INSERT .. ON CONFLICT(destination, event_id) DO UPDATE\<close>.\<close>

definition upsert :: "(delivery \<Rightarrow> delivery) \<Rightarrow> delivery \<Rightarrow> ledger \<Rightarrow> ledger" where
  "upsert f r t = (if dl_key r \<in> dl_key ` set t then sql_update (\<lambda>q. dl_key q = dl_key r) f t else t @ [r])"

definition new_delivery :: "string \<Rightarrow> string \<Rightarrow> string \<Rightarrow> string \<Rightarrow> delivery_status \<Rightarrow> rat option \<Rightarrow> delivery" where
  "new_delivery dest event_id mk_date payload st attempted =
     \<lparr>dl_destination = dest, dl_event_id = event_id, dl_mk_date = mk_date, dl_payload = payload, dl_status = st,
      dl_last_attempt = attempted, dl_acked_at = None, dl_nack_reason = None, dl_nacked_at = None\<rparr>"

definition save_pending :: "(rat \<Rightarrow> string) \<Rightarrow> string \<Rightarrow> pyval dict \<Rightarrow> rat \<Rightarrow> ledger \<Rightarrow> ledger py" where
  "save_pending fr dest rec now t =
     py_bind (rec_text rec ''event_id'') (\<lambda>i. py_bind (rec_text rec ''mk_date'') (\<lambda>m.
       Inr (upsert (\<lambda>q. q\<lparr>dl_last_attempt := Some now\<rparr>)
              (new_delivery dest i m (json_dumps True fr (PDict rec)) DPending (Some now)) t)))"

definition touch_pending :: "string \<Rightarrow> string \<Rightarrow> rat \<Rightarrow> ledger \<Rightarrow> ledger" where
  "touch_pending dest event_id now t =
     sql_update (\<lambda>r. dl_key r = (dest, event_id)) (\<lambda>r. r\<lparr>dl_last_attempt := Some now\<rparr>) t"

definition store_mark_acked :: "string \<Rightarrow> string \<Rightarrow> string option \<Rightarrow> ledger \<Rightarrow> ledger" where
  "store_mark_acked dest event_id committed_at t =
     sql_update (\<lambda>r. dl_key r = (dest, event_id)) (\<lambda>r. r\<lparr>dl_status := DAcked, dl_acked_at := committed_at\<rparr>) t"

definition mark_legacy :: "(rat \<Rightarrow> string) \<Rightarrow> string \<Rightarrow> pyval dict \<Rightarrow> ledger \<Rightarrow> ledger py" where
  "mark_legacy fr dest rec t =
     py_bind (rec_text rec ''event_id'') (\<lambda>i. py_bind (rec_text rec ''mk_date'') (\<lambda>m.
       Inr (upsert (\<lambda>q. q\<lparr>dl_status := DLegacy\<rparr>) (new_delivery dest i m (json_dumps True fr (PDict rec)) DLegacy None) t)))"

definition store_mark_nacked :: "string \<Rightarrow> string \<Rightarrow> string \<Rightarrow> string option \<Rightarrow> ledger \<Rightarrow> ledger \<times> bool" where
  "store_mark_nacked dest event_id reason failed_at t =
     (let hit = (\<lambda>r. dl_key r = (dest, event_id) \<and> dl_status r = DPending)
      in (sql_update hit (\<lambda>r. r\<lparr>dl_status := DNacked, dl_nack_reason := Some reason, dl_nacked_at := failed_at\<rparr>) t,
          length (filter hit t) = 1))"

section \<open>The session\<close>

record ack_config =
  ac_destination :: string
  ac_base_topic :: string
  ac_timeout :: rat
  ac_resend_after :: rat
  ac_float :: "rat \<Rightarrow> string"
  ac_repr :: "pyval \<Rightarrow> string"

definition ack_topic :: "ack_config \<Rightarrow> string" where
  "ack_topic c = ac_base_topic c @ ''/ack''"

definition nack_topic :: "ack_config \<Rightarrow> string" where
  "nack_topic c = ac_base_topic c @ ''/nack''"

definition SUBACK_FAILURE :: int where
  "SUBACK_FAILURE = 128"

record ack_session =
  se_subscribed :: bool
  se_nack_enabled :: bool
  se_expected_mid :: "int option"
  se_store :: ledger
  se_published :: "(string \<times> string) list"

definition new_session :: "ledger \<Rightarrow> ack_session" where
  "new_session t = \<lparr>se_subscribed = False, se_nack_enabled = False, se_expected_mid = None, se_store = t, se_published = []\<rparr>"

text \<open>\<open>mid\<close> is what \<open>subscribe\<close> answers.\<close>

definition on_connect :: "int \<Rightarrow> ack_session \<Rightarrow> ack_session" where
  "on_connect mid s = s\<lparr>se_subscribed := False, se_nack_enabled := False, se_expected_mid := Some mid\<rparr>"

definition on_subscribe :: "int \<Rightarrow> int list \<Rightarrow> ack_session \<Rightarrow> ack_session" where
  "on_subscribe mid granted s =
     (if Some mid \<noteq> se_expected_mid s then s
      else s\<lparr>se_nack_enabled := (2 \<le> length granted \<and> granted ! 1 \<noteq> SUBACK_FAILURE),
             se_subscribed := (1 \<le> length granted \<and> granted ! 0 \<noteq> SUBACK_FAILURE)\<rparr>)"

definition on_disconnect :: "ack_session \<Rightarrow> ack_session" where
  "on_disconnect s = s\<lparr>se_subscribed := False, se_nack_enabled := False\<rparr>"

text \<open>\<open>data.get(k) or None\<close> of an annotated string.\<close>

definition handle_ack :: "ack_config \<Rightarrow> raw_bytes \<Rightarrow> ack_session \<Rightarrow> ack_session run" where
  "handle_ack c payload s =
     (case decode_json payload of
        Inl ValueError \<Rightarrow> (s, None)
      | Inl e \<Rightarrow> (s, Some e)
      | Inr data \<Rightarrow>
          (case py_get data ''event_id'' of
             Inl e \<Rightarrow> (s, Some e)
           | Inr i \<Rightarrow>
               if \<not> py_truthy i then (s, None)
               else (case py_bind (as_str i) (\<lambda>i. py_bind (store_get (ac_destination c) i (se_store s)) (\<lambda>r. Inr (i, r))) of
                   Inl e \<Rightarrow> (s, Some e)
                 | Inr (i, None) \<Rightarrow> (s, None)
                 | Inr (i, Some (r, v)) \<Rightarrow>
                     if dl_status r \<noteq> DPending then (s, None)
                     else (case py_get data ''mk_date_committed'' of
                         Inl e \<Rightarrow> (s, Some e)
                       | Inr m \<Rightarrow>
                           if PStr (dl_mk_date r) \<noteq> m then (s, None)
                           else (case py_bind (py_get data ''committed_at'') as_str_opt of
                               Inl e \<Rightarrow> (s, Some e)
                             | Inr at_iso \<Rightarrow>
                                 (s\<lparr>se_store := store_mark_acked (ac_destination c) i at_iso (se_store s)\<rparr>, None))))))"

definition handle_nack :: "ack_config \<Rightarrow> raw_bytes \<Rightarrow> ack_session \<Rightarrow> ack_session run" where
  "handle_nack c payload s =
     (if \<not> se_nack_enabled s then (s, None)
      else (case decode_json payload of
          Inl ValueError \<Rightarrow> (s, None)
        | Inl e \<Rightarrow> (s, Some e)
        | Inr data \<Rightarrow>
            (case py_get data ''event_id'' of
               Inl e \<Rightarrow> (s, Some e)
             | Inr i \<Rightarrow>
                 if \<not> py_truthy i then (s, None)
                 else (case py_bind (as_str i) (\<lambda>i. py_bind (store_get (ac_destination c) i (se_store s)) (\<lambda>r. Inr (i, r))) of
                     Inl e \<Rightarrow> (s, Some e)
                   | Inr (i, None) \<Rightarrow> (s, None)
                   | Inr (i, Some (r, v)) \<Rightarrow>
                       if dl_status r \<noteq> DPending then (s, None)
                       else (case py_bind (py_get data ''reason'') (\<lambda>w. py_bind (py_get data ''failed_at_iso'') (\<lambda>f.
                               py_bind (if py_truthy f then as_str_opt f else Inr None) (\<lambda>f.
                                 Inr (if py_truthy w then py_str (ac_repr c) w else [], f)))) of
                           Inl e \<Rightarrow> (s, Some e)
                         | Inr (reason, failed_at) \<Rightarrow>
                             (s\<lparr>se_store := fst (store_mark_nacked (ac_destination c) i reason failed_at (se_store s))\<rparr>, None))))))"

definition on_message :: "ack_config \<Rightarrow> bool \<Rightarrow> string \<Rightarrow> raw_bytes \<Rightarrow> ack_session \<Rightarrow> ack_session run" where
  "on_message c retain topic payload s =
     (if retain then (s, None)
      else if topic = ack_topic c then handle_ack c payload s
      else if topic = nack_topic c then handle_nack c payload s
      else (s, None))"

text \<open>What the thread of the client can do to the session.\<close>

datatype session_input =
    SConnect int
  | SSubscribed int "int list"
  | SDisconnect
  | SMessage bool string raw_bytes

fun session_step :: "ack_config \<Rightarrow> session_input \<Rightarrow> ack_session \<Rightarrow> ack_session" where
  "session_step c (SConnect mid) s = on_connect mid s"
| "session_step c (SSubscribed mid granted) s = on_subscribe mid granted s"
| "session_step c SDisconnect s = on_disconnect s"
| "session_step c (SMessage retain topic payload) s = fst (on_message c retain topic payload s)"

definition session_run :: "ack_config \<Rightarrow> session_input list \<Rightarrow> ack_session \<Rightarrow> ack_session" where
  "session_run c ins s = fold (session_step c) ins s"

section \<open>Sending\<close>

datatype send_outcome = OutAcked | OutNacked | OutPending

text \<open>
  Equality of two dicts does not depend on the order of the keys, and a number is equal to the same
  number of another type.
\<close>

definition scalar_num :: "pyval \<Rightarrow> rat option" where
  "scalar_num v = (case v of PInt i \<Rightarrow> Some (of_int i) | PFloat q \<Rightarrow> Some q | PBool b \<Rightarrow> Some (if b then 1 else 0) | _ \<Rightarrow> None)"

definition scalar_eq :: "pyval \<Rightarrow> pyval \<Rightarrow> bool" where
  "scalar_eq v w = (v = w \<or> scalar_num v \<noteq> None \<and> scalar_num v = scalar_num w)"

definition dict_eq :: "pyval \<Rightarrow> pyval dict \<Rightarrow> bool" where
  "dict_eq v e = (case v of
      PDict d \<Rightarrow> set (dict_keys d) = set (dict_keys e)
        \<and> (\<forall>k \<in> set (dict_keys d). scalar_eq (the (dict_get d k)) (the (dict_get e k)))
    | _ \<Rightarrow> False)"

text \<open>
  What the world does during one call: the code \<open>publish\<close> answers, the reading of the monotonic clock
  at the start of the wait and at each look at the ledger, and what the client's thread takes in
  before each look.
\<close>

record wait_env =
  we_rc :: int
  we_start :: rat
  we_clock :: "nat \<Rightarrow> rat"
  we_inputs :: "nat \<Rightarrow> session_input list"

type_synonym send_result = "(ack_session \<times> send_outcome py) option"

text \<open>The loop of \<open>_publish_and_wait\<close>: \<open>None\<close> when it never ends.\<close>

partial_function (option) wait_loop :: "ack_config \<Rightarrow> wait_env \<Rightarrow> string \<Rightarrow> rat \<Rightarrow> nat \<Rightarrow> ack_session \<Rightarrow> send_result" where
  "wait_loop c env event_id deadline n s =
     (let s' = session_run c (we_inputs env n) s
      in case store_get (ac_destination c) event_id (se_store s') of
           Inl e \<Rightarrow> Some (s', Inl e)
         | Inr row \<Rightarrow>
             if map_option (dl_status \<circ> fst) row = Some DAcked then Some (s', Inr OutAcked)
             else if map_option (dl_status \<circ> fst) row = Some DNacked then Some (s', Inr OutNacked)
             else if deadline \<le> we_clock env n then Some (s', Inr OutPending)
             else wait_loop c env event_id deadline (Suc n) s')"

definition publish_and_wait :: "ack_config \<Rightarrow> wait_env \<Rightarrow> string \<Rightarrow> pyval dict \<Rightarrow> ack_session \<Rightarrow> send_result" where
  "publish_and_wait c env event_id rec s =
     (let s' = s\<lparr>se_published := se_published s @ [(ac_base_topic c, json_dumps True (ac_float c) (PDict rec))]\<rparr>
      in if we_rc env \<noteq> 0 then Some (s', Inr OutPending)
         else wait_loop c env event_id (we_start env + ac_timeout c) 0 s')"

definition session_send :: "ack_config \<Rightarrow> wait_env \<Rightarrow> rat \<Rightarrow> pyval dict \<Rightarrow> ack_session \<Rightarrow> send_result" where
  "session_send c env now rec s =
     (if \<not> se_subscribed s then Some (s, Inr OutPending)
      else (case py_bind (rec_text rec ''event_id'') (\<lambda>i. py_bind (store_get (ac_destination c) i (se_store s)) (\<lambda>r. Inr (i, r))) of
          Inl e \<Rightarrow> Some (s, Inl e)
        | Inr (i, None) \<Rightarrow>
            (case save_pending (ac_float c) (ac_destination c) rec now (se_store s) of
               Inl e \<Rightarrow> Some (s, Inl e)
             | Inr t \<Rightarrow> publish_and_wait c env i rec (s\<lparr>se_store := t\<rparr>))
        | Inr (i, Some (r, v)) \<Rightarrow>
            if dl_status r = DLegacy then Some (s, Inr OutPending)
            else if \<not> dict_eq v rec then Some (s, Inl ValueError)
            else if dl_status r = DAcked then Some (s, Inr OutAcked)
            else if dl_status r = DNacked then Some (s, Inr OutNacked)
            else if (case dl_last_attempt r of None \<Rightarrow> False | Some a \<Rightarrow> now - a < ac_resend_after c)
              then Some (s, Inr OutPending)
            else publish_and_wait c env i rec (s\<lparr>se_store := touch_pending (ac_destination c) i now (se_store s)\<rparr>)))"

section \<open>Delivering a file\<close>

record delivery_result =
  rs_acked :: nat
  rs_invalid :: nat
  rs_pending :: nat
  rs_nacked :: nat
  rs_complete :: bool
  rs_nacked_rows :: "(nat \<times> string) list"

definition empty_result :: delivery_result where
  "empty_result = \<lparr>rs_acked = 0, rs_invalid = 0, rs_pending = 0, rs_nacked = 0, rs_complete = False, rs_nacked_rows = []\<rparr>"

text \<open>\<open>late n\<close>: the time is up before line \<open>n\<close>; then the rest is left, which the flag tells.\<close>

fun deliver_lines :: "(nat \<Rightarrow> bool) \<Rightarrow> (string \<Rightarrow> pyval dict option) \<Rightarrow> (nat \<Rightarrow> pyval dict \<Rightarrow> 's \<Rightarrow> ('s \<times> send_outcome py) option)
    \<Rightarrow> nat \<Rightarrow> string list \<Rightarrow> delivery_result \<Rightarrow> 's \<Rightarrow> ('s \<times> (delivery_result \<times> bool) py) option" where
  "deliver_lines late parse send n [] acc s = Some (s, Inr (acc, False))"
| "deliver_lines late parse send n (raw # ls) acc s =
     (if late n then Some (s, Inr (acc, True))
      else
        (let line = strip raw
         in if line = [] then deliver_lines late parse send (Suc n) ls acc s
            else (case parse line of
                None \<Rightarrow> deliver_lines late parse send (Suc n) ls (acc\<lparr>rs_invalid := Suc (rs_invalid acc)\<rparr>) s
              | Some rec \<Rightarrow>
                  (case send n rec s of
                     None \<Rightarrow> None
                   | Some (s', Inl e) \<Rightarrow> Some (s', Inl e)
                   | Some (s', Inr OutAcked) \<Rightarrow>
                       deliver_lines late parse send (Suc n) ls (acc\<lparr>rs_acked := Suc (rs_acked acc)\<rparr>) s'
                   | Some (s', Inr OutNacked) \<Rightarrow>
                       (case rec_text rec ''event_id'' of
                          Inl e \<Rightarrow> Some (s', Inl e)
                        | Inr i \<Rightarrow> deliver_lines late parse send (Suc n) ls
                            (acc\<lparr>rs_nacked := Suc (rs_nacked acc), rs_nacked_rows := rs_nacked_rows acc @ [(n, i)]\<rparr>) s')
                   | Some (s', Inr OutPending) \<Rightarrow>
                       deliver_lines late parse send (Suc n) ls (acc\<lparr>rs_pending := Suc (rs_pending acc)\<rparr>) s'))))"

definition file_lines :: "string \<Rightarrow> string list" where
  "file_lines t = butlast (split_on CHR 0x0A t)"

definition deliver_file :: "string \<Rightarrow> bool \<Rightarrow> (nat \<Rightarrow> bool) \<Rightarrow> (string \<Rightarrow> pyval dict option)
    \<Rightarrow> (nat \<Rightarrow> pyval dict \<Rightarrow> 's \<Rightarrow> ('s \<times> send_outcome py) option) \<Rightarrow> 's \<Rightarrow> ('s \<times> delivery_result py) option" where
  "deliver_file content unchanged late parse send s =
     (case deliver_lines late parse send 1 (file_lines content) empty_result s of
        None \<Rightarrow> None
      | Some (s', Inl e) \<Rightarrow> Some (s', Inl e)
      | Some (s', Inr (acc, truncated)) \<Rightarrow>
          Some (s', Inr (acc\<lparr>rs_complete := (\<not> truncated \<and> (ends_with [CHR 0x0A] content \<or> content = []) \<and> unchanged
                                  \<and> rs_invalid acc = 0 \<and> rs_pending acc = 0)\<rparr>)))"

section \<open>Facts\<close>

lemma store_find_update:
  assumes "\<And>r. dl_key (f r) = dl_key r"
  shows "store_find dest k (sql_update P f t) = map_option (\<lambda>r. if P r then f r else r) (store_find dest k t)"
  unfolding store_find_def sql_update_def by (rule find_map_preserve) (simp add: assms)

lemma store_find_key: "store_find dest k t = Some r \<Longrightarrow> dl_key r = (dest, k)"
  by (auto simp: store_find_def find_Some_iff)

lemma store_find_ops:
  "store_find dest k (touch_pending dest' i now t)
     = map_option (\<lambda>r. if dl_key r = (dest', i) then r\<lparr>dl_last_attempt := Some now\<rparr> else r) (store_find dest k t)"
  "store_find dest k (store_mark_acked dest' i a t)
     = map_option (\<lambda>r. if dl_key r = (dest', i) then r\<lparr>dl_status := DAcked, dl_acked_at := a\<rparr> else r) (store_find dest k t)"
  "store_find dest k (fst (store_mark_nacked dest' i w f t))
     = map_option (\<lambda>r. if dl_key r = (dest', i) \<and> dl_status r = DPending
          then r\<lparr>dl_status := DNacked, dl_nack_reason := Some w, dl_nacked_at := f\<rparr> else r) (store_find dest k t)"
  by (simp_all add: touch_pending_def store_mark_acked_def store_mark_nacked_def Let_def store_find_update dl_key_def)

lemma store_find_upsert_new:
  assumes "store_find dest k t = Some r" and "dl_key q \<noteq> (dest, k)" and "\<And>r. dl_key (f r) = dl_key r"
  shows "store_find dest k (upsert f q t) = Some r"
  using assms store_find_key [OF assms(1)]
  by (auto simp: upsert_def store_find_update) (simp add: store_find_def find_append)

lemma store_get_find: "store_get dest i t = Inr (Some (r, v)) \<Longrightarrow> store_find dest i t = Some r"
  by (auto simp: store_get_def py_bind_Inr_iff split: option.splits)

lemma store_get_None: "store_get dest i t = Inr None \<Longrightarrow> store_find dest i t = None"
  by (auto simp: store_get_def py_bind_Inr_iff split: option.splits)

text \<open>A row that is not pending is left alone by everything the client's thread does.\<close>

definition settled_row :: "ack_config \<Rightarrow> string \<Rightarrow> delivery \<Rightarrow> ack_session \<Rightarrow> bool" where
  "settled_row c k r s = (store_find (ac_destination c) k (se_store s) = Some r \<and> dl_status r \<noteq> DPending)"

lemma settled_row_other:
  "settled_row c k r s \<Longrightarrow> store_find (ac_destination c) k t = store_find (ac_destination c) k (se_store s) \<Longrightarrow>
     settled_row c k r (s\<lparr>se_store := t\<rparr>)"
  by (simp add: settled_row_def)

lemma handle_ack_store:
  obtains "fst (handle_ack c payload s) = s"
  | i r a where "fst (handle_ack c payload s) = s\<lparr>se_store := store_mark_acked (ac_destination c) i a (se_store s)\<rparr>"
      and "store_find (ac_destination c) i (se_store s) = Some r" and "dl_status r = DPending"
proof -
  have "fst (handle_ack c payload s) = s \<or>
      (\<exists>i r a. fst (handle_ack c payload s) = s\<lparr>se_store := store_mark_acked (ac_destination c) i a (se_store s)\<rparr>
        \<and> store_find (ac_destination c) i (se_store s) = Some r \<and> dl_status r = DPending)"
    unfolding handle_ack_def
    by (auto simp: py_bind_Inr_iff dest!: store_get_find split: sum.split py_exc.split option.split prod.split if_split)
  with that show thesis by blast
qed

lemma handle_nack_store:
  obtains "fst (handle_nack c payload s) = s"
  | i w f where "fst (handle_nack c payload s)
      = s\<lparr>se_store := fst (store_mark_nacked (ac_destination c) i w f (se_store s))\<rparr>"
proof -
  have "fst (handle_nack c payload s) = s \<or>
      (\<exists>i w f. fst (handle_nack c payload s) = s\<lparr>se_store := fst (store_mark_nacked (ac_destination c) i w f (se_store s))\<rparr>)"
    unfolding handle_nack_def by (auto split: sum.split py_exc.split option.split prod.split if_split)
  with that show thesis by blast
qed

lemma handle_settled:
  assumes "settled_row c k r s"
  shows "settled_row c k r (fst (handle_ack c payload s))" and "settled_row c k r (fst (handle_nack c payload s))"
proof -
  show "settled_row c k r (fst (handle_ack c payload s))"
  proof (cases rule: handle_ack_store [of c payload s])
    case (2 i q a)
    show ?thesis
    proof (cases "i = k")
      case True
      with 2 assms show ?thesis by (simp add: settled_row_def)
    next
      case False
      with assms store_find_key [of "ac_destination c" k "se_store s" r] 2(1) show ?thesis
        by (auto simp: settled_row_def store_find_ops)
    qed
  qed (use assms in simp)
  show "settled_row c k r (fst (handle_nack c payload s))"
    by (rule handle_nack_store [of c payload s]) (use assms in \<open>auto simp: settled_row_def store_find_ops\<close>)
qed

lemma session_step_settled: "settled_row c k r s \<Longrightarrow> settled_row c k r (session_step c i s)"
  using handle_settled
  by (cases i) (auto simp: settled_row_def on_connect_def on_subscribe_def on_disconnect_def on_message_def)

lemma session_run_settled: "settled_row c k r s \<Longrightarrow> settled_row c k r (session_run c ins s)"
  unfolding session_run_def by (rule fold_invariant_list) (simp_all add: session_step_settled)

definition has_status :: "ack_config \<Rightarrow> string \<Rightarrow> delivery_status \<Rightarrow> ack_session \<Rightarrow> bool" where
  "has_status c k st s = (\<exists>r. store_find (ac_destination c) k (se_store s) = Some r \<and> dl_status r = st)"

text \<open>The wait is a run of the client's thread, and its answer is what the ledger says at the end.\<close>

definition wait_answer :: "ack_config \<Rightarrow> string \<Rightarrow> ack_session \<Rightarrow> ack_session \<times> send_outcome py \<Rightarrow> bool" where
  "wait_answer c i s y = ((\<exists>ins. fst y = session_run c ins s)
     \<and> (snd y = Inr OutAcked \<longrightarrow> has_status c i DAcked (fst y)) \<and> (snd y = Inr OutNacked \<longrightarrow> has_status c i DNacked (fst y)))"

lemma session_run_append: "session_run c (xs @ ys) s = session_run c ys (session_run c xs s)"
  by (simp add: session_run_def)

lemma wait_answer_later: "wait_answer c i (session_run c xs s) y \<Longrightarrow> wait_answer c i s y"
  unfolding wait_answer_def by (metis session_run_append)

lemma wait_loop_answer:
  assumes "wait_loop c env i dl n s = Some y"
  shows "wait_answer c i s y"
proof (rule wait_loop.raw_induct [where P = "\<lambda>c env i dl n s y. wait_answer c i s y", OF _ assms])
  fix wait :: "ack_config \<Rightarrow> wait_env \<Rightarrow> string \<Rightarrow> rat \<Rightarrow> nat \<Rightarrow> ack_session \<Rightarrow> send_result"
    and c :: ack_config and env :: wait_env and i dl n s y
  let ?s = "session_run c (we_inputs env n) s"
  assume IH: "\<And>c env i dl n s y. wait c env i dl n s = Some y \<Longrightarrow> wait_answer c i s y"
    and y: "(let s' = session_run c (we_inputs env n) s
      in case store_get (ac_destination c) i (se_store s') of
           Inl e \<Rightarrow> Some (s', Inl e)
         | Inr row \<Rightarrow>
             if map_option (dl_status \<circ> fst) row = Some DAcked then Some (s', Inr OutAcked)
             else if map_option (dl_status \<circ> fst) row = Some DNacked then Some (s', Inr OutNacked)
             else if dl \<le> we_clock env n then Some (s', Inr OutPending)
             else wait c env i dl (Suc n) s') = Some y"
  have here: "wait_answer c i s (?s, out)"
    if "out = Inr OutAcked \<longrightarrow> has_status c i DAcked ?s" "out = Inr OutNacked \<longrightarrow> has_status c i DNacked ?s" for out
    using that by (auto simp: wait_answer_def)
  have status: "has_status c i st ?s"
    if "store_get (ac_destination c) i (se_store ?s) = Inr row" "map_option (dl_status \<circ> fst) row = Some st" for row st
    using that by (auto simp: has_status_def dest: store_get_find)
  show "wait_answer c i s y"
    using y here status wait_answer_later [OF IH] by (auto simp: Let_def split: sum.splits if_splits)
qed

lemma wait_loop_returns: "dl \<le> we_clock env (n + m) \<Longrightarrow> wait_loop c env i dl n s \<noteq> None"
proof (induction m arbitrary: n s)
  case 0
  then show ?case by (subst wait_loop.simps) (auto simp: Let_def split: sum.split)
next
  case (Suc m)
  then have "wait_loop c env i dl (Suc n) u \<noteq> None" for u by simp
  then show ?case by (subst wait_loop.simps) (auto simp: Let_def split: sum.split)
qed

lemma handle_published:
  "se_published (fst (handle_ack c payload s)) = se_published s"
  "se_published (fst (handle_nack c payload s)) = se_published s"
  by (rule handle_ack_store [of c payload s], simp_all) (rule handle_nack_store [of c payload s], simp_all)

lemma session_step_published [simp]: "se_published (session_step c i s) = se_published s"
  by (cases i) (auto simp: on_connect_def on_subscribe_def on_disconnect_def on_message_def handle_published)

lemma session_run_published [simp]: "se_published (session_run c ins s) = se_published s"
  unfolding session_run_def by (induction ins arbitrary: s) simp_all

section \<open>What a transport promises\<close>

text \<open>
  Delivering a file relies on this of the way records are sent: an answer other than pending says
  that the record is settled, and what is settled stays so.
\<close>

locale transport =
  fixes send :: "nat \<Rightarrow> pyval dict \<Rightarrow> 's \<Rightarrow> ('s \<times> send_outcome py) option"
    and settled :: "string \<Rightarrow> 's \<Rightarrow> bool"
  assumes send_settles: "send n rec s = Some (s', Inr out) \<Longrightarrow> out \<noteq> OutPending \<Longrightarrow>
      \<exists>i. rec_text rec ''event_id'' = Inr i \<and> settled i s'"
    and send_keeps: "settled i s \<Longrightarrow> send n rec s = Some (s', r) \<Longrightarrow> settled i s'"
begin

lemma deliver_keeps:
  "deliver_lines late parse send n ls acc s = Some (s', r) \<Longrightarrow> settled i s \<Longrightarrow> settled i s'"
proof (induction ls arbitrary: n acc s)
  case Nil
  then show ?case by simp
next
  case (Cons l ls)
  note keeps = Cons.IH [OF _ Cons.prems(2)] Cons.IH [OF _ send_keeps [OF Cons.prems(2)]] send_keeps [OF Cons.prems(2)]
  from Cons.prems show ?case
    by (auto simp: Let_def split: if_splits option.splits prod.splits sum.splits send_outcome.splits elim: keeps)
qed

definition line_settled :: "(string \<Rightarrow> pyval dict option) \<Rightarrow> 's \<Rightarrow> string \<Rightarrow> bool" where
  "line_settled parse s l = (strip l = [] \<or>
     (\<exists>rec i. parse (strip l) = Some rec \<and> rec_text rec ''event_id'' = Inr i \<and> settled i s))"

lemma deliver_counts:
  "deliver_lines late parse send n ls acc s = Some (s', Inr (res, tr)) \<Longrightarrow>
     rs_invalid acc \<le> rs_invalid res \<and> rs_pending acc \<le> rs_pending res"
proof (induction ls arbitrary: n acc s)
  case Nil
  then show ?case by simp
next
  case (Cons l ls)
  from Cons.prems show ?case
    by (auto simp: Let_def dest!: Cons.IH split: if_splits option.splits prod.splits sum.splits send_outcome.splits)
qed

lemma line_settled_keeps:
  "line_settled parse s l \<Longrightarrow> deliver_lines late parse send n ls acc s = Some (s', r) \<Longrightarrow> line_settled parse s' l"
  using deliver_keeps unfolding line_settled_def by blast

lemma deliver_all_settled:
  "deliver_lines late parse send n ls acc s = Some (s', Inr (res, False)) \<Longrightarrow> rs_invalid res = 0 \<Longrightarrow> rs_pending res = 0 \<Longrightarrow>
     l \<in> set ls \<Longrightarrow> line_settled parse s' l"
proof (induction ls arbitrary: n acc s)
  case Nil
  then show ?case by simp
next
  case (Cons m ls)
  obtain acc' u where step: "deliver_lines late parse send (Suc n) ls acc' u = Some (s', Inr (res, False))"
    and line: "line_settled parse u m \<or> 0 < rs_invalid acc' \<or> 0 < rs_pending acc'"
  proof (cases "strip m = []")
    case True
    then show thesis using Cons.prems(1) that [of acc s] by (auto simp: line_settled_def split: if_splits)
  next
    case nonblank: False
    show thesis
    proof (cases "parse (strip m)")
      case None
      then show thesis using nonblank Cons.prems(1) that [of "acc\<lparr>rs_invalid := Suc (rs_invalid acc)\<rparr>" s]
        by (auto simp: Let_def split: if_splits)
    next
      case (Some rec)
      then obtain v out where v: "send n rec s = Some (v, Inr out)"
        using nonblank Cons.prems(1) by (auto simp: Let_def split: if_splits option.splits prod.splits sum.splits)
      have set: "line_settled parse v m" if "out \<noteq> OutPending"
        using send_settles [OF v that] Some by (auto simp: line_settled_def)
      show thesis
        using nonblank Some v set Cons.prems(1) that [of "acc\<lparr>rs_acked := Suc (rs_acked acc)\<rparr>" v]
          that [of "acc\<lparr>rs_pending := Suc (rs_pending acc)\<rparr>" v]
          that [of "acc\<lparr>rs_nacked := Suc (rs_nacked acc), rs_nacked_rows := rs_nacked_rows acc @ [(n, i)]\<rparr>" v for i]
        by (cases out) (auto simp: Let_def split: if_splits sum.splits)
    qed
  qed
  have "line_settled parse s' m"
    using line deliver_counts [OF step] Cons.prems(2,3) line_settled_keeps [OF _ step] by auto
  moreover have "line_settled parse s' l" if "l \<in> set ls" using Cons.IH [OF step Cons.prems(2,3) that] .
  ultimately show ?case using Cons.prems(4) by auto
qed

lemma complete_settled:
  assumes "deliver_file content unchanged late parse send s = Some (s', Inr res)" and "rs_complete res"
  shows "unchanged \<and> (ends_with [CHR 0x0A] content \<or> content = [])" and "l \<in> set (file_lines content) \<Longrightarrow> line_settled parse s' l"
proof -
  obtain acc tr where d: "deliver_lines late parse send 1 (file_lines content) empty_result s = Some (s', Inr (acc, tr))"
    and res: "res = acc\<lparr>rs_complete := (\<not> tr \<and> (ends_with [CHR 0x0A] content \<or> content = []) \<and> unchanged
        \<and> rs_invalid acc = 0 \<and> rs_pending acc = 0)\<rparr>"
    using assms(1) by (auto simp: deliver_file_def split: option.splits prod.splits sum.splits)
  show "unchanged \<and> (ends_with [CHR 0x0A] content \<or> content = [])" using assms(2) res by simp
  have "tr = False" "rs_invalid acc = 0" "rs_pending acc = 0" using assms(2) res by simp_all
  with d show "l \<in> set (file_lines content) \<Longrightarrow> line_settled parse s' l" by (blast intro: deliver_all_settled)
qed

end

text \<open>The session is a transport: an answer says that the row is settled, a settled row stays as it is.\<close>

definition session_settled :: "ack_config \<Rightarrow> string \<Rightarrow> ack_session \<Rightarrow> bool" where
  "session_settled c i s = (has_status c i DAcked s \<or> has_status c i DNacked s)"

lemma publish_and_wait_answer:
  assumes "publish_and_wait c env i rec s = Some y"
  obtains ins where "fst y = session_run c ins (s\<lparr>se_published := se_published s @ [(ac_base_topic c, json_dumps True (ac_float c) (PDict rec))]\<rparr>)"
    and "snd y = Inr OutAcked \<longrightarrow> has_status c i DAcked (fst y)" and "snd y = Inr OutNacked \<longrightarrow> has_status c i DNacked (fst y)"
proof (cases "we_rc env = 0")
  case False
  with assms have "y = (s\<lparr>se_published := se_published s @ [(ac_base_topic c, json_dumps True (ac_float c) (PDict rec))]\<rparr>, Inr OutPending)"
    by (simp add: publish_and_wait_def Let_def)
  then show thesis by (intro that [of "[]"]) (simp_all add: session_run_def)
next
  case True
  with assms have "wait_loop c env i (we_start env + ac_timeout c) 0
      (s\<lparr>se_published := se_published s @ [(ac_base_topic c, json_dumps True (ac_float c) (PDict rec))]\<rparr>) = Some y"
    by (simp add: publish_and_wait_def Let_def)
  then have "wait_answer c i (s\<lparr>se_published := se_published s @ [(ac_base_topic c, json_dumps True (ac_float c) (PDict rec))]\<rparr>) y"
    by (rule wait_loop_answer)
  then show thesis using that by (auto simp: wait_answer_def)
qed

text \<open>The ways a call of \<open>send\<close> can go.\<close>

lemma session_send_cases:
  assumes "session_send c env now rec s = Some y"
  obtains (quiet) "fst y = s" "snd y = Inr OutAcked \<longrightarrow> (\<exists>i. rec_text rec ''event_id'' = Inr i \<and> has_status c i DAcked s)"
      "snd y = Inr OutNacked \<longrightarrow> (\<exists>i. rec_text rec ''event_id'' = Inr i \<and> has_status c i DNacked s)"
  | (fresh) i t where "rec_text rec ''event_id'' = Inr i" and "store_find (ac_destination c) i (se_store s) = None"
      and "save_pending (ac_float c) (ac_destination c) rec now (se_store s) = Inr t"
      and "publish_and_wait c env i rec (s\<lparr>se_store := t\<rparr>) = Some y" and "se_subscribed s"
  | (again) i r where "rec_text rec ''event_id'' = Inr i" and "store_find (ac_destination c) i (se_store s) = Some r"
      and "dl_status r = DPending" and "\<forall>a. dl_last_attempt r = Some a \<longrightarrow> ac_resend_after c \<le> now - a"
      and "publish_and_wait c env i rec (s\<lparr>se_store := touch_pending (ac_destination c) i now (se_store s)\<rparr>) = Some y"
      and "se_subscribed s"
proof (cases "se_subscribed s")
  case False
  with assms quiet show thesis by (auto simp: session_send_def)
next
  case sub: True
  show thesis
  proof (cases "rec_text rec ''event_id''")
    case (Inl e)
    with assms sub quiet show thesis by (auto simp: session_send_def)
  next
    case (Inr i)
    show thesis
    proof (cases "store_get (ac_destination c) i (se_store s)")
      case (Inl e)
      with assms sub \<open>rec_text rec ''event_id'' = Inr i\<close> quiet show thesis by (auto simp: session_send_def)
    next
      case got: (Inr row)
      show thesis
      proof (cases row)
        case None
        show thesis
        proof (cases "save_pending (ac_float c) (ac_destination c) rec now (se_store s)")
          case (Inl e)
          with assms sub Inr got None quiet show thesis by (auto simp: session_send_def)
        next
          case saved: (Inr t)
          with assms sub Inr got None fresh [of i t] store_get_None show thesis by (simp add: session_send_def)
        qed
      next
        case (Some rv)
        obtain r v where rv: "rv = (r, v)" by (cases rv)
        have found: "store_find (ac_destination c) i (se_store s) = Some r" using got Some rv store_get_find by blast
        show thesis
        proof (cases "dl_status r = DPending \<and> (\<forall>a. dl_last_attempt r = Some a \<longrightarrow> ac_resend_after c \<le> now - a) \<and> dict_eq v rec")
          case True
          with assms sub Inr got Some rv found show thesis
            by (intro again [OF Inr found]) (auto simp: session_send_def split: option.splits if_splits)
        next
          case False
          with assms sub Inr got Some rv found show thesis
            by (intro quiet; cases "dl_status r") (auto simp: session_send_def has_status_def split: option.splits if_splits)
        qed
      qed
    qed
  qed
qed

lemma save_pending_settled:
  assumes "save_pending fr (ac_destination c) rec now (se_store s) = Inr t" and "settled_row c k r s"
    and "rec_text rec ''event_id'' = Inr i" and "store_find (ac_destination c) i (se_store s) = None"
  shows "settled_row c k r (s\<lparr>se_store := t\<rparr>)"
proof -
  have k: "i \<noteq> k" using assms(2,4) by (auto simp: settled_row_def)
  obtain m where t: "t = upsert (\<lambda>q. q\<lparr>dl_last_attempt := Some now\<rparr>)
      (new_delivery (ac_destination c) i m (json_dumps True fr (PDict rec)) DPending (Some now)) (se_store s)"
    using assms(1,3) by (auto simp: save_pending_def py_bind_Inr_iff)
  have "store_find (ac_destination c) k t = Some r"
    unfolding t by (rule store_find_upsert_new) (use assms(2) k in \<open>auto simp: settled_row_def dl_key_def new_delivery_def\<close>)
  with assms(2) show ?thesis by (simp add: settled_row_def)
qed

lemma publish_and_wait_settled:
  assumes "publish_and_wait c env i rec s = Some y" and "settled_row c k r s"
  shows "settled_row c k r (fst y)"
proof (rule publish_and_wait_answer [OF assms(1)])
  fix ins
  let ?u = "s\<lparr>se_published := se_published s @ [(ac_base_topic c, json_dumps True (ac_float c) (PDict rec))]\<rparr>"
  assume y: "fst y = session_run c ins ?u"
  have "settled_row c k r ?u" using assms(2) by (simp add: settled_row_def)
  then show ?thesis unfolding y by (rule session_run_settled)
qed

lemma session_send_settled:
  assumes "session_send c env now rec s = Some y" and "settled_row c k r s"
  shows "settled_row c k r (fst y)"
  using assms(1)
proof (cases rule: session_send_cases)
  case quiet
  with assms(2) show ?thesis by simp
next
  case (fresh i t)
  show ?thesis by (rule publish_and_wait_settled [OF fresh(4) save_pending_settled [OF fresh(3) assms(2) fresh(1,2)]])
next
  case (again i q)
  have "settled_row c k r (s\<lparr>se_store := touch_pending (ac_destination c) i now (se_store s)\<rparr>)"
    using assms(2) again(2,3) store_find_key [of "ac_destination c" k "se_store s" r]
    by (auto simp: settled_row_def store_find_ops dl_key_def)
  with again(5) show ?thesis by (rule publish_and_wait_settled)
qed

interpretation session_transport: transport "\<lambda>n. session_send c (env n) (now n)" "session_settled c" for c env now
proof
  fix n rec s s' out
  assume send: "session_send c (env n) (now n) rec s = Some (s', Inr out)" and out: "out \<noteq> OutPending"
  show "\<exists>i. rec_text rec ''event_id'' = Inr i \<and> session_settled c i s'"
    using send
  proof (cases rule: session_send_cases)
    case quiet
    with out show ?thesis by (cases out) (auto simp: session_settled_def)
  next
    case (fresh i t)
    show ?thesis
      by (rule publish_and_wait_answer [OF fresh(4)]; cases out) (use out fresh(1) in \<open>auto simp: session_settled_def\<close>)
  next
    case (again i r)
    show ?thesis
      by (rule publish_and_wait_answer [OF again(5)]; cases out) (use out again(1) in \<open>auto simp: session_settled_def\<close>)
  qed
next
  fix i s n rec s' r
  assume "session_settled c i s" and send: "session_send c (env n) (now n) rec s = Some (s', r)"
  then obtain q where "settled_row c i q s" "dl_status q = DAcked \<or> dl_status q = DNacked"
    by (auto simp: session_settled_def has_status_def settled_row_def)
  with session_send_settled [OF send] show "session_settled c i s'"
    by (auto simp: session_settled_def has_status_def settled_row_def)
qed

text \<open>A ledger with one acknowledged row, to try the properties on.\<close>

definition example_ack_config :: ack_config where
  "example_ack_config = \<lparr>ac_destination = ''hub:1883/r'', ac_base_topic = ''r'', ac_timeout = 5, ac_resend_after = 600,
     ac_float = (\<lambda>_. ''0.0''), ac_repr = (\<lambda>_. [])\<rparr>"

definition example_rec :: "pyval dict" where
  "example_rec = [(''event_id'', PStr ''e1''), (''mk_date'', PStr ''20260101000000'')]"

definition example_delivery :: "delivery_status \<Rightarrow> delivery" where
  "example_delivery st = (new_delivery ''hub:1883/r'' ''e1'' ''20260101000000''
     (json_dumps True (\<lambda>_. ''0.0'') (PDict example_rec)) st (Some 100))"

definition example_session :: "delivery_status \<Rightarrow> ack_session" where
  "example_session st = (new_session [example_delivery st])\<lparr>se_subscribed := True\<rparr>"

definition example_wait :: wait_env where
  "example_wait = \<lparr>we_rc = 0, we_start = 0, we_clock = of_nat, we_inputs = (\<lambda>_. [])\<rparr>"

lemma example_find: "store_find ''hub:1883/r'' ''e1'' (se_store (example_session st)) = Some (example_delivery st)"
  by (simp add: example_session_def new_session_def example_delivery_def store_find_def dl_key_def new_delivery_def)

lemma example_status [simp]: "dl_status (example_delivery st) = st"
  by (simp add: example_delivery_def new_delivery_def)

lemma example_get:
  "store_get ''hub:1883/r'' ''e1'' (se_store (example_session st)) = Inr (Some (example_delivery st, PDict example_rec))"
proof -
  have "json_plain (\<lambda>_. ''0.0'') (PDict example_rec)" by (simp add: example_rec_def)
  from json_loads_dumps [OF this] have "json_loads (dl_payload (example_delivery st)) = Inr (PDict example_rec)"
    by (simp add: example_delivery_def new_delivery_def)
  then show ?thesis by (simp add: store_get_def example_find)
qed

lemma session_send_acked:
  assumes "se_subscribed s" and "rec_text rec ''event_id'' = Inr i"
    and "store_get (ac_destination c) i (se_store s) = Inr (Some (r, PDict rec))" and "dl_status r = DAcked"
  shows "session_send c env now rec s = Some (s, Inr OutAcked)"
proof -
  have "dict_eq (PDict rec) rec" by (simp add: dict_eq_def scalar_eq_def)
  with assms show ?thesis by (simp add: session_send_def)
qed

lemma example_send_acked:
  "session_send example_ack_config env now example_rec (example_session DAcked) = Some (example_session DAcked, Inr OutAcked)"
proof (rule session_send_acked [where i = "''e1''", OF _ _ _ example_status])
  show "rec_text example_rec ''event_id'' = Inr ''e1''"
    by (simp add: rec_text_def example_rec_def dict_get_def as_str_def py_subscript_def)
  show "store_get (ac_destination example_ack_config) ''e1'' (se_store (example_session DAcked))
      = Inr (Some (example_delivery DAcked, PDict example_rec))"
    by (simp add: example_ack_config_def example_get)
qed (simp add: example_session_def)

section \<open>Properties\<close>

text \<open>A history of a session: calls of \<open>send\<close> and what the thread of the client takes in.\<close>

datatype session_call = Call wait_env rat "pyval dict" | Input session_input

fun session_act :: "ack_config \<Rightarrow> session_call \<Rightarrow> ack_session \<Rightarrow> ack_session" where
  "session_act c (Call env now rec) s = (case session_send c env now rec s of None \<Rightarrow> s | Some (s', _) \<Rightarrow> s')"
| "session_act c (Input i) s = session_step c i s"

text \<open>C23: a row of the ledger that was acknowledged or rejected never changes again, whatever messages,
  reconnects and further calls of \<open>send\<close> follow.\<close>

theorem settled_delivery_is_final:
  assumes "store_find (ac_destination c) k (se_store s) = Some r" and "dl_status r \<noteq> DPending"
  shows "store_find (ac_destination c) k (se_store (fold (session_act c) calls s)) = Some r"
proof -
  have step: "settled_row c k r (session_act c a u)" if "settled_row c k r u" for a u
  proof (cases a)
    case (Call env now rec)
    show ?thesis
    proof (cases "session_send c env now rec u")
      case (Some y)
      then show ?thesis using session_send_settled [OF Some that] Call by (simp add: split_def)
    qed (use that Call in simp)
  qed (simp add: session_step_settled that)
  have "settled_row c k r (fold (session_act c) calls s)"
    by (rule fold_invariant_list [where I = "settled_row c k r"]) (rule step, assumption, simp add: settled_row_def assms)
  then show ?thesis by (simp add: settled_row_def)
qed

theorem settled_delivery_is_final_witness:
  "store_find ''hub:1883/r'' ''e1'' (se_store (fold (session_act example_ack_config)
     [Input SDisconnect, Input (SConnect 7), Input (SSubscribed 7 [2, 2]), Input (SMessage False ''r/nack'' (Utf8 ''{}'')),
      Call example_wait 900 example_rec] (example_session DAcked))) = Some (example_delivery DAcked)"
  using settled_delivery_is_final [of example_ack_config "''e1''" "example_session DAcked" "example_delivery DAcked"
      "[Input SDisconnect, Input (SConnect 7), Input (SSubscribed 7 [2, 2]), Input (SMessage False ''r/nack'' (Utf8 ''{}'')),
        Call example_wait 900 example_rec]"]
  by (simp only: example_find example_ack_config_def ack_config.simps example_status delivery_status.simps simp_thms)

text \<open>C24: a file is reported complete, and then moved away, only when it ends with a line end, did not
  change while it was read, and every line that is not blank is a record whose row is acknowledged
  or rejected.\<close>

theorem complete_file_is_settled:
  assumes "deliver_file content unchanged late parse (\<lambda>n. session_send c (env n) (now n)) s = Some (s', Inr res)"
    and "rs_complete res"
  shows "unchanged \<and> (ends_with [CHR 0x0A] content \<or> content = [])
    \<and> (\<forall>l \<in> set (file_lines content). strip l = []
        \<or> (\<exists>rec i r. parse (strip l) = Some rec \<and> rec_text rec ''event_id'' = Inr i
             \<and> store_find (ac_destination c) i (se_store s') = Some r \<and> (dl_status r = DAcked \<or> dl_status r = DNacked)))"
proof -
  have "session_transport.line_settled c parse s' l" if "l \<in> set (file_lines content)" for l
    using session_transport.complete_settled(2) [OF assms that] .
  then show ?thesis
    using session_transport.complete_settled(1) [OF assms]
    unfolding session_transport.line_settled_def session_settled_def has_status_def by blast
qed

theorem complete_file_is_settled_witness:
  "\<exists>rec i r. rec_text rec ''event_id'' = Inr i
     \<and> store_find ''hub:1883/r'' i (se_store (example_session DAcked)) = Some r \<and> (dl_status r = DAcked \<or> dl_status r = DNacked)"
proof -
  let ?c = "[CHR ''x'', CHR 0x0A]"
  let ?res = "empty_result\<lparr>rs_acked := 1, rs_complete := True\<rparr>"
  have strip: "strip ''x'' = ''x''" by (rule strip_idem) (simp add: is_space_def)
  have lines: "file_lines ?c = [''x'']" by (simp add: file_lines_def)
  have "deliver_file ?c True (\<lambda>_. False) (\<lambda>_. Some example_rec) (\<lambda>n. session_send example_ack_config example_wait 900)
      (example_session DAcked) = Some (example_session DAcked, Inr ?res)"
    by (simp add: deliver_file_def lines strip example_send_acked Let_def) (simp add: ends_with_def empty_result_def)
  from complete_file_is_settled [OF this] have "\<forall>l \<in> {''x''}. strip l = [] \<or> (\<exists>rec i r. Some example_rec = Some rec
     \<and> rec_text rec ''event_id'' = Inr i \<and> store_find ''hub:1883/r'' i (se_store (example_session DAcked)) = Some r
     \<and> (dl_status r = DAcked \<or> dl_status r = DNacked))"
    by (simp add: lines example_ack_config_def)
  then show ?thesis by (auto simp: strip)
qed



end
