(* ===== verification/Sha1.thy ===== *)
theory Sha1
  imports Py_Text "HOL-Library.Word"
begin

text \<open>
  \<open>hashlib.sha1(text.encode()).hexdigest()\<close>, which the child makes the ids of its records with: the
  UTF-8 bytes of the text, padded to blocks of 64, eighty rounds per block on five 32-bit words
  whose additions wrap around, and the words in hexadecimal.
\<close>

unbundle bit_operations_syntax

type_synonym w32 = "32 word"

definition utf8_char :: "char \<Rightarrow> nat list" where
  "utf8_char c = (let n = code c in if n < 128 then [n] else [192 + n div 64, 128 + n mod 64])"

definition utf8 :: "string \<Rightarrow> nat list" where
  "utf8 s = concat (map utf8_char s)"

section \<open>Blocks\<close>

definition be_bytes :: "nat \<Rightarrow> nat \<Rightarrow> nat list" where
  "be_bytes k n = map (\<lambda>i. nat (int n div 256 ^ (k - 1 - i) mod 256)) [0..<k]"

definition sha_pad :: "nat list \<Rightarrow> nat list" where
  "sha_pad bs = bs @ [128] @ replicate ((119 - length bs mod 64) mod 64) 0 @ be_bytes 8 (8 * length bs)"

definition word_of_bytes :: "nat list \<Rightarrow> w32" where
  "word_of_bytes bs = foldl (\<lambda>a b. 256 * a + of_nat b) 0 bs"

fun chunks :: "nat \<Rightarrow> nat \<Rightarrow> 'a list \<Rightarrow> 'a list list" where
  "chunks k 0 xs = []"
| "chunks k (Suc n) xs = take k xs # chunks k n (drop k xs)"

definition sha_words :: "nat list \<Rightarrow> w32 list list" where
  "sha_words bs = map (\<lambda>b. map word_of_bytes (chunks 4 16 b)) (chunks 64 (length bs div 64) bs)"

section \<open>Rounds\<close>

definition rotl :: "nat \<Rightarrow> w32 \<Rightarrow> w32" where
  "rotl k w = push_bit k w OR drop_bit (32 - k) w"

text \<open>The schedule, latest word first.\<close>

fun sha_expand :: "nat \<Rightarrow> w32 list \<Rightarrow> w32 list" where
  "sha_expand 0 ws = ws"
| "sha_expand (Suc n) ws = sha_expand n (rotl 1 (ws ! 2 XOR ws ! 7 XOR ws ! 13 XOR ws ! 15) # ws)"

definition sha_schedule :: "w32 list \<Rightarrow> w32 list" where
  "sha_schedule block = rev (sha_expand 64 (rev block))"

definition sha_f :: "nat \<Rightarrow> w32 \<Rightarrow> w32 \<Rightarrow> w32 \<Rightarrow> w32" where
  "sha_f t x y z =
     (if t < 20 then (x AND y) OR (NOT x AND z)
      else if 40 \<le> t \<and> t < 60 then (x AND y) OR (x AND z) OR (y AND z)
      else x XOR y XOR z)"

definition sha_k :: "nat \<Rightarrow> w32" where
  "sha_k t = (if t < 20 then 0x5A827999 else if t < 40 then 0x6ED9EBA1 else if t < 60 then 0x8F1BBCDC else 0xCA62C1D6)"

type_synonym sha_state = "w32 \<times> w32 \<times> w32 \<times> w32 \<times> w32"

definition sha_round :: "nat \<times> w32 \<Rightarrow> sha_state \<Rightarrow> sha_state" where
  "sha_round = (\<lambda>(t, w) (a, b, c, d, e). (rotl 5 a + sha_f t b c d + e + sha_k t + w, a, rotl 30 b, c, d))"

definition sha_block :: "w32 list \<Rightarrow> sha_state \<Rightarrow> sha_state" where
  "sha_block block h =
     (case (fold sha_round (zip [0..<80] (sha_schedule block)) h, h) of
        ((a, b, c, d, e), (a', b', c', d', e')) \<Rightarrow> (a' + a, b' + b, c' + c, d' + d, e' + e))"

definition sha_start :: sha_state where
  "sha_start = (0x67452301, 0xEFCDAB89, 0x98BADCFE, 0x10325476, 0xC3D2E1F0)"

section \<open>The digest\<close>

definition hex_lower :: "nat \<Rightarrow> char" where
  "hex_lower d = char_of (if d < 10 then 48 + d else 87 + d)"

definition hex_word :: "w32 \<Rightarrow> string" where
  "hex_word w = map (\<lambda>i. hex_lower (unat (drop_bit (28 - 4 * i) w AND 15))) [0..<8]"

definition sha1_hex :: "string \<Rightarrow> string" where
  "sha1_hex s = (case fold sha_block (sha_words (sha_pad (utf8 s))) sha_start of
     (a, b, c, d, e) \<Rightarrow> concat (map hex_word [a, b, c, d, e]))"

text \<open>The padding fills whole blocks; the digest is forty characters whatever the text is.\<close>

lemma sha_pad_blocks: "length (sha_pad bs) mod 64 = 0"
proof -
  define r where "r = length bs mod 64"
  have r: "r < 64" by (simp add: r_def)
  have "(119 - r) mod 64 = (if r \<le> 55 then 55 - r else 119 - r)"
    using r mod_less [of "55 - r" 64] mod_less [of "119 - r" 64] le_mod_geq [of 64 "119 - r"] by simp
  then have "(r + (9 + (119 - r) mod 64)) mod 64 = 0" using r by auto
  then have "(length bs + (9 + (119 - r) mod 64)) mod 64 = 0" unfolding r_def by (metis mod_add_left_eq)
  then show ?thesis by (simp add: sha_pad_def be_bytes_def r_def ac_simps)
qed

lemma hex_word_length [simp]: "length (hex_word w) = 8"
  by (simp add: hex_word_def)

lemma sha1_hex_length [simp]: "length (sha1_hex s) = 40"
  by (simp add: sha1_hex_def split: prod.split)

end
