(* ===== verification/Child_Csv.thy ===== *)
theory Child_Csv
  imports Child_Ack Mqtt_Listener Sha1
begin

text \<open>
  \<open>child/child-csv-to-mqtt.py\<close>: a line of a CSV file and its record, where a file goes when it has
  been delivered, and one turn of the main loop over the watched directory. A directory is the
  table of its files and their texts as they are read; what \<open>sys.exit\<close> and the client library do on
  shutdown is left out.
\<close>

section \<open>Lines\<close>

text \<open>The text the id is a hash of.\<close>

definition id_source :: "string \<Rightarrow> string \<Rightarrow> string \<Rightarrow> string \<Rightarrow> string \<Rightarrow> int \<Rightarrow> string" where
  "id_source dev mk s1 s2 s3 t1 =
     dev @ ''|'' @ mk @ '','' @ s1 @ '','' @ s2 @ '','' @ s3 @ '','' @ int_text t1"

definition csv_record :: "string \<Rightarrow> string \<Rightarrow> string \<Rightarrow> string \<Rightarrow> string \<Rightarrow> int \<Rightarrow> pyval dict" where
  "csv_record dev mk s1 s2 s3 t1 =
     [(''event_id'', PStr (sha1_hex (id_source dev mk s1 s2 s3 t1))), (''mk_date'', PStr mk), (''sta_no1'', PStr s1),
      (''sta_no2'', PStr s2), (''sta_no3'', PStr s3), (''t1_status'', PInt t1), (''device_id'', PStr dev),
      (''schema_version'', PInt 1)]"

definition parse_line :: "string \<Rightarrow> string \<Rightarrow> pyval dict option" where
  "parse_line dev line =
     (case map strip (split_on CHR '','' (strip line)) of
        [mk, s1, s2, s3, t1] \<Rightarrow>
          if mk = [] \<or> \<not> mk_date_ok mk then None
          else (case int_of_text t1 of None \<Rightarrow> None | Some i \<Rightarrow> Some (csv_record dev mk s1 s2 s3 i))
      | _ \<Rightarrow> None)"

section \<open>Directories\<close>

text \<open>\<open>Path.stem\<close> and \<open>Path.suffix\<close>: a dot at either end of the name starts no suffix.\<close>

definition name_ext :: "string \<Rightarrow> string" where
  "name_ext name = rev (takeWhile (\<lambda>c. c \<noteq> CHR ''.'') (rev name))"

definition has_suffix :: "string \<Rightarrow> bool" where
  "has_suffix name = (CHR ''.'' \<in> set name \<and> name_ext name \<noteq> [] \<and> Suc (length (name_ext name)) < length name)"

definition file_suffix :: "string \<Rightarrow> string" where
  "file_suffix name = (if has_suffix name then CHR ''.'' # name_ext name else [])"

definition file_stem :: "string \<Rightarrow> string" where
  "file_stem name = (if has_suffix name then take (length name - Suc (length (name_ext name))) name else name)"

definition numbered :: "string \<Rightarrow> nat \<Rightarrow> string" where
  "numbered name n = file_stem name @ ''.'' @ nat_text n @ file_suffix name"

partial_function (option) first_free :: "string list \<Rightarrow> string \<Rightarrow> nat \<Rightarrow> string option" where
  "first_free names name n =
     (if numbered name n \<in> set names then first_free names name (Suc n) else Some (numbered name n))"

definition choose_target :: "string list \<Rightarrow> string \<Rightarrow> string option" where
  "choose_target names name = (if name \<in> set names then first_free names name 1 else Some name)"

record child_files =
  cf_outbox :: "string dict"
  cf_sent :: "string dict"
  cf_nacked :: "string dict"

definition dict_del :: "string \<Rightarrow> 'v dict \<Rightarrow> 'v dict" where
  "dict_del k d = filter (\<lambda>p. fst p \<noteq> k) d"

definition archive_file :: "string \<Rightarrow> string \<Rightarrow> child_files \<Rightarrow> child_files option" where
  "archive_file name content fs =
     (case choose_target (dict_keys (cf_sent fs)) name of
        None \<Rightarrow> None
      | Some t \<Rightarrow> Some (fs\<lparr>cf_outbox := dict_del name (cf_outbox fs), cf_sent := dict_set t content (cf_sent fs)\<rparr>))"

definition nack_row :: "ack_config \<Rightarrow> ledger \<Rightarrow> nat \<times> string \<Rightarrow> pyval py" where
  "nack_row c t = (\<lambda>(n, i).
     py_bind (store_get (ac_destination c) i t) (\<lambda>row.
       Inr (PDict [(''line_no'', PInt (int n)), (''event_id'', PStr i),
         (''mk_date'', case row of None \<Rightarrow> PNone | Some (r, v) \<Rightarrow> PStr (dl_mk_date r)),
         (''reason'', case row of None \<Rightarrow> PNone | Some (r, v) \<Rightarrow> str_or_null (dl_nack_reason r)),
         (''failed_at_iso'', case row of None \<Rightarrow> PNone | Some (r, v) \<Rightarrow> str_or_null (dl_nacked_at r))])))"

fun nack_rows :: "ack_config \<Rightarrow> ledger \<Rightarrow> (nat \<times> string) list \<Rightarrow> pyval list py" where
  "nack_rows c t [] = Inr []"
| "nack_rows c t (p # ps) = py_bind (nack_row c t p) (\<lambda>v. py_bind (nack_rows c t ps) (\<lambda>vs. Inr (v # vs)))"

definition nack_sidecar :: "string \<Rightarrow> string" where
  "nack_sidecar target = target @ ''.nack.jsonl''"

definition write_nack_sidecar :: "(rat \<Rightarrow> string) \<Rightarrow> string \<Rightarrow> pyval list \<Rightarrow> child_files \<Rightarrow> child_files" where
  "write_nack_sidecar fr target rows fs =
     fs\<lparr>cf_nacked := dict_set (nack_sidecar target) (concat (map (\<lambda>r. json_dumps True fr r @ [CHR 0x0A]) rows)) (cf_nacked fs)\<rparr>"

text \<open>\<open>None\<close>: the search for a free name does not end. The answer tells whether the file was moved.\<close>

definition archive_to_destination :: "ack_config \<Rightarrow> string \<Rightarrow> string \<Rightarrow> delivery_result \<Rightarrow> ledger \<Rightarrow> child_files
    \<Rightarrow> (child_files \<times> bool py) option" where
  "archive_to_destination c name content res t fs =
     (if \<not> rs_complete res then Some (fs, Inr False)
      else if rs_nacked res = 0 then map_option (\<lambda>fs'. (fs', Inr True)) (archive_file name content fs)
      else (case choose_target (dict_keys (cf_nacked fs)) name of
          None \<Rightarrow> None
        | Some target \<Rightarrow>
            (case nack_rows c t (rs_nacked_rows res) of
               Inl e \<Rightarrow> Some (fs, Inl e)
             | Inr rows \<Rightarrow>
                 (let fs' = write_nack_sidecar (ac_float c) target rows fs
                  in Some (fs'\<lparr>cf_outbox := dict_del name (cf_outbox fs'), cf_nacked := dict_set target content (cf_nacked fs')\<rparr>,
                           Inr True)))))"

definition format_summary :: "string \<Rightarrow> delivery_result \<Rightarrow> string" where
  "format_summary name res =
     ''  '' @ name @ '': ack='' @ nat_text (rs_acked res) @ '' pending='' @ nat_text (rs_pending res) @ '' invalid=''
       @ nat_text (rs_invalid res) @ '' nacked='' @ nat_text (rs_nacked res) @ '' complete=''
       @ (if rs_complete res then ''True'' else ''False'')"

section \<open>The main loop\<close>

text \<open>What the world does while one file is processed.\<close>

record file_env =
  fe_unchanged :: bool
  fe_late :: "nat \<Rightarrow> bool"
  fe_wait :: "nat \<Rightarrow> wait_env"
  fe_now :: "nat \<Rightarrow> rat"

record child =
  ch_session :: ack_session
  ch_files :: child_files
  ch_last_hb :: rat
  ch_beats :: "(string \<times> string) list"

definition process_file :: "ack_config \<Rightarrow> string \<Rightarrow> file_env \<Rightarrow> string \<Rightarrow> child \<Rightarrow> child run option" where
  "process_file c dev env name ch =
     (case dict_get (cf_outbox (ch_files ch)) name of
        None \<Rightarrow> Some (ch, Some OSError)
      | Some content \<Rightarrow>
          (case deliver_file content (fe_unchanged env) (fe_late env) (parse_line dev)
                  (\<lambda>n. session_send c (fe_wait env n) (fe_now env n)) (ch_session ch) of
             None \<Rightarrow> None
           | Some (s', Inl e) \<Rightarrow> Some (ch\<lparr>ch_session := s'\<rparr>, Some e)
           | Some (s', Inr res) \<Rightarrow>
               (case archive_to_destination c name content res (se_store s') (ch_files ch) of
                  None \<Rightarrow> None
                | Some (fs', Inl e) \<Rightarrow> Some (ch\<lparr>ch_session := s', ch_files := fs'\<rparr>, Some e)
                | Some (fs', Inr b) \<Rightarrow> Some (ch\<lparr>ch_session := s', ch_files := fs'\<rparr>, None))))"

fun process_files :: "ack_config \<Rightarrow> string \<Rightarrow> (string \<Rightarrow> file_env) \<Rightarrow> string list \<Rightarrow> child \<Rightarrow> child run option" where
  "process_files c dev env [] ch = Some (ch, None)"
| "process_files c dev env (name # names) ch =
     (case process_file c dev (env name) name ch of
        None \<Rightarrow> None
      | Some (ch', None) \<Rightarrow> process_files c dev env names ch'
      | Some (ch', Some e) \<Rightarrow> Some (ch', Some e))"

definition outbox_files :: "child \<Rightarrow> string list" where
  "outbox_files ch = sort (filter (ends_with ''.csv'') (dict_keys (cf_outbox (ch_files ch))))"

definition heartbeat_topic :: "string \<Rightarrow> string" where
  "heartbeat_topic dev = ''presence/heartbeat/'' @ dev"

definition child_heartbeat :: "(rat \<Rightarrow> string) \<Rightarrow> string \<Rightarrow> rat \<Rightarrow> rat \<Rightarrow> rat \<Rightarrow> child \<Rightarrow> child" where
  "child_heartbeat fr dev seconds start now ch =
     (if seconds \<le> now - ch_last_hb ch
      then ch\<lparr>ch_beats := ch_beats ch @ [(heartbeat_topic dev,
                json_dumps True fr (PDict [(''uptime_s'', PInt (trunc_rat (now - start)))]))], ch_last_hb := now\<rparr>
      else ch)"

definition child_turn :: "ack_config \<Rightarrow> string \<Rightarrow> rat \<Rightarrow> rat \<Rightarrow> (string \<Rightarrow> file_env) \<Rightarrow> rat \<Rightarrow> child \<Rightarrow> child run option" where
  "child_turn c dev seconds start env now ch =
     (case process_files c dev env (outbox_files ch) ch of
        None \<Rightarrow> None
      | Some (ch', Some e) \<Rightarrow> Some (ch', Some e)
      | Some (ch', None) \<Rightarrow> Some (child_heartbeat (ac_float c) dev seconds start now ch', None))"

section \<open>Free names\<close>

lemma numbered_inj: "numbered name m = numbered name n \<Longrightarrow> m = n"
  by (simp add: numbered_def)

lemma first_free_finds:
  assumes "numbered name ` {n..<n + k} \<subseteq> set names" and "numbered name (n + k) \<notin> set names"
  shows "first_free names name n = Some (numbered name (n + k))"
  using assms
proof (induction k arbitrary: n)
  case 0
  then show ?case by (simp add: first_free.simps)
next
  case (Suc k)
  have "numbered name n \<in> set names" using Suc.prems(1) by auto
  moreover have "first_free names name (Suc n) = Some (numbered name (Suc n + k))"
    by (rule Suc.IH) (use Suc.prems in auto)
  ultimately show ?case by (subst first_free.simps) simp
qed

lemma first_free_total:
  obtains k where "first_free names name n = Some (numbered name (n + k))"
    and "numbered name ` {n..<n + k} \<subseteq> set names" and "numbered name (n + k) \<notin> set names"
proof -
  have "inj (\<lambda>j. numbered name (n + j))" by (auto intro!: injI dest: numbered_inj)
  then have "infinite (range (\<lambda>j. numbered name (n + j)))" by (simp add: finite_image_iff)
  then have "\<not> range (\<lambda>j. numbered name (n + j)) \<subseteq> set names" using finite_subset by blast
  then have ex: "\<exists>j. numbered name (n + j) \<notin> set names" by blast
  let ?k = "LEAST j. numbered name (n + j) \<notin> set names"
  have free: "numbered name (n + ?k) \<notin> set names" using ex by (rule LeastI_ex)
  have taken: "numbered name ` {n..<n + ?k} \<subseteq> set names"
  proof (clarify)
    fix j assume "j \<in> {n..<n + ?k}"
    then have "j - n < ?k" "n + (j - n) = j" by auto
    then show "numbered name j \<in> set names" using not_less_Least [of "j - n"] by force
  qed
  show thesis by (rule that [OF first_free_finds [OF taken free] taken free])
qed

lemma choose_target_cases:
  obtains (kept) "choose_target names name = Some name" and "name \<notin> set names"
  | (renamed) n where "choose_target names name = Some (numbered name n)" and "1 \<le> n" and "numbered name n \<notin> set names"
      and "name \<in> set names" and "numbered name ` {1..<n} \<subseteq> set names"
proof (cases "name \<in> set names")
  case True
  obtain k where "first_free names name 1 = Some (numbered name (1 + k))" "numbered name ` {1..<1 + k} \<subseteq> set names"
    "numbered name (1 + k) \<notin> set names" by (rule first_free_total)
  with True renamed [of "1 + k"] show thesis by (simp add: choose_target_def)
qed (use kept in \<open>simp add: choose_target_def\<close>)

section \<open>Lines and records\<close>

lemma parse_line_Some:
  assumes "parse_line dev line = Some rec"
  obtains mk s1 s2 s3 t1 i where "map strip (split_on CHR '','' (strip line)) = [mk, s1, s2, s3, t1]"
    and "mk_date_ok mk" and "int_of_text t1 = Some i" and "rec = csv_record dev mk s1 s2 s3 i"
  using assms by (auto simp: parse_line_def split: list.splits option.splits if_splits)

lemma csv_record_get [simp]:
  "dict_get (csv_record dev mk s1 s2 s3 t1) ''event_id'' = Some (PStr (sha1_hex (id_source dev mk s1 s2 s3 t1)))"
  "dict_get (csv_record dev mk s1 s2 s3 t1) ''mk_date'' = Some (PStr mk)"
  "dict_get (csv_record dev mk s1 s2 s3 t1) ''sta_no1'' = Some (PStr s1)"
  "dict_get (csv_record dev mk s1 s2 s3 t1) ''sta_no2'' = Some (PStr s2)"
  "dict_get (csv_record dev mk s1 s2 s3 t1) ''sta_no3'' = Some (PStr s3)"
  "dict_get (csv_record dev mk s1 s2 s3 t1) ''t1_status'' = Some (PInt t1)"
  "dict_get (csv_record dev mk s1 s2 s3 t1) ''device_id'' = Some (PStr dev)"
  "dict_get (csv_record dev mk s1 s2 s3 t1) ''schema_version'' = Some (PInt 1)"
  by (simp_all add: csv_record_def dict_get_def)

lemma csv_record_plain: "json_plain fr (PDict (csv_record dev mk s1 s2 s3 t1))"
  by (simp add: csv_record_def)

lemma csv_record_complete: "missing_from REQUIRED_RECORD_KEYS (PDict (csv_record dev mk s1 s2 s3 t1)) = Inr []"
  by (simp add: missing_from_dict REQUIRED_RECORD_KEYS_def csv_record_def dict_keys_def)

text \<open>The line a record is written as.\<close>

definition csv_line :: "string \<Rightarrow> string \<Rightarrow> string \<Rightarrow> string \<Rightarrow> int \<Rightarrow> string" where
  "csv_line mk s1 s2 s3 t1 = join_with '','' [mk, s1, s2, s3, int_text t1]"

lemma int_text_ends: "int_text i \<noteq> []" "\<not> is_space (hd (int_text i))" "\<not> is_space (last (int_text i))" "CHR '','' \<notin> set (int_text i)"
  "CHR 0x0A \<notin> set (int_text i)"
proof -
  have c: "is_digit c \<or> c = CHR ''-''" if "c \<in> set (int_text i)" for c
    using that nat_text_digits by (auto simp: int_text_def split: if_splits)
  show ne: "int_text i \<noteq> []" by (simp add: int_text_def)
  show "\<not> is_space (hd (int_text i))" using c [of "hd (int_text i)"] ne is_digit_not_space by (auto simp: is_space_def)
  show "\<not> is_space (last (int_text i))" using c [of "last (int_text i)"] ne is_digit_not_space by (auto simp: is_space_def)
  show "CHR '','' \<notin> set (int_text i)" using c [of "CHR '',''"] by (auto simp: is_digit_def digit_val_def)
  show "CHR 0x0A \<notin> set (int_text i)" using c [of "CHR 0x0A"] by (auto simp: is_digit_def digit_val_def)
qed

lemma mk_date_ok_hd: "mk_date_ok mk \<Longrightarrow> mk \<noteq> [] \<and> \<not> is_space (hd mk)"
  by (cases mk) (auto simp: mk_date_ok_def is_digit_not_space)

lemma strip_csv_line: "mk_date_ok mk \<Longrightarrow> strip (csv_line mk s1 s2 s3 i) = csv_line mk s1 s2 s3 i"
  using mk_date_ok_hd [of mk] int_text_ends [of i] by (intro strip_noop) (simp add: csv_line_def)

lemma parse_csv_line:
  assumes "mk_date_ok mk" and "\<forall>p \<in> {mk, s1, s2, s3}. strip p = p \<and> CHR '','' \<notin> set p"
  shows "parse_line dev (csv_line mk s1 s2 s3 i) = Some (csv_record dev mk s1 s2 s3 i)"
proof -
  let ?ps = "[mk, s1, s2, s3, int_text i]"
  note strip_csv_line [OF assms(1), of s1 s2 s3 i]
  moreover have "split_on CHR '','' (csv_line mk s1 s2 s3 i) = ?ps"
    unfolding csv_line_def by (rule split_join) (use assms(2) int_text_ends(4) in auto)
  moreover have "map strip ?ps = ?ps"
    using assms(2) int_text_ends [of i] strip_noop [of "int_text i"] by simp
  ultimately show ?thesis
    using assms(1) mk_date_ok_hd [OF assms(1)] by (simp add: parse_line_def int_text_roundtrip)
qed

section \<open>Files are kept\<close>

lemma dict_get_del: "dict_get (dict_del k d) j = (if j = k then None else dict_get d j)"
  unfolding dict_del_def dict_get_def by (induction d) auto

text \<open>Nothing is lost from the archives; the side files of rejected rows may be written again.\<close>

definition files_kept :: "child_files \<Rightarrow> child_files \<Rightarrow> bool" where
  "files_kept fs fs' =
     ((\<forall>k u. dict_get (cf_sent fs) k = Some u \<longrightarrow> dict_get (cf_sent fs') k = Some u)
      \<and> (\<forall>k u. \<not> ends_with ''.nack.jsonl'' k \<longrightarrow> dict_get (cf_nacked fs) k = Some u \<longrightarrow> dict_get (cf_nacked fs') k = Some u))"

lemma files_kept_refl [simp]: "files_kept fs fs"
  by (simp add: files_kept_def)

lemma files_kept_trans: "files_kept fs fs' \<Longrightarrow> files_kept fs' fs'' \<Longrightarrow> files_kept fs fs''"
  by (simp add: files_kept_def)

definition archived :: "string \<Rightarrow> child_files \<Rightarrow> bool" where
  "archived content fs = (\<exists>t. dict_get (cf_sent fs) t = Some content
     \<or> (\<not> ends_with ''.nack.jsonl'' t \<and> dict_get (cf_nacked fs) t = Some content))"

lemma archived_kept: "archived content fs \<Longrightarrow> files_kept fs fs' \<Longrightarrow> archived content fs'"
  unfolding archived_def files_kept_def by blast

lemma nack_sidecar_ends: "ends_with ''.nack.jsonl'' (nack_sidecar t)"
  by (simp add: ends_with_def nack_sidecar_def)

lemma csv_last: "ends_with ''.csv'' name \<Longrightarrow> \<exists>r. rev name = CHR ''v'' # r"
  by (cases "rev name") (auto simp: ends_with_def)

lemma target_no_sidecar:
  assumes "ends_with ''.csv'' name" and "choose_target names name = Some t"
  shows "\<not> ends_with ''.nack.jsonl'' t"
proof -
  obtain r where r: "rev name = CHR ''v'' # r" using csv_last [OF assms(1)] by blast
  have no: "\<not> ends_with ''.nack.jsonl'' u" if "rev u = c # v" "c \<noteq> CHR ''l''" for u c v
    using that by (simp add: ends_with_def)
  show ?thesis
  proof (cases rule: choose_target_cases [of names name])
    case kept
    with assms(2) no [OF r] show ?thesis by simp
  next
    case (renamed n)
    show ?thesis
    proof (cases "has_suffix name")
      case True
      then have "rev (numbered name n) = takeWhile (\<lambda>c. c \<noteq> CHR ''.'') (rev name)
          @ CHR ''.'' # rev (nat_text n) @ CHR ''.'' # rev (file_stem name)"
        by (simp add: numbered_def file_suffix_def name_ext_def)
      then have req: "rev (numbered name n) = CHR ''v'' # takeWhile (\<lambda>c. c \<noteq> CHR ''.'') r
          @ CHR ''.'' # rev (nat_text n) @ CHR ''.'' # rev (file_stem name)"
        by (simp add: r)
      have "\<not> ends_with ''.nack.jsonl'' (numbered name n)" by (rule no [OF req]) simp
      with renamed(1) assms(2) show ?thesis by simp
    next
      case False
      obtain c v where cv: "rev (nat_text n) = c # v" by (cases "rev (nat_text n)") simp_all
      then have "is_digit c" using nat_text_digits [of n] by (metis list.set_intros(1) set_rev)
      then have "c \<noteq> CHR ''l''" by (auto simp: is_digit_def digit_val_def)
      have req: "rev (numbered name n) = c # v @ CHR ''.'' # rev (file_stem name)"
        using False cv by (simp add: numbered_def file_suffix_def)
      have "\<not> ends_with ''.nack.jsonl'' (numbered name n)" by (rule no [OF req \<open>c \<noteq> CHR ''l''\<close>])
      with renamed(1) assms(2) show ?thesis by simp
    qed
  qed
qed

lemma target_free: "choose_target names name = Some t \<Longrightarrow> t \<notin> set names"
  by (rule choose_target_cases [of names name]) simp_all

lemma archive_keeps:
  assumes "archive_to_destination c name content res t fs = Some (fs', r)" and "ends_with ''.csv'' name"
  shows "files_kept fs fs' \<and> (\<forall>k. k \<noteq> name \<longrightarrow> dict_get (cf_outbox fs') k = dict_get (cf_outbox fs) k)
    \<and> (cf_outbox fs' = cf_outbox fs \<or> rs_complete res \<and> archived content fs')"
proof -
  consider (stays) "fs' = fs"
    | (sent) u where "rs_complete res" "choose_target (dict_keys (cf_sent fs)) name = Some u"
        "fs' = fs\<lparr>cf_outbox := dict_del name (cf_outbox fs), cf_sent := dict_set u content (cf_sent fs)\<rparr>"
    | (nacked) u v where "rs_complete res" "choose_target (dict_keys (cf_nacked fs)) name = Some u"
        "fs' = fs\<lparr>cf_outbox := dict_del name (cf_outbox fs),
                  cf_nacked := dict_set u content (dict_set (nack_sidecar u) v (cf_nacked fs))\<rparr>"
  proof (cases "rs_complete res \<and> rs_nacked res \<noteq> 0")
    case False
    then show thesis
      using assms(1) stays sent by (auto simp: archive_to_destination_def archive_file_def split: if_splits option.splits)
  next
    case True
    then have "fs' = fs \<or> (\<exists>u rows. choose_target (dict_keys (cf_nacked fs)) name = Some u
        \<and> fs' = (let w = write_nack_sidecar (ac_float c) u rows fs
                 in w\<lparr>cf_outbox := dict_del name (cf_outbox w), cf_nacked := dict_set u content (cf_nacked w)\<rparr>))"
      using assms(1) by (auto simp: archive_to_destination_def Let_def split: option.splits sum.splits)
    then show thesis using True stays nacked by (auto simp: write_nack_sidecar_def Let_def)
  qed
  then show ?thesis
  proof cases
    case stays
    then show ?thesis by simp
  next
    case (sent u)
    have "dict_get (cf_sent fs) u = None" using target_free [OF sent(2)] by (simp add: dict_get_None_iff)
    with sent(1) show ?thesis by (auto simp: sent(3) files_kept_def archived_def dict_get_del)
  next
    case (nacked u v)
    have "dict_get (cf_nacked fs) u = None" using target_free [OF nacked(2)] by (simp add: dict_get_None_iff)
    then have "files_kept fs fs'" using nack_sidecar_ends [of u] by (auto simp: nacked(3) files_kept_def)
    moreover have "archived content fs'"
      unfolding archived_def by (rule exI [of _ u]) (simp add: nacked(3) target_no_sidecar [OF assms(2) nacked(2)])
    ultimately show ?thesis using nacked(1) by (simp add: nacked(3) dict_get_del)
  qed
qed

definition csv_settled :: "ack_config \<Rightarrow> string \<Rightarrow> string \<Rightarrow> ack_session \<Rightarrow> bool" where
  "csv_settled c dev content s = (\<forall>l \<in> set (file_lines content). session_transport.line_settled c (parse_line dev) s l)"

lemma csv_settled_iff:
  "csv_settled c dev content s \<longleftrightarrow> (\<forall>l \<in> set (file_lines content). strip l = [] \<or> (\<exists>rec i r. parse_line dev (strip l) = Some rec
     \<and> rec_text rec ''event_id'' = Inr i \<and> store_find (ac_destination c) i (se_store s) = Some r
     \<and> (dl_status r = DAcked \<or> dl_status r = DNacked)))"
  unfolding csv_settled_def session_transport.line_settled_def unfolding session_settled_def has_status_def by blast

text \<open>One file: others stay in the outbox; the file itself stays there or was delivered and archived.\<close>

definition file_safe :: "ack_config \<Rightarrow> string \<Rightarrow> string \<Rightarrow> string \<Rightarrow> child \<Rightarrow> bool" where
  "file_safe c dev name content ch =
     (dict_get (cf_outbox (ch_files ch)) name = Some content
      \<or> archived content (ch_files ch) \<and> csv_settled c dev content (ch_session ch))"

lemma process_file_safe:
  assumes "process_file c dev env name ch = Some (ch', e)" and "ends_with ''.csv'' name" and "file_safe c dev k content ch"
  shows "file_safe c dev k content ch' \<and> files_kept (ch_files ch) (ch_files ch')"
proof (cases "dict_get (cf_outbox (ch_files ch)) name")
  case None
  with assms show ?thesis by (simp add: process_file_def)
next
  case (Some text_read)
  let ?send = "\<lambda>n. session_send c (fe_wait env n) (fe_now env n)"
  obtain s' r where d: "deliver_file text_read (fe_unchanged env) (fe_late env) (parse_line dev) ?send (ch_session ch) = Some (s', r)"
    using assms(1) Some by (auto simp: process_file_def split: option.splits)
  obtain r0 where lines: "deliver_lines (fe_late env) (parse_line dev) ?send 1 (file_lines text_read) empty_result (ch_session ch) = Some (s', r0)"
    using d by (auto simp: deliver_file_def split: option.splits prod.splits sum.splits)
  have settled: "csv_settled c dev u s'" if "csv_settled c dev u (ch_session ch)" for u
    using that session_transport.line_settled_keeps [OF _ lines] unfolding csv_settled_def by blast
  have same: "file_safe c dev k content (ch\<lparr>ch_session := s'\<rparr>)"
    using assms(3) settled by (auto simp: file_safe_def)
  show ?thesis
  proof (cases r)
    case (Inl x)
    then have "ch' = ch\<lparr>ch_session := s'\<rparr>" using assms(1) Some d by (simp add: process_file_def)
    with same show ?thesis by simp
  next
    case (Inr res)
    obtain fs' y where a: "archive_to_destination c name text_read res (se_store s') (ch_files ch) = Some (fs', y)"
      and ch': "ch' = ch\<lparr>ch_session := s', ch_files := fs'\<rparr>"
      using assms(1) Some d Inr by (auto simp: process_file_def split: option.splits prod.splits sum.splits)
    note keeps = archive_keeps [OF a assms(2)]
    have complete: "csv_settled c dev text_read s'" if "rs_complete res"
      using session_transport.complete_settled(2) [OF d [unfolded Inr] that] by (simp add: csv_settled_def)
    have "file_safe c dev k content ch'"
      using assms(3) keeps complete settled Some archived_kept [of content "ch_files ch" fs']
      by (cases "k = name") (auto simp: file_safe_def ch')
    with keeps show ?thesis by (simp add: ch')
  qed
qed

lemma process_files_safe:
  "process_files c dev env names ch = Some (ch', e) \<Longrightarrow> \<forall>n \<in> set names. ends_with ''.csv'' n \<Longrightarrow>
     file_safe c dev k content ch \<Longrightarrow> file_safe c dev k content ch' \<and> files_kept (ch_files ch) (ch_files ch')"
proof (induction names arbitrary: ch)
  case Nil
  then show ?case by simp
next
  case (Cons n names)
  obtain u x where u: "process_file c dev (env n) n ch = Some (u, x)"
    using Cons.prems(1) by (auto split: option.splits)
  note safe = process_file_safe [OF u _ Cons.prems(3)]
  show ?case
  proof (cases x)
    case None
    then have rest: "process_files c dev env names u = Some (ch', e)" using Cons.prems(1) u by simp
    show ?thesis using Cons.IH [OF rest] safe Cons.prems(2) files_kept_trans by auto
  next
    case (Some y)
    then have "ch' = u" using Cons.prems(1) u by simp
    with safe Cons.prems(2) show ?thesis by simp
  qed
qed

section \<open>A child with one file\<close>

definition example_line :: string where
  "example_line = csv_line ''20260610173000'' ''100'' ''200'' ''300'' 3"

definition example_csv_rec :: "pyval dict" where
  "example_csv_rec = csv_record ''pi'' ''20260610173000'' ''100'' ''200'' ''300'' 3"

lemma example_mk: "mk_date_ok ''20260610173000''"
  by (simp add: mk_date_ok_def is_digit_def digit_val_def)

lemma example_parse: "parse_line ''pi'' example_line = Some example_csv_rec"
  unfolding example_line_def example_csv_rec_def
  by (rule parse_csv_line [OF example_mk]) (simp add: strip_idem is_space_def)

definition example_child :: child where
  "example_child =
     \<lparr>ch_session = (new_session [new_delivery ''hub:1883/r'' (sha1_hex (id_source ''pi'' ''20260610173000'' ''100'' ''200'' ''300'' 3))
          ''20260610173000'' (json_dumps True (\<lambda>_. ''0.0'') (PDict example_csv_rec)) DAcked (Some 100)])\<lparr>se_subscribed := True\<rparr>,
      ch_files = \<lparr>cf_outbox = [(''a.csv'', example_line @ [CHR 0x0A])], cf_sent = [], cf_nacked = []\<rparr>,
      ch_last_hb = 0, ch_beats = []\<rparr>"

definition example_file_env :: file_env where
  "example_file_env = \<lparr>fe_unchanged = True, fe_late = (\<lambda>_. False), fe_wait = (\<lambda>_. example_wait), fe_now = (\<lambda>_. 900)\<rparr>"

lemma example_csv_send:
  "session_send example_ack_config env now example_csv_rec (ch_session example_child) = Some (ch_session example_child, Inr OutAcked)"
proof (rule session_send_acked)
  let ?i = "sha1_hex (id_source ''pi'' ''20260610173000'' ''100'' ''200'' ''300'' 3)"
  let ?r = "new_delivery ''hub:1883/r'' ?i ''20260610173000'' (json_dumps True (\<lambda>_. ''0.0'') (PDict example_csv_rec)) DAcked (Some 100)"
  show "rec_text example_csv_rec ''event_id'' = Inr ?i"
    by (simp add: rec_text_def example_csv_rec_def as_str_def py_subscript_def)
  have "json_loads (dl_payload ?r) = Inr (PDict example_csv_rec)"
    unfolding new_delivery_def delivery.simps example_csv_rec_def by (rule json_loads_dumps [OF csv_record_plain])
  moreover have "store_find ''hub:1883/r'' ?i [?r] = Some ?r"
    by (simp add: store_find_def dl_key_def new_delivery_def)
  ultimately show "store_get (ac_destination example_ack_config) ?i (se_store (ch_session example_child))
      = Inr (Some (?r, PDict example_csv_rec))"
    by (simp add: store_get_def example_ack_config_def example_child_def new_session_def del: json_dumps.simps)
  show "dl_status ?r = DAcked" by (simp add: new_delivery_def)
qed (simp add: example_child_def)

lemma example_line_facts:
  "file_lines (example_line @ [CHR 0x0A]) = [example_line]" "strip example_line = example_line" "example_line \<noteq> []"
proof -
  have "CHR 0x0A \<notin> set example_line" by (simp add: example_line_def csv_line_def int_text_ends)
  then show "file_lines (example_line @ [CHR 0x0A]) = [example_line]"
    using split_on_append [of "CHR 0x0A" example_line "[]"] by (simp add: file_lines_def)
  show "strip example_line = example_line" unfolding example_line_def by (rule strip_csv_line [OF example_mk])
  show "example_line \<noteq> []" by (simp add: example_line_def csv_line_def)
qed

lemma example_child_turn:
  "child_turn example_ack_config ''pi'' 15 0 (\<lambda>_. example_file_env) 10 example_child
     = Some (example_child\<lparr>ch_files := \<lparr>cf_outbox = [], cf_sent = [(''a.csv'', example_line @ [CHR 0x0A])], cf_nacked = []\<rparr>\<rparr>, None)"
proof -
  let ?fs = "\<lparr>cf_outbox = [], cf_sent = [(''a.csv'', example_line @ [CHR 0x0A])], cf_nacked = []\<rparr>"
  have files: "ch_files example_child = \<lparr>cf_outbox = [(''a.csv'', example_line @ [CHR 0x0A])], cf_sent = [], cf_nacked = []\<rparr>"
    by (simp add: example_child_def)
  have arch: "archive_to_destination example_ack_config ''a.csv'' (example_line @ [CHR 0x0A])
      (empty_result\<lparr>rs_acked := 1, rs_complete := True\<rparr>) t (ch_files example_child) = Some (?fs, Inr True)" for t
    by (simp add: files archive_to_destination_def archive_file_def choose_target_def empty_result_def dict_keys_def dict_del_def)
  have out: "dict_get (cf_outbox (ch_files example_child)) ''a.csv'' = Some (example_line @ [CHR 0x0A])"
    by (simp add: files dict_get_def)
  have upd: "example_child\<lparr>ch_session := ch_session example_child, ch_files := f\<rparr> = example_child\<lparr>ch_files := f\<rparr>" for f
    by (simp add: example_child_def)
  have "deliver_file (example_line @ [CHR 0x0A]) True (\<lambda>_. False) (parse_line ''pi'')
      (\<lambda>n. session_send example_ack_config example_wait 900) (ch_session example_child)
      = Some (ch_session example_child, Inr (empty_result\<lparr>rs_acked := 1, rs_complete := True\<rparr>))"
    by (simp add: deliver_file_def example_line_facts example_parse example_csv_send Let_def) (simp add: ends_with_def empty_result_def)
  then have "process_file example_ack_config ''pi'' example_file_env ''a.csv'' example_child
      = Some (example_child\<lparr>ch_files := \<lparr>cf_outbox = [], cf_sent = [(''a.csv'', example_line @ [CHR 0x0A])], cf_nacked = []\<rparr>\<rparr>, None)"
    by (simp add: process_file_def out example_file_env_def arch [unfolded One_nat_def] upd)
  moreover have "outbox_files example_child = [''a.csv'']"
    by (simp add: outbox_files_def example_child_def dict_keys_def ends_with_def)
  ultimately show ?thesis by (simp add: child_turn_def child_heartbeat_def) (simp add: example_child_def)
qed

section \<open>Properties\<close>

text \<open>C13: the record a child makes of a line of its CSV file, written as JSON and sent, is read by the
  bridge with the fields the line has; the id is the SHA-1 of the device and the fields, so the same
  row written without spaces and with a plain number makes the same record again.\<close>

theorem child_record_read_by_bridge:
  assumes "parse_line dev line = Some rec"
  shows "\<exists>mk s1 s2 s3 t1 i. map strip (split_on CHR '','' (strip line)) = [mk, s1, s2, s3, t1] \<and> int_of_text t1 = Some i
    \<and> parse_record_payload rp (Utf8 (json_dumps True fr (PDict rec))) =
        Inr \<lparr>rp_event_id = sha1_hex (id_source dev mk s1 s2 s3 i), rp_mk_date = mk, rp_sta_no1 = s1, rp_sta_no2 = s2,
             rp_sta_no3 = s3, rp_t1_status = i, rp_device_id = Some dev, rp_schema_version = 1\<rparr>
    \<and> parse_line dev (csv_line mk s1 s2 s3 i) = Some rec"
proof -
  obtain mk s1 s2 s3 t1 i where parts: "map strip (split_on CHR '','' (strip line)) = [mk, s1, s2, s3, t1]"
    and mk: "mk_date_ok mk" and i: "int_of_text t1 = Some i" and rec: "rec = csv_record dev mk s1 s2 s3 i"
    using assms by (rule parse_line_Some)
  have "decode_json (Utf8 (json_dumps True fr (PDict rec))) = Inr (PDict rec)"
    unfolding decode_json_def raw_bytes.case rec by (rule json_loads_dumps [OF csv_record_plain])
  then have read: "parse_record_payload rp (Utf8 (json_dumps True fr (PDict rec))) = parse_record_data rp (PDict rec)"
    by (simp only: parse_record_payload_def py_bind_simps)
  have "strip p = p \<and> CHR '','' \<notin> set p" if "p \<in> set [mk, s1, s2, s3, t1]" for p
  proof -
    from that obtain q where "q \<in> set (split_on CHR '','' (strip line))" "p = strip q"
      unfolding parts [symmetric] by auto
    then show ?thesis using split_on_parts [of q] strip_subset [of q] by auto
  qed
  then have "parse_line dev (csv_line mk s1 s2 s3 i) = Some rec"
    unfolding rec by (intro parse_csv_line [OF mk]) simp
  with parts i read show ?thesis
    using parse_record_data_eq [OF csv_record_get(2,6,8,1,3-5) csv_record_complete, of rp dev mk s1 s2 s3 i] mk
    by (simp add: rec py_int_def py_str_def)
qed

theorem child_record_read_by_bridge_witness:
  "\<exists>mk s1 s2 s3 t1 i. map strip (split_on CHR '','' (strip example_line)) = [mk, s1, s2, s3, t1] \<and> int_of_text t1 = Some i
    \<and> parse_record_payload (\<lambda>_. []) (Utf8 (json_dumps True (\<lambda>_. []) (PDict example_csv_rec))) =
        Inr \<lparr>rp_event_id = sha1_hex (id_source ''pi'' mk s1 s2 s3 i), rp_mk_date = mk, rp_sta_no1 = s1, rp_sta_no2 = s2,
             rp_sta_no3 = s3, rp_t1_status = i, rp_device_id = Some ''pi'', rp_schema_version = 1\<rparr>
    \<and> parse_line ''pi'' (csv_line mk s1 s2 s3 i) = Some example_csv_rec"
  by (rule child_record_read_by_bridge [OF example_parse])

text \<open>The name a file gets in an archive is always found and never one that is there already: its own
  name, or the first free one of the numbered names.\<close>

theorem archive_name_is_free:
  "\<exists>t. choose_target names name = Some t \<and> t \<notin> set names
     \<and> (t = name \<or> (\<exists>n. 1 \<le> n \<and> t = numbered name n \<and> numbered name ` {1..<n} \<subseteq> set names))"
  by (rule choose_target_cases [of names name]) auto

text \<open>C21: whatever ends a turn of the child's main loop, a CSV file it found is still in the outbox, or it
  is in an archive with the same text and each of its rows is acknowledged or rejected; no file that
  was archived before is lost.\<close>

theorem csv_leaves_outbox_when_settled:
  assumes "child_turn c dev seconds start env now ch = Some (ch', e)"
    and "dict_get (cf_outbox (ch_files ch)) name = Some content"
  shows "files_kept (ch_files ch) (ch_files ch')
    \<and> (dict_get (cf_outbox (ch_files ch')) name = Some content
       \<or> archived content (ch_files ch')
         \<and> (\<forall>l \<in> set (file_lines content). strip l = [] \<or> (\<exists>rec i r. parse_line dev (strip l) = Some rec
              \<and> rec_text rec ''event_id'' = Inr i \<and> store_find (ac_destination c) i (se_store (ch_session ch')) = Some r
              \<and> (dl_status r = DAcked \<or> dl_status r = DNacked))))"
proof -
  obtain u where u: "process_files c dev env (outbox_files ch) ch = Some (u, e)"
    and ch': "ch_files ch' = ch_files u" "ch_session ch' = ch_session u"
    using assms(1) by (auto simp: child_turn_def child_heartbeat_def split: option.splits prod.splits if_splits)
  have "file_safe c dev name content u \<and> files_kept (ch_files ch) (ch_files u)"
    by (rule process_files_safe [OF u]) (simp_all add: outbox_files_def file_safe_def assms(2))
  then show ?thesis unfolding ch' file_safe_def csv_settled_iff by blast
qed

theorem csv_leaves_outbox_when_settled_witness:
  "\<exists>rec i r. parse_line ''pi'' example_line = Some rec \<and> rec_text rec ''event_id'' = Inr i
     \<and> store_find ''hub:1883/r'' i (se_store (ch_session example_child)) = Some r \<and> (dl_status r = DAcked \<or> dl_status r = DNacked)"
proof -
  have "dict_get (cf_outbox (ch_files example_child)) ''a.csv'' = Some (example_line @ [CHR 0x0A])"
    by (simp add: example_child_def dict_get_def)
  from csv_leaves_outbox_when_settled [OF example_child_turn this] show ?thesis
    by (simp add: example_line_facts example_ack_config_def dict_get_def)
qed

end
