(* ===== verification/Monitor.thy ===== *)
theory Monitor
  imports Liveness Py_Json
begin

text \<open>
  \<open>desktop/presence-tools/pipeline_monitor\<close>: \<open>mqtt_tail.py\<close>, \<open>rollup.py\<close> and \<open>linker.py\<close> over the types of
  \<open>model.py\<close>: what the dashboard makes of the messages it sees. The characters beyond Latin-1 in its
  texts are parameters.
\<close>

record monitor_marks =
  mk_more :: string
  mk_bad_record :: string
  mk_to :: string
  mk_beat :: string
  mk_head :: string
  mk_sent :: string
  mk_failed :: string
  mk_waiting :: string

section \<open>Messages\<close>

record mqtt_msg =
  mm_ts :: rat
  mm_topic :: string
  mm_kind :: string
  mm_device :: "string option"
  mm_event_id :: "string option"
  mm_summary :: string
  mm_raw :: string

definition RECORD_TOPIC :: string where
  "RECORD_TOPIC = ''presence/record''"

definition STATUS_PREFIX :: string where
  "STATUS_PREFIX = ''presence/status/''"

definition HEARTBEAT_PREFIX :: string where
  "HEARTBEAT_PREFIX = ''presence/heartbeat/''"

definition t1_label :: "(pyval \<Rightarrow> string) \<Rightarrow> pyval \<Rightarrow> string" where
  "t1_label rp t1 = (if t1 = PNone then ''T1=?'' else ''T1='' @ py_str rp t1)"

text \<open>\<open>str.isdigit\<close> also takes the superscript digits.\<close>

definition py_isdigit :: "char \<Rightarrow> bool" where
  "py_isdigit c = (is_digit c \<or> code c \<in> {178, 179, 185})"

definition fmt_mk :: "string \<Rightarrow> string" where
  "fmt_mk mk =
     (if length mk = 14 \<and> list_all py_isdigit mk
      then take 4 mk @ ''-'' @ take 2 (drop 4 mk) @ ''-'' @ take 2 (drop 6 mk) @ '' '' @ take 2 (drop 8 mk) @ '':''
        @ take 2 (drop 10 mk) @ '':'' @ drop 12 mk
      else mk)"

definition short_text :: "monitor_marks \<Rightarrow> nat \<Rightarrow> string \<Rightarrow> string" where
  "short_text M n s = (if length s \<le> n then s else take n s @ mk_more M)"

definition some_text :: "string \<Rightarrow> string option" where
  "some_text s = (if s = [] then None else Some s)"

definition get_default :: "pyval dict \<Rightarrow> string \<Rightarrow> pyval \<Rightarrow> pyval" where
  "get_default d k v = (case dict_get d k of None \<Rightarrow> v | Some x \<Rightarrow> x)"

definition record_summary :: "monitor_marks \<Rightarrow> (pyval \<Rightarrow> string) \<Rightarrow> pyval dict \<Rightarrow> string \<Rightarrow> string option \<Rightarrow> string" where
  "record_summary M rp d event_id dev =
     or_else dev ''?'' @ '' '' @ t1_label rp (get_default d ''t1_status'' PNone) @ '' STA=''
       @ py_str rp (get_default d ''sta_no1'' (PStr ''?'')) @ ''/'' @ py_str rp (get_default d ''sta_no2'' (PStr ''?'')) @ ''/''
       @ py_str rp (get_default d ''sta_no3'' (PStr ''?'')) @ '' '' @ fmt_mk (py_str rp (get_default d ''mk_date'' (PStr [])))
       @ '' id='' @ short_text M 12 event_id"

text \<open>The three parts of a record's message that depend on its payload: device, event id and summary.\<close>

definition read_record :: "monitor_marks \<Rightarrow> (pyval \<Rightarrow> string) \<Rightarrow> string \<Rightarrow> (string option \<times> string option \<times> string) py" where
  "read_record M rp payload =
     (case py_bind (json_loads payload) (\<lambda>v. py_bind (py_subscript v ''event_id'') (\<lambda>i. Inr (v, i))) of
        Inl ValueError \<Rightarrow> Inr (None, None, mk_bad_record M)
      | Inl KeyError \<Rightarrow> Inr (None, None, mk_bad_record M)
      | Inl TypeError \<Rightarrow> Inr (None, None, mk_bad_record M)
      | Inl e \<Rightarrow> Inl e
      | Inr (PDict d, i) \<Rightarrow>
          py_bind (as_str_opt (get_default d ''device_id'' PNone)) (\<lambda>dev.
            Inr (dev, Some (py_str rp i), record_summary M rp d (py_str rp i) dev))
      | Inr (_, _) \<Rightarrow> Inl TypeMismatch)"

definition ack_event_id :: "(pyval \<Rightarrow> string) \<Rightarrow> string \<Rightarrow> string option py" where
  "ack_event_id rp payload =
     (case py_bind (json_loads payload) (\<lambda>v. py_bind (py_contains v ''event_id'') (\<lambda>b.
             if b then py_bind (py_subscript v ''event_id'') (\<lambda>i. Inr (Some (py_str rp i))) else Inr None)) of
        Inl ValueError \<Rightarrow> Inr None
      | Inl TypeError \<Rightarrow> Inr None
      | r \<Rightarrow> r)"

definition mqtt_summarize :: "monitor_marks \<Rightarrow> (pyval \<Rightarrow> string) \<Rightarrow> string \<Rightarrow> string \<Rightarrow> rat \<Rightarrow> mqtt_msg py" where
  "mqtt_summarize M rp topic payload now =
     (let msg = (\<lambda>kind dev i summary. \<lparr>mm_ts = now, mm_topic = topic, mm_kind = kind, mm_device = dev, mm_event_id = i,
                   mm_summary = summary, mm_raw = payload\<rparr>)
      in if topic = RECORD_TOPIC then
           py_bind (read_record M rp payload) (\<lambda>(dev, i, summary). Inr (msg ''record'' dev i summary))
         else if starts_with STATUS_PREFIX topic then
           (let dev = some_text (drop (length STATUS_PREFIX) topic)
            in Inr (msg ''status'' dev None (or_else dev ''?'' @ '' '' @ mk_to M @ '' '' @ strip payload)))
         else if starts_with HEARTBEAT_PREFIX topic then
           (let dev = some_text (drop (length HEARTBEAT_PREFIX) topic)
            in Inr (msg ''heartbeat'' dev None (or_else dev ''?'' @ '' '' @ mk_beat M)))
         else if ends_with ''/ack'' topic then
           py_bind (ack_event_id rp payload) (\<lambda>i.
             Inr (msg ''ack'' None i (strip (''ack '' @ topic @ '' ''
               @ (case i of None \<Rightarrow> [] | Some e \<Rightarrow> if e = [] then [] else ''id='' @ short_text M 12 e)))))
         else Inr (msg ''other'' None None (short_text M 40 payload)))"

text \<open>\<open>ingest_line\<close>: a line of \<open>mosquitto_sub -v\<close> goes to the end of a buffer of bounded length.\<close>

definition ingest_line :: "monitor_marks \<Rightarrow> (pyval \<Rightarrow> string) \<Rightarrow> nat \<Rightarrow> rat \<Rightarrow> string \<Rightarrow> mqtt_msg list \<Rightarrow> mqtt_msg list py" where
  "ingest_line M rp maxlen now line0 buf =
     (let line = rev (dropWhile (\<lambda>c. c = CHR 0x0A) (rev line0))
      in if strip line = [] then Inr buf
         else (case partition_on CHR '' '' line of (topic, _, payload) \<Rightarrow>
           py_bind (mqtt_summarize M rp topic payload now) (\<lambda>m.
             Inr (drop (length buf + 1 - maxlen) (buf @ [m])))))"

definition buffered_event_ids :: "mqtt_msg list \<Rightarrow> string set" where
  "buffered_event_ids buf = {i. \<exists>m \<in> set buf. mm_event_id m = Some i \<and> i \<noteq> []}"

section \<open>The log pane\<close>

record log_line =
  ll_ts :: rat
  ll_text :: string
  ll_dim :: bool

definition same_beat :: "mqtt_msg \<Rightarrow> mqtt_msg \<Rightarrow> bool" where
  "same_beat m x = (mm_kind x = ''heartbeat'' \<and> mm_device x = mm_device m)"

function collapse_heartbeats :: "monitor_marks \<Rightarrow> mqtt_msg list \<Rightarrow> log_line list" where
  "collapse_heartbeats M [] = []"
| "collapse_heartbeats M (m # ms) =
     (if mm_kind m = ''heartbeat'' then
        (let run = takeWhile (same_beat m) ms
         in \<lparr>ll_ts = mm_ts (last (m # run)),
             ll_text = (if run = [] then mm_summary m
               else or_else (mm_device m) ''?'' @ '' '' @ mk_beat M @ '' x'' @ nat_text (Suc (length run))),
             ll_dim = True\<rparr> # collapse_heartbeats M (dropWhile (same_beat m) ms))
      else \<lparr>ll_ts = mm_ts m, ll_text = mm_summary m, ll_dim = False\<rparr> # collapse_heartbeats M ms)"
  by pat_completeness auto
termination
  by (relation "measure (length \<circ> snd)") (simp_all add: length_dropWhile_le less_Suc_eq_le)

section \<open>Children\<close>

record child_stat =
  cs_device :: string
  cs_count :: int
  cs_last_mk :: "string option"
  cs_hb_age :: "rat option"
  cs_state :: string

record child_acc =
  ca_count :: int
  ca_last_mk :: "string option"
  ca_hb_at :: "rat option"
  ca_online_at :: "rat option"
  ca_offline_at :: "rat option"

definition new_acc :: child_acc where
  "new_acc = \<lparr>ca_count = 0, ca_last_mk = None, ca_hb_at = None, ca_online_at = None, ca_offline_at = None\<rparr>"

definition acc_state :: "child_acc \<Rightarrow> rat \<Rightarrow> rat \<Rightarrow> string \<times> rat option" where
  "acc_state a now timeout =
     (let alive = (case (ca_hb_at a, ca_online_at a) of
            (None, t) \<Rightarrow> t | (Some h, None) \<Rightarrow> Some h | (Some h, Some t) \<Rightarrow> Some (max h t));
          hb_age = map_option (\<lambda>h. now - h) (ca_hb_at a)
      in if (case ca_offline_at a of None \<Rightarrow> False | Some off \<Rightarrow> (case alive of None \<Rightarrow> True | Some t \<Rightarrow> t \<le> off))
         then (''offline'', hb_age)
         else (case alive of
            Some t \<Rightarrow> (if now - t \<le> timeout then ''online'' else ''stale'', hb_age)
          | None \<Rightarrow> (''unknown'', None)))"

definition later :: "rat option \<Rightarrow> rat \<Rightarrow> rat option" where
  "later old t = (case old of None \<Rightarrow> Some t | Some u \<Rightarrow> if u < t then Some t else Some u)"

definition record_mk :: "(pyval \<Rightarrow> string) \<Rightarrow> string \<Rightarrow> string option" where
  "record_mk rp raw =
     (case py_bind (json_loads raw) (\<lambda>v. py_get v ''mk_date'') of
        Inl _ \<Rightarrow> None
      | Inr v \<Rightarrow> if v = PNone then None else Some (py_str rp v))"

definition acc_add :: "(pyval \<Rightarrow> string) \<Rightarrow> mqtt_msg \<Rightarrow> child_acc \<Rightarrow> child_acc" where
  "acc_add rp m a =
     (if mm_kind m = ''record'' then
        (let mk = record_mk rp (mm_raw m);
             a = a\<lparr>ca_count := ca_count a + 1\<rparr>
         in case mk of None \<Rightarrow> a
            | Some t \<Rightarrow> if t \<noteq> [] \<and> (case ca_last_mk a of None \<Rightarrow> True | Some u \<Rightarrow> u < t) then a\<lparr>ca_last_mk := Some t\<rparr> else a)
      else if mm_kind m = ''heartbeat'' then a\<lparr>ca_hb_at := later (ca_hb_at a) (mm_ts m)\<rparr>
      else if mm_kind m = ''status'' then
        (let state = strip (mm_raw m)
         in if state = ''online'' then a\<lparr>ca_online_at := later (ca_online_at a) (mm_ts m)\<rparr>
            else if state = ''offline'' then a\<lparr>ca_offline_at := later (ca_offline_at a) (mm_ts m)\<rparr>
            else a)
      else a)"

definition acc_of :: "string \<Rightarrow> child_acc dict \<Rightarrow> child_acc" where
  "acc_of dev accs = (case dict_get accs dev of None \<Rightarrow> new_acc | Some a \<Rightarrow> a)"

definition roll_step :: "(pyval \<Rightarrow> string) \<Rightarrow> mqtt_msg \<Rightarrow> child_acc dict \<Rightarrow> child_acc dict" where
  "roll_step rp m accs =
     (case mm_device m of None \<Rightarrow> accs
      | Some dev \<Rightarrow> if dev = [] then accs else dict_set dev (acc_add rp m (acc_of dev accs)) accs)"

definition stat_of :: "rat \<Rightarrow> rat \<Rightarrow> string \<times> child_acc \<Rightarrow> child_stat" where
  "stat_of now timeout = (\<lambda>(dev, a). case acc_state a now timeout of (st, age) \<Rightarrow>
     \<lparr>cs_device = dev, cs_count = ca_count a, cs_last_mk = ca_last_mk a, cs_hb_age = map_option round1 age, cs_state = st\<rparr>)"

definition child_rollup :: "(pyval \<Rightarrow> string) \<Rightarrow> mqtt_msg list \<Rightarrow> rat \<Rightarrow> rat \<Rightarrow> child_stat list" where
  "child_rollup rp msgs now timeout = sort_key cs_device (map (stat_of now timeout) (fold (roll_step rp) msgs []))"

record device_agg =
  da_device :: string
  da_count :: int
  da_last_mk :: "string option"

definition merged_children :: "(pyval \<Rightarrow> string) \<Rightarrow> device_agg list \<Rightarrow> mqtt_msg list \<Rightarrow> rat \<Rightarrow> rat \<Rightarrow> child_stat list" where
  "merged_children rp aggs msgs now timeout =
     (let live = map (\<lambda>s. (cs_device s, s)) (child_rollup rp msgs now timeout);
          known = map (\<lambda>d. case dict_get live (da_device d) of
              None \<Rightarrow> \<lparr>cs_device = da_device d, cs_count = da_count d, cs_last_mk = da_last_mk d, cs_hb_age = None,
                       cs_state = ''unknown''\<rparr>
            | Some lv \<Rightarrow> \<lparr>cs_device = da_device d, cs_count = da_count d, cs_last_mk = da_last_mk d,
                          cs_hb_age = cs_hb_age lv, cs_state = cs_state lv\<rparr>) aggs;
          others = map snd (filter (\<lambda>p. fst p \<notin> da_device ` set aggs) live)
      in sort_key cs_device (known @ others))"

section \<open>Stages\<close>

definition stage_of :: "monitor_marks \<Rightarrow> string \<Rightarrow> bool \<Rightarrow> string" where
  "stage_of M status mqtt_seen =
     (if mqtt_seen then mk_head M else [])
       @ (if status = ''sent'' then mk_sent M else if status = ''failed'' then mk_failed M else mk_waiting M)"

section \<open>The dashboard and the bridge agree\<close>

text \<open>The signals of life among the messages, as the tracker of the bridge gets them.\<close>

definition msg_signals :: "mqtt_msg \<Rightarrow> live_log" where
  "msg_signals m =
     (case mm_device m of None \<Rightarrow> []
      | Some dev \<Rightarrow> if dev = [] then []
          else if mm_kind m = ''heartbeat'' then [(mm_ts m, dev, SigHeartbeat PNone)]
          else if mm_kind m = ''status'' then [(mm_ts m, dev, SigStatus (strip (mm_raw m)))]
          else [])"

definition signals_of :: "mqtt_msg list \<Rightarrow> live_log" where
  "signals_of msgs = concat (map msg_signals msgs)"

definition known_status :: "mqtt_msg \<Rightarrow> bool" where
  "known_status m = (mm_kind m = ''status'' \<longrightarrow> strip (mm_raw m) = ONLINE \<or> strip (mm_raw m) = OFFLINE)"

lemma signals_of_snoc: "signals_of (msgs @ [m]) = signals_of msgs @ msg_signals m"
  by (simp add: signals_of_def)

lemma msg_signals_cases:
  obtains (none) "msg_signals m = []"
  | (one) dev s where "msg_signals m = [(mm_ts m, dev, s)]" and "mm_device m = Some dev" and "dev \<noteq> []"
      and "mm_kind m = ''heartbeat'' \<and> s = SigHeartbeat PNone \<or> mm_kind m = ''status'' \<and> s = SigStatus (strip (mm_raw m))"
proof (cases "mm_device m")
  case None
  then show thesis by (intro none) (simp add: msg_signals_def)
next
  case (Some a)
  consider "a = []" | "a \<noteq> []" "mm_kind m = ''heartbeat''" | "a \<noteq> []" "mm_kind m = ''status''"
    | "mm_kind m \<noteq> ''heartbeat''" "mm_kind m \<noteq> ''status''" by blast
  then show thesis
    by cases (use Some none one [of a] in \<open>simp_all add: msg_signals_def\<close>)
qed

lemma signals_of_time: "(t, d, s) \<in> set (signals_of msgs) \<Longrightarrow> t \<in> mm_ts ` set msgs"
proof (induction msgs rule: rev_induct)
  case Nil
  then show ?case by (simp add: signals_of_def)
next
  case (snoc m msgs)
  then show ?case
    by (cases m rule: msg_signals_cases) (auto simp: signals_of_snoc)
qed

lemma signals_of_sorted: "sorted_wrt (<) (map mm_ts msgs) \<Longrightarrow> sorted_wrt (<) (map fst (signals_of msgs))"
proof (induction msgs rule: rev_induct)
  case Nil
  then show ?case by (simp add: signals_of_def)
next
  case (snoc m msgs)
  then have lt: "t < mm_ts m" if "t \<in> fst ` set (signals_of msgs)" for t
    using that signals_of_time [of t _ _ msgs] by (fastforce simp: sorted_wrt_append)
  from snoc show ?case
    by (cases m rule: msg_signals_cases) (use lt in \<open>simp_all add: signals_of_snoc sorted_wrt_append\<close>)
qed

text \<open>How the account of a child relates to its last signal.\<close>

fun acc_for :: "rat \<times> live_signal \<Rightarrow> child_acc \<Rightarrow> bool" where
  "acc_for (t, SigStatus s) a =
     (before (ca_hb_at a) t
      \<and> (if s = ONLINE then ca_online_at a = Some t \<and> before (ca_offline_at a) t
         else ca_offline_at a = Some t \<and> before (ca_online_at a) t))"
| "acc_for (t, SigHeartbeat p) a = (ca_hb_at a = Some t \<and> before (ca_online_at a) t \<and> before (ca_offline_at a) t)"

definition acc_silent :: "child_acc \<Rightarrow> bool" where
  "acc_silent a = (ca_hb_at a = None \<and> ca_online_at a = None \<and> ca_offline_at a = None)"

definition acc_before :: "child_acc \<Rightarrow> rat \<Rightarrow> bool" where
  "acc_before a u = (before (ca_hb_at a) u \<and> before (ca_online_at a) u \<and> before (ca_offline_at a) u)"

lemma acc_for_before: "acc_for (t, s) a \<Longrightarrow> t < u \<Longrightarrow> acc_before a u"
  by (cases s) (auto simp: acc_before_def before_def split: option.splits if_splits)

lemma acc_for_state: "acc_for (t, s) a \<Longrightarrow> fst (acc_state a now T) = spec_state T now (t, s)"
  by (cases s) (auto simp: acc_state_def spec_state_def before_def ONLINE_def OFFLINE_def max_def split: option.splits if_splits)

lemma later_before: "before old t \<Longrightarrow> later old t = Some t"
  by (auto simp: later_def before_def split: option.splits)

lemma acc_add_signal:
  assumes "mm_kind m = ''heartbeat'' \<and> s = SigHeartbeat PNone \<or> mm_kind m = ''status'' \<and> s = SigStatus (strip (mm_raw m))"
    and "acc_before a (mm_ts m)" and "known_status m"
  shows "acc_for (mm_ts m, s) (acc_add rp m a)"
  using assms by (auto simp: acc_add_def acc_before_def later_before known_status_def ONLINE_def OFFLINE_def Let_def)

lemma acc_add_no_signal:
  assumes "mm_kind m \<noteq> ''heartbeat''" and "mm_kind m \<noteq> ''status''"
  shows "acc_silent (acc_add rp m a) = acc_silent a" and "acc_for p (acc_add rp m a) = acc_for p a"
proof -
  have *: "ca_hb_at (acc_add rp m a) = ca_hb_at a" "ca_online_at (acc_add rp m a) = ca_online_at a"
    "ca_offline_at (acc_add rp m a) = ca_offline_at a"
    using assms by (simp_all add: acc_add_def Let_def split: option.split)
  show "acc_silent (acc_add rp m a) = acc_silent a" by (simp add: acc_silent_def *)
  show "acc_for p (acc_add rp m a) = acc_for p a"
    by (cases "(p, a)" rule: acc_for.cases) (simp_all add: *)
qed

lemma roll_step_acc:
  "acc_of dev (roll_step rp m accs) = (if mm_device m = Some dev \<and> dev \<noteq> [] then acc_add rp m (acc_of dev accs) else acc_of dev accs)"
  by (auto simp: roll_step_def acc_of_def split: option.split)

definition rolled :: "(pyval \<Rightarrow> string) \<Rightarrow> mqtt_msg list \<Rightarrow> child_acc dict" where
  "rolled rp msgs = fold (roll_step rp) msgs []"

lemma rolled_snoc: "rolled rp (msgs @ [m]) = roll_step rp m (rolled rp msgs)"
  by (simp add: rolled_def)

lemma rolled_acc:
  assumes "sorted_wrt (<) (map mm_ts msgs)" and "\<And>m. m \<in> set msgs \<Longrightarrow> known_status m"
  shows "case last_signal dev (signals_of msgs) of None \<Rightarrow> acc_silent (acc_of dev (rolled rp msgs))
    | Some p \<Rightarrow> acc_for p (acc_of dev (rolled rp msgs))"
  using assms
proof (induction msgs rule: rev_induct)
  case Nil
  then show ?case by (simp add: signals_of_def rolled_def acc_of_def dict_get_def new_acc_def acc_silent_def)
next
  case (snoc m msgs)
  let ?a = "acc_of dev (rolled rp msgs)"
  have old: "case last_signal dev (signals_of msgs) of None \<Rightarrow> acc_silent ?a | Some p \<Rightarrow> acc_for p ?a"
    using snoc by (simp add: sorted_wrt_append)
  have before: "acc_before ?a (mm_ts m)"
  proof (cases "last_signal dev (signals_of msgs)")
    case None
    with old show ?thesis by (simp add: acc_silent_def acc_before_def before_def)
  next
    case (Some p)
    obtain u q where p: "p = (u, q)" by (cases p)
    then have "u \<in> mm_ts ` set msgs" using Some last_signal_mem signals_of_time by blast
    then have "u < mm_ts m" using snoc.prems(1) by (auto simp: sorted_wrt_append)
    with old Some p show ?thesis by (auto dest: acc_for_before)
  qed
  have known: "known_status m" using snoc.prems(2) by simp
  show ?case
  proof (cases "mm_device m = Some dev \<and> dev \<noteq> []")
    case False
    then have "last_signal dev (signals_of (msgs @ [m])) = last_signal dev (signals_of msgs)"
      by (cases m rule: msg_signals_cases) (auto simp: signals_of_snoc last_signal_snoc)
    moreover have "acc_of dev (rolled rp (msgs @ [m])) = ?a" using False by (auto simp: rolled_snoc roll_step_acc)
    ultimately show ?thesis using old by (cases "last_signal dev (signals_of msgs)") simp_all
  next
    case True
    show ?thesis
    proof (cases m rule: msg_signals_cases)
      case none
      then have "mm_kind m \<noteq> ''heartbeat''" "mm_kind m \<noteq> ''status''" using True by (auto simp: msg_signals_def)
      with True none old show ?thesis
        by (cases "last_signal dev (signals_of msgs)") (auto simp: signals_of_snoc rolled_snoc roll_step_acc acc_add_no_signal)
    next
      case (one d s)
      then have "d = dev" using True by simp
      with one True acc_add_signal [OF one(4) before known] show ?thesis
        by (simp add: signals_of_snoc last_signal_snoc rolled_snoc roll_step_acc)
    qed
  qed
qed

lemma rolled_distinct: "distinct (dict_keys (rolled rp msgs))"
  unfolding rolled_def
  by (rule fold_invariant_list [where I = "\<lambda>d. distinct (dict_keys d)"])
    (auto simp: roll_step_def dict_set_distinct dict_keys_def [of "[]"] split: option.split)

lemma rollup_row:
  assumes "r \<in> set (child_rollup rp msgs now T)"
  shows "cs_state r = fst (acc_state (acc_of (cs_device r) (rolled rp msgs)) now T)"
proof -
  obtain dev a where p: "(dev, a) \<in> set (rolled rp msgs)" "r = stat_of now T (dev, a)"
    using assms by (auto simp: child_rollup_def rolled_def)
  then have "acc_of dev (rolled rp msgs) = a"
    using rolled_distinct [of rp msgs] by (simp add: acc_of_def dict_get_Some_iff [THEN iffD2])
  with p(2) show ?thesis by (simp add: stat_of_def split: prod.split)
qed

section \<open>Properties\<close>

text \<open>C36: for the same messages, in the order of time and with the two states the children publish, the
  dashboard shows every child in the state the liveness tracker of the bridge has for it, although
  it keeps other times than the tracker.\<close>

theorem rollup_agrees_with_bridge:
  assumes "sorted_wrt (<) (map mm_ts msgs)" and "\<And>m. m \<in> set msgs \<Longrightarrow> known_status m"
    and "r \<in> set (child_rollup rp msgs now T)"
    and "q \<in> set (snapshot (live_run (signals_of msgs) (new_live_tracker T)) now)" and "lr_device q = cs_device r"
  shows "cs_state r = lr_state q"
proof -
  obtain p where p: "last_signal (cs_device r) (signals_of msgs) = Some p" "lr_state q = spec_state T now p"
    using snapshot_row_state [OF signals_of_sorted [OF assms(1)] assms(4)] assms(5) by auto
  obtain t s where ts: "p = (t, s)" by (cases p)
  have "acc_for p (acc_of (cs_device r) (rolled rp msgs))"
    using rolled_acc [OF assms(1,2), of "cs_device r" rp] p(1) by simp
  with rollup_row [OF assms(3)] p(2) acc_for_state ts show ?thesis by simp
qed

definition example_msgs :: "mqtt_msg list" where
  "example_msgs = map (\<lambda>(t, kind, raw). \<lparr>mm_ts = t, mm_topic = [], mm_kind = kind, mm_device = Some ''st1'', mm_event_id = None,
     mm_summary = [], mm_raw = raw\<rparr>) [(1, ''status'', ''online''), (2, ''heartbeat'', []), (3, ''status'', ''offline'')]"

theorem rollup_agrees_with_bridge_witness:
  "map cs_state (child_rollup (\<lambda>_. []) example_msgs 40 30)
     = map lr_state (snapshot (live_run (signals_of example_msgs) (new_live_tracker 30)) 40)"
proof -
  have strip: "strip ''online'' = ''online''" "strip ''offline'' = ''offline''"
    by (rule strip_idem, simp add: is_space_def)+
  obtain r where r: "child_rollup (\<lambda>_. []) example_msgs 40 30 = [r]" "cs_device r = ''st1''"
    by (simp add: child_rollup_def example_msgs_def roll_step_def stat_of_def split: prod.split)
  obtain q where q: "snapshot (live_run (signals_of example_msgs) (new_live_tracker 30)) 40 = [q]" "lr_device q = ''st1''"
    by (simp add: snapshot_def example_msgs_def signals_of_def msg_signals_def live_run_def live_step_def record_status_def
        record_heartbeat_def set_device_def new_live_tracker_def live_row_of_def split: prod.split)
  have "cs_state r = lr_state q"
    by (rule rollup_agrees_with_bridge [where msgs = example_msgs and T = 30 and now = 40 and rp = "\<lambda>_. []"])
      (use r q strip in \<open>auto simp: example_msgs_def known_status_def ONLINE_def OFFLINE_def\<close>)
  with r q show ?thesis by simp
qed

text \<open>The log pane leaves nothing out but repeated heartbeats: the lines that are not dimmed are the
  other messages, all of them, in order and with their times.\<close>

theorem collapse_keeps_other_messages:
  "map (\<lambda>l. (ll_ts l, ll_text l)) (filter (\<lambda>l. \<not> ll_dim l) (collapse_heartbeats M msgs))
     = map (\<lambda>m. (mm_ts m, mm_summary m)) (filter (\<lambda>m. mm_kind m \<noteq> ''heartbeat'') msgs)"
proof (induction M msgs rule: collapse_heartbeats.induct)
  case (1 M)
  then show ?case by simp
next
  case (2 M m ms)
  have "filter (\<lambda>m. mm_kind m \<noteq> ''heartbeat'') (dropWhile (same_beat m) ms) = filter (\<lambda>m. mm_kind m \<noteq> ''heartbeat'') ms"
    by (induction ms) (auto simp: same_beat_def)
  with 2 show ?case by (simp add: Let_def)
qed

end
