(* ===== verification/Monitor_Inbox.thy ===== *)
theory Monitor_Inbox
  imports Monitor Record_Inbox
begin

text \<open>
  \<open>desktop/presence-tools/pipeline_monitor/inbox_reader.py\<close> and \<open>oracle_reader.py\<close>: the dashboard's view of
  the record store, read directly or through the script that runs in the container of the bridge, and
  the answer of the sidecar to a query. The two paths run the same queries; grouped rows come in
  the order of the group's key, with NULL first.
\<close>

record inbox_row =
  ir_event_id :: string
  ir_device :: "string option"
  ir_mk_date :: string
  ir_status :: string
  ir_retry_count :: int
  ir_last_error :: "string option"
  ir_received_at :: string
  ir_sent_at :: "string option"
  ir_sta_no1 :: string
  ir_sta_no2 :: string
  ir_sta_no3 :: string
  ir_t1_status :: string
  ir_mk_committed :: "string option"

record inbox_view =
  iv_rows :: "inbox_row list"
  iv_received :: int
  iv_sent :: int
  iv_total :: int
  iv_devices :: "device_agg list"
  iv_failed :: int

fun status_text :: "record_status \<Rightarrow> string" where
  "status_text RReceived = ''received''"
| "status_text RSent = ''sent''"
| "status_text RFailed = ''failed''"

section \<open>The queries\<close>

definition count_status :: "record_status \<Rightarrow> record_inbox \<Rightarrow> nat" where
  "count_status st t = length (filter (\<lambda>r. re_status r = st) t)"

definition status_groups :: "record_inbox \<Rightarrow> (string \<times> nat) list" where
  "status_groups t = filter (\<lambda>p. 0 < snd p) (map (\<lambda>st. (status_text st, count_status st t)) [RFailed, RReceived, RSent])"

definition device_keys :: "record_inbox \<Rightarrow> string option list" where
  "device_keys t =
     (if None \<in> re_device_id ` set t then [None] else [])
       @ map Some (sort (remdups (concat (map (\<lambda>r. case re_device_id r of None \<Rightarrow> [] | Some d \<Rightarrow> [d]) t))))"

definition max_text :: "string list \<Rightarrow> string" where
  "max_text xs = fold max xs []"

definition device_groups :: "record_inbox \<Rightarrow> (string option \<times> nat \<times> string) list" where
  "device_groups t = map (\<lambda>k. let rs = filter (\<lambda>r. re_device_id r = k) t in (k, length rs, max_text (map re_mk_date rs))) (device_keys t)"

definition newest_rows :: "nat \<Rightarrow> record_inbox \<Rightarrow> record_inbox" where
  "newest_rows limit t = take limit (order_by_desc re_received_at_iso t)"

section \<open>Reading directly\<close>

definition view_row :: "record_event \<Rightarrow> inbox_row" where
  "view_row r = \<lparr>ir_event_id = re_event_id r, ir_device = re_device_id r, ir_mk_date = re_mk_date r,
     ir_status = status_text (re_status r), ir_retry_count = re_retry_count r, ir_last_error = re_last_error r,
     ir_received_at = re_received_at_iso r, ir_sent_at = re_sent_at_iso r, ir_sta_no1 = re_sta_no1 r,
     ir_sta_no2 = re_sta_no2 r, ir_sta_no3 = re_sta_no3 r, ir_t1_status = int_text (re_t1_status r),
     ir_mk_committed = re_mk_date_committed r\<rparr>"

text \<open>The loop over the groups: the last count of a status is kept.\<close>

definition count_of :: "string \<Rightarrow> (string \<times> nat) list \<Rightarrow> int" where
  "count_of st groups = fold (\<lambda>p n. if fst p = st then int (snd p) else n) groups 0"

definition view_device :: "string \<Rightarrow> string option \<times> nat \<times> string \<Rightarrow> device_agg" where
  "view_device unknown = (\<lambda>(d, n, mk). \<lparr>da_device = or_else d unknown, da_count = int n, da_last_mk = Some mk\<rparr>)"

definition make_view :: "int \<Rightarrow> int \<Rightarrow> int \<Rightarrow> inbox_row list \<Rightarrow> device_agg list \<Rightarrow> inbox_view" where
  "make_view received sent failed rows devices =
     \<lparr>iv_rows = rows, iv_received = received, iv_sent = sent, iv_total = received + sent + failed, iv_devices = devices,
      iv_failed = failed\<rparr>"

definition read_direct :: "string \<Rightarrow> nat \<Rightarrow> record_inbox \<Rightarrow> inbox_view" where
  "read_direct unknown limit t =
     make_view (count_of ''received'' (status_groups t)) (count_of ''sent'' (status_groups t))
       (count_of ''failed'' (status_groups t)) (map view_row (newest_rows limit t)) (map (view_device unknown) (device_groups t))"

section \<open>Reading through the container\<close>

definition TAB :: char where
  "TAB = CHR 0x09"

definition LF :: char where
  "LF = CHR 0x0A"

definition none_empty :: "string option \<Rightarrow> string" where
  "none_empty s = (case s of None \<Rightarrow> [] | Some x \<Rightarrow> x)"

text \<open>\<open>replace\<close> of the characters that would break the lines.\<close>

definition flat_text :: "string \<Rightarrow> string" where
  "flat_text s = map (\<lambda>c. if c = TAB \<or> c = LF then CHR '' '' else c) s"

definition tabbed :: "string list \<Rightarrow> string" where
  "tabbed parts = join_with [TAB] parts"

definition cnt_line :: "string \<times> nat \<Rightarrow> string list" where
  "cnt_line = (\<lambda>(st, n). [''CNT'', st, int_text (int n)])"

definition dev_line :: "string option \<times> nat \<times> string \<Rightarrow> string list" where
  "dev_line = (\<lambda>(d, n, mk). [''DEV'', none_empty d, int_text (int n), mk])"

definition row_line :: "record_event \<Rightarrow> string list" where
  "row_line r = [''ROW'', re_event_id r, none_empty (re_device_id r), re_mk_date r, status_text (re_status r),
     int_text (re_retry_count r), flat_text (none_empty (re_last_error r)), re_received_at_iso r,
     none_empty (re_sent_at_iso r), re_sta_no1 r, re_sta_no2 r, re_sta_no3 r, int_text (re_t1_status r),
     none_empty (re_mk_date_committed r)]"

definition container_lines :: "nat \<Rightarrow> record_inbox \<Rightarrow> string list list" where
  "container_lines limit t =
     map cnt_line (status_groups t) @ map dev_line (device_groups t) @ map row_line (newest_rows limit t)"

definition container_output :: "nat \<Rightarrow> record_inbox \<Rightarrow> string" where
  "container_output limit t = concat (map (\<lambda>l. l @ [LF]) (map tabbed (container_lines limit t)))"

definition int_py :: "string \<Rightarrow> int py" where
  "int_py s = (case int_of_text s of None \<Rightarrow> Inl ValueError | Some i \<Rightarrow> Inr i)"

definition parse_line_parts :: "string \<Rightarrow> string list \<Rightarrow> inbox_view \<Rightarrow> inbox_view py" where
  "parse_line_parts unknown parts v =
     (case parts of
        [a, st, n] \<Rightarrow>
          if a = ''CNT'' then
            (if st = ''received'' then py_bind (int_py n) (\<lambda>i. Inr (v\<lparr>iv_received := i\<rparr>))
             else if st = ''sent'' then py_bind (int_py n) (\<lambda>i. Inr (v\<lparr>iv_sent := i\<rparr>))
             else if st = ''failed'' then py_bind (int_py n) (\<lambda>i. Inr (v\<lparr>iv_failed := i\<rparr>))
             else Inr v)
          else Inr v
      | [a, d, n, mk] \<Rightarrow>
          if a = ''DEV'' then py_bind (int_py n) (\<lambda>i. Inr (v\<lparr>iv_devices := iv_devices v @
              [\<lparr>da_device = (if d = [] then unknown else d), da_count = i, da_last_mk = some_text mk\<rparr>]\<rparr>))
          else Inr v
      | [a, eid, dev, mk, st, rc, le, recv, sent, s1, s2, s3, t1, com] \<Rightarrow>
          if a = ''ROW'' then py_bind (int_py rc) (\<lambda>i. Inr (v\<lparr>iv_rows := iv_rows v @
              [\<lparr>ir_event_id = eid, ir_device = some_text dev, ir_mk_date = mk, ir_status = st, ir_retry_count = i,
                ir_last_error = some_text le, ir_received_at = recv, ir_sent_at = some_text sent, ir_sta_no1 = s1,
                ir_sta_no2 = s2, ir_sta_no3 = s3, ir_t1_status = t1, ir_mk_committed = some_text com\<rparr>]\<rparr>))
          else Inr v
      | _ \<Rightarrow> Inr v)"

fun parse_lines :: "string \<Rightarrow> string list list \<Rightarrow> inbox_view \<Rightarrow> inbox_view py" where
  "parse_lines unknown [] v = Inr v"
| "parse_lines unknown (l # ls) v = py_bind (parse_line_parts unknown l v) (parse_lines unknown ls)"

definition parse_container_output :: "string \<Rightarrow> string \<Rightarrow> inbox_view py" where
  "parse_container_output unknown t =
     py_bind (parse_lines unknown (map (split_on TAB) (splitlines t)) (make_view 0 0 0 [] []))
       (\<lambda>v. Inr (v\<lparr>iv_total := iv_received v + iv_sent v + iv_failed v\<rparr>))"

text \<open>\<open>read\<close>: the direct path unless the database cannot be opened that way.\<close>

definition read_inbox :: "string \<Rightarrow> nat \<Rightarrow> bool \<Rightarrow> record_inbox option \<Rightarrow> string py \<Rightarrow> inbox_view py" where
  "read_inbox unknown limit readable db runner =
     (case db of
        None \<Rightarrow> Inl OSError
      | Some t \<Rightarrow> if readable then Inr (read_direct unknown limit t) else py_bind runner (parse_container_output unknown))"

section \<open>Stages\<close>

record linked_row =
  lk_inbox :: inbox_row
  lk_mqtt_seen :: bool
  lk_stage :: string

definition annotate_stages :: "monitor_marks \<Rightarrow> inbox_row list \<Rightarrow> string set \<Rightarrow> linked_row list" where
  "annotate_stages M rows ids =
     map (\<lambda>r. let seen = ir_event_id r \<in> ids
              in \<lparr>lk_inbox = r, lk_mqtt_seen = seen, lk_stage = stage_of M (ir_status r) seen\<rparr>) rows"

section \<open>The answer of the sidecar\<close>

record oracle_row =
  or_mk_date :: string
  or_sta_no1 :: string
  or_sta_no2 :: string
  or_sta_no3 :: string
  or_t1_status :: string
  or_upcmpflg :: string

record oracle_result =
  os_rows :: "oracle_row list"
  os_count :: "string option"
  os_ora_code :: string
  os_error_message :: string

definition result_ok :: "oracle_result \<Rightarrow> bool" where
  "result_ok r = (os_ora_code r = [] \<and> os_error_message r = [])"

text \<open>\<open>split(c, n)\<close>: at most \<open>n\<close> separators are used.\<close>

fun split_max :: "char \<Rightarrow> nat \<Rightarrow> string \<Rightarrow> string list" where
  "split_max sep 0 s = [s]"
| "split_max sep (Suc n) s =
     (case partition_on sep s of (a, True, r) \<Rightarrow> a # split_max sep n r | (a, False, r) \<Rightarrow> [a])"

definition column :: "nat \<Rightarrow> string list \<Rightarrow> string" where
  "column i parts = (if i < length parts then parts ! i else [])"

definition read_row :: "string \<Rightarrow> oracle_row" where
  "read_row s =
     (let parts = split_max CHR '','' 5 s
      in \<lparr>or_mk_date = column 0 parts, or_sta_no1 = column 1 parts, or_sta_no2 = column 2 parts, or_sta_no3 = column 3 parts,
          or_t1_status = column 4 parts, or_upcmpflg = column 5 parts\<rparr>)"

definition read_reply_line :: "string \<Rightarrow> oracle_result \<Rightarrow> oracle_result" where
  "read_reply_line line res =
     (if starts_with ''count='' line then res\<lparr>os_count := Some (drop 6 line)\<rparr>
      else if starts_with ''ora_code='' line then res\<lparr>os_ora_code := drop 9 line\<rparr>
      else if starts_with ''error_message='' line then res\<lparr>os_error_message := drop 14 line\<rparr>
      else if starts_with ''row='' line then res\<lparr>os_rows := os_rows res @ [read_row (drop 4 line)]\<rparr>
      else res)"

definition parse_select_recent :: "string \<Rightarrow> oracle_result" where
  "parse_select_recent t =
     fold read_reply_line (splitlines t) \<lparr>os_rows = [], os_count = None, os_ora_code = [], os_error_message = []\<rparr>"

record oracle_query =
  oq_host :: string
  oq_port :: string
  oq_service :: string
  oq_user :: string
  oq_table :: string
  oq_sta_no1 :: string
  oq_sta_no2 :: string
  oq_sta_no3 :: string
  oq_mk_date_from :: string
  oq_mk_date_to :: string
  oq_t1_status :: string
  oq_limit :: int

text \<open>The fields of the body, before they are encoded.\<close>

definition post_fields :: "oracle_query \<Rightarrow> string \<Rightarrow> (string \<times> string) list" where
  "post_fields q password =
     [(''url'', ''jdbc:oracle:thin:@'' @ oq_host q @ '':'' @ oq_port q @ ''/'' @ oq_service q), (''user'', oq_user q),
      (''password'', password), (''table_name'', oq_table q), (''limit'', int_text (oq_limit q))]
     @ filter (\<lambda>p. snd p \<noteq> [])
         [(''sta_no1'', oq_sta_no1 q), (''sta_no2'', oq_sta_no2 q), (''sta_no3'', oq_sta_no3 q),
          (''mk_date_from'', oq_mk_date_from q), (''mk_date_to'', oq_mk_date_to q), (''t1_status'', oq_t1_status q)]"

section \<open>The two paths agree\<close>

lemma int_py_text [simp]: "int_py (int_text i) = Inr i"
  by (simp add: int_py_def int_text_roundtrip)

lemma parse_lines_append:
  "parse_lines unknown (xs @ ys) v = py_bind (parse_lines unknown xs v) (parse_lines unknown ys)"
proof (induction xs arbitrary: v)
  case (Cons x xs)
  then show ?case by (cases "parse_line_parts unknown x v") simp_all
qed simp

lemma parse_cnt_lines:
  assumes "fst ` set gs \<subseteq> {''received'', ''sent'', ''failed''}"
  shows "parse_lines unknown (map cnt_line gs) v = Inr (v
    \<lparr>iv_received := fold (\<lambda>p n. if fst p = ''received'' then int (snd p) else n) gs (iv_received v),
     iv_sent := fold (\<lambda>p n. if fst p = ''sent'' then int (snd p) else n) gs (iv_sent v),
     iv_failed := fold (\<lambda>p n. if fst p = ''failed'' then int (snd p) else n) gs (iv_failed v)\<rparr>)"
  using assms
proof (induction gs arbitrary: v)
  case Nil
  then show ?case by simp
next
  case (Cons g gs)
  obtain st n where g: "g = (st, n)" by (cases g)
  from Cons.prems g consider "st = ''received''" | "st = ''sent''" | "st = ''failed''" by auto
  then show ?case
    by cases (use Cons g in \<open>simp_all add: cnt_line_def parse_line_parts_def\<close>)
qed

lemma parse_dev_lines:
  assumes "\<And>d n mk. (d, n, mk) \<in> set gs \<Longrightarrow> mk \<noteq> []"
  shows "parse_lines unknown (map dev_line gs) v = Inr (v\<lparr>iv_devices := iv_devices v @ map (view_device unknown) gs\<rparr>)"
  using assms
proof (induction gs arbitrary: v)
  case Nil
  then show ?case by simp
next
  case (Cons g gs)
  obtain d n mk where g: "g = (d, n, mk)" by (cases g)
  have mk: "mk \<noteq> []" using Cons.prems [of d n mk] g by simp
  have "view_device unknown g = \<lparr>da_device = (if none_empty d = [] then unknown else none_empty d), da_count = int n, da_last_mk = Some mk\<rparr>"
    by (cases d) (simp_all add: g view_device_def or_else_def none_empty_def)
  moreover have "parse_line_parts unknown (dev_line g) v
      = Inr (v\<lparr>iv_devices := iv_devices v @ [\<lparr>da_device = (if none_empty d = [] then unknown else none_empty d),
          da_count = int n, da_last_mk = Some mk\<rparr>]\<rparr>)"
    using mk by (simp add: dev_line_def parse_line_parts_def g some_text_def)
  moreover have "parse_lines unknown (map dev_line gs) w = Inr (w\<lparr>iv_devices := iv_devices w @ map (view_device unknown) gs\<rparr>)" for w
    by (rule Cons.IH) (use Cons.prems in auto)
  ultimately show ?case by simp
qed

text \<open>A row as it comes through the container: an empty optional field is none.\<close>

definition via_container :: "record_event \<Rightarrow> record_event" where
  "via_container r = r\<lparr>re_device_id := some_text (none_empty (re_device_id r)),
     re_last_error := some_text (flat_text (none_empty (re_last_error r))),
     re_sent_at_iso := some_text (none_empty (re_sent_at_iso r)),
     re_mk_date_committed := some_text (none_empty (re_mk_date_committed r))\<rparr>"

lemma parse_row_lines:
  "parse_lines unknown (map row_line rs) v = Inr (v\<lparr>iv_rows := iv_rows v @ map (view_row \<circ> via_container) rs\<rparr>)"
proof (induction rs arbitrary: v)
  case Nil
  then show ?case by simp
next
  case (Cons r rs)
  then show ?case by (simp add: row_line_def parse_line_parts_def view_row_def via_container_def)
qed

text \<open>Texts that fit in a field of a line.\<close>

definition field_ok :: "string \<Rightarrow> bool" where
  "field_ok s = (\<forall>c \<in> set s. \<not> is_newline c \<and> c \<noteq> TAB)"

definition row_ok :: "record_event \<Rightarrow> bool" where
  "row_ok r = (re_mk_date r \<noteq> [] \<and> list_all field_ok [re_event_id r, none_empty (re_device_id r), re_mk_date r, re_received_at_iso r,
     flat_text (none_empty (re_last_error r)), none_empty (re_sent_at_iso r), re_sta_no1 r, re_sta_no2 r, re_sta_no3 r,
     none_empty (re_mk_date_committed r)])"

lemma field_ok_int [simp]: "field_ok (int_text i)"
  using nat_text_digits by (fastforce simp: field_ok_def int_text_def is_digit_def digit_val_def is_newline_def TAB_def Let_def
      split: if_splits)

lemma field_ok_words [simp]: "field_ok ''CNT''" "field_ok ''DEV''" "field_ok ''ROW''" "field_ok []" "field_ok (status_text st)"
  "field_ok ''received''" "field_ok ''sent''" "field_ok ''failed''"
  by (simp_all add: field_ok_def is_newline_def TAB_def) (cases st; simp add: is_newline_def)

lemma tabbed_read:
  assumes "list_all field_ok parts" and "parts \<noteq> []"
  shows "split_on TAB (tabbed parts) = parts" and "\<forall>c \<in> set (tabbed parts). \<not> is_newline c"
proof -
  show "split_on TAB (tabbed parts) = parts"
    unfolding tabbed_def by (rule split_join) (use assms in \<open>auto simp: list_all_iff field_ok_def\<close>)
  have "set (join_with [TAB] ps) \<subseteq> insert TAB (\<Union> (set ` set ps))" for ps
    by (induction "[TAB]" ps rule: join_with.induct) auto
  moreover have "\<not> is_newline TAB" by (simp add: is_newline_def TAB_def)
  ultimately show "\<forall>c \<in> set (tabbed parts). \<not> is_newline c"
    using assms(1) unfolding tabbed_def list_all_iff field_ok_def by fastforce
qed

lemma max_text_mem:
  assumes "xs \<noteq> []" and "\<forall>x \<in> set xs. x \<noteq> []"
  shows "max_text xs \<in> set xs"
proof -
  have mem: "fold max xs a \<in> insert a (set xs)" for a :: string
    by (induction xs arbitrary: a) (fastforce simp: max_def)+
  have up: "a \<le> fold max xs a \<and> (\<forall>x \<in> set xs. x \<le> fold max xs a)" for a :: string
  proof (induction xs arbitrary: a)
    case (Cons x xs)
    from Cons [of "max x a"] show ?case by auto
  qed simp
  obtain x where x: "x \<in> set xs" using assms(1) by (cases xs) auto
  then have "fold max xs [] \<noteq> []" using up [of "[]"] assms(2) le_Nil by metis
  with mem [of "[]"] show ?thesis by (simp add: max_text_def)
qed

lemma device_key_row: "k \<in> set (device_keys t) \<Longrightarrow> \<exists>r \<in> set t. re_device_id r = k"
  by (force simp: device_keys_def split: if_splits option.splits)

lemma device_group_ok:
  assumes "\<And>r. r \<in> set t \<Longrightarrow> row_ok r" and "(d, n, mk) \<in> set (device_groups t)"
  shows "mk \<noteq> []" and "field_ok (none_empty d)" and "field_ok mk"
proof -
  let ?rs = "filter (\<lambda>r. re_device_id r = d) t"
  have d: "d \<in> set (device_keys t)" "mk = max_text (map re_mk_date ?rs)"
    using assms(2) by (auto simp: device_groups_def Let_def)
  from device_key_row [OF d(1)] obtain r where r: "r \<in> set t" "re_device_id r = d" by blast
  have ok: "re_mk_date q \<noteq> [] \<and> field_ok (re_mk_date q)" if "q \<in> set t" for q
    using assms(1) [OF that] by (simp add: row_ok_def)
  have "max_text (map re_mk_date ?rs) \<in> set (map re_mk_date ?rs)"
    by (rule max_text_mem) (use r ok in \<open>auto simp: filter_empty_conv\<close>)
  then obtain q where "q \<in> set t" "mk = re_mk_date q" using d(2) by auto
  with ok show "mk \<noteq> []" "field_ok mk" by auto
  show "field_ok (none_empty d)" using assms(1) [OF r(1)] r(2) by (simp add: row_ok_def)
qed

lemma newest_rows_subset: "set (newest_rows limit t) \<subseteq> set t"
  unfolding newest_rows_def order_by_desc_def using set_take_subset by fastforce

lemma status_groups_known: "fst ` set (status_groups t) \<subseteq> {''received'', ''sent'', ''failed''}"
  by (auto simp: status_groups_def)

lemma container_lines_ok:
  assumes "\<And>r. r \<in> set t \<Longrightarrow> row_ok r" and "l \<in> set (container_lines limit t)"
  shows "list_all field_ok l \<and> l \<noteq> []"
proof -
  have cnt: "list_all field_ok (cnt_line g)" if "g \<in> set (status_groups t)" for g
    using that by (auto simp: status_groups_def cnt_line_def split: if_splits)
  have dev: "list_all field_ok (dev_line g)" if "g \<in> set (device_groups t)" for g
  proof -
    obtain d n mk where g: "g = (d, n, mk)" by (cases g)
    with device_group_ok [OF assms(1), of t d n mk] that show ?thesis by (simp add: dev_line_def)
  qed
  have row: "list_all field_ok (row_line r)" if "r \<in> set (newest_rows limit t)" for r
    using assms(1) [of r] that newest_rows_subset by (auto simp: row_line_def row_ok_def)
  from assms(2) cnt dev row show ?thesis
    by (auto simp: container_lines_def cnt_line_def dev_line_def row_line_def split: prod.splits)
qed

section \<open>Properties\<close>

text \<open>The view read through the container is the view read directly, when no field holds a tab or a
  line end: the same counts, the same devices, and the same rows with empty optional fields as none.\<close>

theorem container_path_reads_same:
  assumes "\<And>r. r \<in> set t \<Longrightarrow> row_ok r"
  shows "parse_container_output unknown (container_output limit t)
    = Inr ((read_direct unknown limit t)\<lparr>iv_rows := map (view_row \<circ> via_container) (newest_rows limit t)\<rparr>)"
proof -
  let ?ls = "container_lines limit t"
  have ok: "list_all field_ok l" "l \<noteq> []" if "l \<in> set ?ls" for l
    using container_lines_ok [OF assms that] by auto
  have "splitlines (container_output limit t) = map tabbed ?ls"
    unfolding container_output_def LF_def by (rule splitlines_lines) (use tabbed_read(2) ok in fastforce)
  then have parts: "map (split_on TAB) (splitlines (container_output limit t)) = ?ls"
    using tabbed_read(1) ok by (simp add: map_idI)
  show ?thesis
    unfolding parse_container_output_def parts unfolding container_lines_def parse_lines_append
    using device_group_ok(1) [OF assms]
    by (simp add: parse_cnt_lines [OF status_groups_known] parse_dev_lines parse_row_lines)
      (simp add: read_direct_def make_view_def count_of_def)
qed

theorem container_path_reads_same_witness:
  "parse_container_output ''?'' (container_output 10 [example_old_row])
     = Inr ((read_direct ''?'' 10 [example_old_row])\<lparr>iv_rows := map (view_row \<circ> via_container) (newest_rows 10 [example_old_row])\<rparr>)"
  by (rule container_path_reads_same)
    (simp add: row_ok_def example_old_row_def field_ok_def is_newline_def TAB_def none_empty_def flat_text_def)

end
