(* ===== verification/Fleet_Text.thy ===== *)
theory Fleet_Text
  imports Py_Value
begin

text \<open>
  The texts the fleet tools read and write: further operations of Python's \<open>str\<close>, the quoting of
  \<open>shlex.quote\<close> with the reading of a quoted command line by a shell, the inventory of children
  (\<open>fleet/children.conf\<close>, \<open>parse_children_conf\<close> and its copies, \<open>strip_inventory_entry\<close>) and the
  \<open>KEY=value\<close> files (\<open>_env_file_value\<close>).
\<close>

section \<open>Strings\<close>

abbreviation nl :: char where "nl \<equiv> CHR 0x0A"
abbreviation cr :: char where "cr \<equiv> CHR 0x0D"
abbreviation dq :: char where "dq \<equiv> CHR 0x22"
abbreviation sq :: char where "sq \<equiv> CHR 0x27"
abbreviation bsl :: char where "bsl \<equiv> CHR 0x5C"

text \<open>\<open>str.split()\<close>: the maximal runs without white space.\<close>

fun words_acc :: "string \<Rightarrow> string \<Rightarrow> string list" where
  "words_acc [] buf = (if buf = [] then [] else [rev buf])"
| "words_acc (c # cs) buf =
     (if is_space c then (if buf = [] then words_acc cs [] else rev buf # words_acc cs [])
      else words_acc cs (c # buf))"

definition words :: "string \<Rightarrow> string list" where
  "words s = words_acc s []"

text \<open>The text layer of \<open>read_text\<close> and of \<open>subprocess\<close> with \<open>text=True\<close>: CR LF and CR are read as LF.\<close>

fun universal_newlines :: "string \<Rightarrow> string" where
  "universal_newlines [] = []"
| "universal_newlines (c # cs) =
     (if c = cr then nl # (case cs of [] \<Rightarrow> [] | d # ds \<Rightarrow> if d = nl then universal_newlines ds else universal_newlines cs)
      else c # universal_newlines cs)"

text \<open>\<open>str.splitlines(keepends=True)\<close>.\<close>

fun keep_acc :: "string \<Rightarrow> string \<Rightarrow> string list" where
  "keep_acc [] buf = (if buf = [] then [] else [rev buf])"
| "keep_acc (c # cs) buf =
     (if is_newline c then
        (if c = cr then (case cs of [] \<Rightarrow> [rev (c # buf)]
           | d # ds \<Rightarrow> if d = nl then rev (d # c # buf) # keep_acc ds [] else rev (c # buf) # keep_acc cs [])
         else rev (c # buf) # keep_acc cs [])
      else keep_acc cs (c # buf))"

definition splitlines_keep :: "string \<Rightarrow> string list" where
  "splitlines_keep s = keep_acc s []"

text \<open>\<open>s.strip(chars)\<close> and \<open>s.lstrip(c)\<close> with a given set of characters.\<close>

definition strip_chars :: "char list \<Rightarrow> string \<Rightarrow> string" where
  "strip_chars cs s = rev (dropWhile (\<lambda>c. c \<in> set cs) (rev (dropWhile (\<lambda>c. c \<in> set cs) s)))"

text \<open>The quotes around a value: the same quote at both ends of a text of two characters or more.\<close>

definition unquote_pair :: "string \<Rightarrow> string" where
  "unquote_pair v =
    (if 2 \<le> length v \<and> hd v = last v \<and> (hd v = dq \<or> hd v = sq) then butlast (tl v) else v)"

definition between :: "nat \<Rightarrow> char \<Rightarrow> nat \<Rightarrow> bool" where
  "between a c b \<longleftrightarrow> a \<le> code c \<and> code c \<le> b"

definition is_lower_az :: "char \<Rightarrow> bool" where "is_lower_az c = between 97 c 122"
definition is_upper_az :: "char \<Rightarrow> bool" where "is_upper_az c = between 65 c 90"

text \<open>A regular expression that ends in \<open>$\<close> also matches before a final line feed.\<close>

definition dollar :: "(string \<Rightarrow> bool) \<Rightarrow> string \<Rightarrow> bool" where
  "dollar P s \<longleftrightarrow> P s \<or> (s \<noteq> [] \<and> last s = nl \<and> P (butlast s))"

section \<open>\<open>shlex.quote\<close> and what a shell reads\<close>

definition shell_safe :: "char \<Rightarrow> bool" where
  "shell_safe c \<longleftrightarrow> is_lower_az c \<or> is_upper_az c \<or> is_digit c \<or> c \<in> set ''_@%+=:,./-''"

definition shlex_quote :: "string \<Rightarrow> string" where
  "shlex_quote s =
    (if s = [] then [sq, sq]
     else if list_all shell_safe s then s
     else sq # concat (map (\<lambda>c. if c = sq then [sq, dq, sq, dq, sq] else [c]) s) @ [sq])"

text \<open>
  The words of a command line in the part of the POSIX shell language without expansions and
  operators: blanks separate, single quotes keep everything, double quotes everything but the
  characters that start an expansion. \<open>None\<close> stands for a line outside that part.
\<close>

datatype sh_mode = Sh_Bare | Sh_Single | Sh_Double

definition sh_special :: "char \<Rightarrow> bool" where
  "sh_special c \<longleftrightarrow> c \<in> {bsl, nl, CHR 0x09} \<or> c \<in> set '';|&$()`<>*?[]#~!{}''"

fun sh_split :: "sh_mode \<Rightarrow> string option \<Rightarrow> string \<Rightarrow> string list option" where
  "sh_split m w [] = (case m of Sh_Bare \<Rightarrow> Some (case w of None \<Rightarrow> [] | Some a \<Rightarrow> [rev a]) | _ \<Rightarrow> None)"
| "sh_split m w (c # cs) =
     (let a = (case w of None \<Rightarrow> [] | Some a \<Rightarrow> a) in
      case m of
        Sh_Bare \<Rightarrow>
          if c = CHR '' '' then
            (case w of None \<Rightarrow> sh_split Sh_Bare None cs
             | Some b \<Rightarrow> map_option (Cons (rev b)) (sh_split Sh_Bare None cs))
          else if c = sq then sh_split Sh_Single (Some a) cs
          else if c = dq then sh_split Sh_Double (Some a) cs
          else if sh_special c then None
          else sh_split Sh_Bare (Some (c # a)) cs
      | Sh_Single \<Rightarrow> if c = sq then sh_split Sh_Bare (Some a) cs else sh_split Sh_Single (Some (c # a)) cs
      | Sh_Double \<Rightarrow>
          if c = dq then sh_split Sh_Bare (Some a) cs
          else if c \<in> set ''$`'' \<or> c = bsl then None
          else sh_split Sh_Double (Some (c # a)) cs)"

definition sh_words :: "string \<Rightarrow> string list option" where
  "sh_words s = sh_split Sh_Bare None s"

lemma special_not_safe:
  "\<not> shell_safe (CHR '' '')" "\<not> shell_safe sq" "\<not> shell_safe dq" "\<not> shell_safe bsl" "\<not> shell_safe nl"
  "\<not> shell_safe (CHR 0x09)" "c \<in> set '';|&$()`<>*?[]#~!{}'' \<Longrightarrow> \<not> shell_safe c"
  by (auto simp: shell_safe_def is_lower_az_def is_upper_az_def between_def is_digit_def digit_val_def)

lemma shell_safe_bare:
  assumes "shell_safe c"
  shows "c \<noteq> CHR '' '' \<and> c \<noteq> sq \<and> c \<noteq> dq \<and> \<not> sh_special c"
  using assms special_not_safe unfolding sh_special_def by blast

lemma sh_split_safe:
  "list_all shell_safe s \<Longrightarrow> s \<noteq> [] \<Longrightarrow>
   sh_split Sh_Bare w (s @ r) = sh_split Sh_Bare (Some (rev s @ (case w of None \<Rightarrow> [] | Some a \<Rightarrow> a))) r"
proof (induction s arbitrary: w)
  case (Cons c s)
  have c: "c \<noteq> CHR '' '' \<and> c \<noteq> sq \<and> c \<noteq> dq \<and> \<not> sh_special c" using Cons.prems by (intro shell_safe_bare) simp
  show ?case
  proof (cases "s = []")
    case True
    with c show ?thesis by (simp add: Let_def)
  next
    case False
    with Cons c show ?thesis by (simp add: Let_def)
  qed
qed simp

lemma sh_split_single:
  "sh_split Sh_Single (Some a) (concat (map (\<lambda>c. if c = sq then [sq, dq, sq, dq, sq] else [c]) s) @ sq # r)
   = sh_split Sh_Bare (Some (rev s @ a)) r"
  by (induction s arbitrary: a) (simp_all add: Let_def)

text \<open>A shell reads a quoted text back as that text, in the middle of a word too.\<close>

lemma sh_split_quote:
  "sh_split Sh_Bare w (shlex_quote s @ r) = sh_split Sh_Bare (Some (rev s @ (case w of None \<Rightarrow> [] | Some a \<Rightarrow> a))) r"
proof -
  consider "s = []" | "s \<noteq> []" "list_all shell_safe s" | "s \<noteq> []" "\<not> list_all shell_safe s" by blast
  then show ?thesis
  proof cases
    case 1
    then show ?thesis by (simp add: shlex_quote_def Let_def)
  next
    case 2
    then show ?thesis using sh_split_safe [of s w r] by (simp add: shlex_quote_def)
  next
    case 3
    have e: "shlex_quote s = sq # concat (map (\<lambda>c. if c = sq then [sq, dq, sq, dq, sq] else [c]) s) @ [sq]"
      using 3 unfolding shlex_quote_def by simp
    show ?thesis unfolding e using sh_split_single [of "case w of None \<Rightarrow> [] | Some a \<Rightarrow> a" s r]
      by (simp add: Let_def)
  qed
qed

lemma sh_words_quote: "sh_words (shlex_quote s) = Some [s]"
  unfolding sh_words_def using sh_split_quote [of None s "[]"] by simp

section \<open>The inventory\<close>

text \<open>\<open>line.split("#", 1)[0].strip()\<close>: the entry a line of the inventory holds, empty for none.\<close>

definition conf_line :: "string \<Rightarrow> string" where
  "conf_line l = strip (fst (partition_on CHR ''#'' l))"

definition parse_children_conf :: "string \<Rightarrow> string list" where
  "parse_children_conf t = filter (\<lambda>s. s \<noteq> []) (map conf_line (splitlines t))"

definition chomp :: "string \<Rightarrow> string" where
  "chomp l = (if l \<noteq> [] \<and> last l = nl then butlast l else l)"

definition strip_inventory_entry :: "string \<Rightarrow> string \<Rightarrow> string" where
  "strip_inventory_entry t entry =
    concat (filter (\<lambda>l. conf_line (chomp l) \<noteq> entry) (splitlines_keep t))"

definition dot_local :: string where "dot_local = ''.local''"

definition inventory_name :: "string \<Rightarrow> string" where
  "inventory_name entry = (let e = strip entry in if ends_with dot_local e then e else e @ dot_local)"

text \<open>
  \<open>_env_file_value\<close>: the first line that starts with \<open>KEY=\<close>, its value stripped and without a pair of
  quotes; a \<open>#\<close> is part of the value. The file is its text, or missing.
\<close>

fun first_with_prefix :: "string \<Rightarrow> string list \<Rightarrow> string option" where
  "first_with_prefix p [] = None"
| "first_with_prefix p (l # ls) = (if starts_with p l then Some (drop (length p) l) else first_with_prefix p ls)"

definition env_file_value :: "string option \<Rightarrow> string \<Rightarrow> string" where
  "env_file_value f key =
    (case f of None \<Rightarrow> []
     | Some t \<Rightarrow> (case first_with_prefix (key @ ''='') (splitlines t) of
           None \<Rightarrow> [] | Some v \<Rightarrow> unquote_pair (strip v)))"

subsection \<open>Lines and their entries\<close>

lemma is_newline_space: "is_newline c \<Longrightarrow> is_space c"
  by (auto simp: is_newline_def is_space_def Let_def)

lemma is_newline_not_hash: "is_newline c \<Longrightarrow> c \<noteq> CHR ''#''"
  by (auto simp: is_newline_def Let_def)

lemma rstrip_snoc_space: "is_space c \<Longrightarrow> rstrip (s @ [c]) = rstrip s"
  by (simp add: rstrip_def)

lemma strip_snoc_space: "is_space c \<Longrightarrow> strip (s @ [c]) = strip s"
proof (cases "\<forall>d \<in> set s. is_space d")
  case True
  assume c: "is_space c"
  have "lstrip s = []" "lstrip (s @ [c]) = []" unfolding lstrip_def dropWhile_eq_Nil_conv using True c by auto
  then show ?thesis by (simp only: strip_def)
next
  case False
  assume c: "is_space c"
  from False have "lstrip (s @ [c]) = lstrip s @ [c]" unfolding lstrip_def by (simp add: dropWhile_append)
  then show ?thesis using rstrip_snoc_space [OF c] by (simp add: strip_def)
qed

lemma fst_partition_append_space:
  "c \<noteq> sep \<Longrightarrow> fst (partition_on sep (s @ [c])) = (if sep \<in> set s then fst (partition_on sep s) else s @ [c])"
  by (induction s) (auto split: prod.split)

lemma fst_partition_no: "sep \<notin> set s \<Longrightarrow> fst (partition_on sep s) = s"
  by (induction s) (auto split: prod.split)

lemma conf_line_snoc: "is_newline c \<Longrightarrow> conf_line (l @ [c]) = conf_line l"
  unfolding conf_line_def
  using is_newline_not_hash [of c] is_newline_space [of c]
  by (simp add: fst_partition_append_space strip_snoc_space fst_partition_no)

lemma is_newline_nl [simp]: "is_newline nl" by (simp add: is_newline_def)
lemma is_newline_cr [simp]: "is_newline cr" by (simp add: is_newline_def)

lemma conf_line_chomp: "conf_line (chomp l) = conf_line l"
proof (cases "l \<noteq> [] \<and> last l = nl")
  case True
  then have "l = butlast l @ [nl]" by (metis append_butlast_last_id)
  then have "conf_line l = conf_line (butlast l)" using conf_line_snoc [OF is_newline_nl] by metis
  with True show ?thesis by (simp add: chomp_def)
next
  case False
  then show ?thesis unfolding chomp_def by metis
qed

text \<open>A line with its end as \<open>splitlines(keepends=True)\<close> makes it, all but possibly the last.\<close>

definition kept_line :: "string \<Rightarrow> bool" where
  "kept_line l \<longleftrightarrow> (\<exists>b e. l = b @ e \<and> (\<forall>c \<in> set b. \<not> is_newline c) \<and> (e = [cr, nl] \<or> (\<exists>c. e = [c] \<and> is_newline c)))"

definition entries_of :: "string \<Rightarrow> string list" where
  "entries_of l = (let e = conf_line l in if e = [] then [] else [e])"

lemma keep_acc_lines:
  assumes "\<forall>c \<in> set buf. \<not> is_newline c"
  shows "\<exists>ls r. keep_acc s buf = ls @ r \<and> (\<forall>l \<in> set ls. kept_line l)
    \<and> (r = [] \<or> (\<exists>b. r = [b] \<and> b \<noteq> [] \<and> (\<forall>c \<in> set b. \<not> is_newline c)))
    \<and> concat (ls @ r) = rev buf @ s"
  using assms
proof (induction s buf rule: keep_acc.induct)
  case (1 buf)
  have "keep_acc [] buf = [] @ (if buf = [] then [] else [rev buf])" by simp
  moreover have "\<forall>c \<in> set (rev buf). \<not> is_newline c" using 1 by simp
  ultimately show ?case by (intro exI [of _ "[]"] exI [of _ "if buf = [] then [] else [rev buf]"]) simp
next
  case (2 c cs buf)
  have b: "\<forall>c \<in> set (rev buf). \<not> is_newline c" using 2 by simp
  consider (plain) "\<not> is_newline c"
    | (crlf) ds where "c = cr" "cs = nl # ds"
    | (crend) "c = cr" "cs = []"
    | (crother) d ds where "c = cr" "cs = d # ds" "d \<noteq> nl"
    | (other) "is_newline c" "c \<noteq> cr"
    by (metis neq_Nil_conv)
  then show ?case
  proof cases
    case plain
    with 2 show ?thesis by simp
  next
    case crlf
    have k: "kept_line (rev buf @ [cr, nl])" unfolding kept_line_def using b by blast
    from crlf "2.IH"(1) obtain ls r where
      "keep_acc ds [] = ls @ r" "\<forall>l \<in> set ls. kept_line l"
      "r = [] \<or> (\<exists>b. r = [b] \<and> b \<noteq> [] \<and> (\<forall>c \<in> set b. \<not> is_newline c))" "concat (ls @ r) = ds" by auto
    then show ?thesis using crlf k
      by (intro exI [of _ "(rev buf @ [cr, nl]) # ls"] exI [of _ r]) simp
  next
    case crend
    have k: "kept_line (rev buf @ [cr])" unfolding kept_line_def using b is_newline_cr by blast
    then show ?thesis using crend by (intro exI [of _ "[rev buf @ [cr]]"] exI [of _ "[]"]) simp
  next
    case crother
    have k: "kept_line (rev buf @ [cr])" unfolding kept_line_def using b is_newline_cr by blast
    from crother "2.IH"(2) obtain ls r where
      "keep_acc cs [] = ls @ r" "\<forall>l \<in> set ls. kept_line l"
      "r = [] \<or> (\<exists>b. r = [b] \<and> b \<noteq> [] \<and> (\<forall>c \<in> set b. \<not> is_newline c))" "concat (ls @ r) = cs" by auto
    then show ?thesis using crother k
      by (intro exI [of _ "(rev buf @ [cr]) # ls"] exI [of _ r]) simp
  next
    case other
    have k: "kept_line (rev buf @ [c])" unfolding kept_line_def using b other by blast
    from other "2.IH"(3) obtain ls r where
      "keep_acc cs [] = ls @ r" "\<forall>l \<in> set ls. kept_line l"
      "r = [] \<or> (\<exists>b. r = [b] \<and> b \<noteq> [] \<and> (\<forall>c \<in> set b. \<not> is_newline c))" "concat (ls @ r) = cs" by auto
    then show ?thesis using other k
      by (intro exI [of _ "(rev buf @ [c]) # ls"] exI [of _ r]) simp
  qed
qed


text \<open>Every complete line gives its entry, whatever follows it.\<close>

lemma splitlines_acc_body:
  "\<forall>c \<in> set b. \<not> is_newline c \<Longrightarrow> splitlines_acc (b @ s) buf = splitlines_acc s (rev b @ buf)"
  by (induction b arbitrary: buf) simp_all

lemma splitlines_plain:
  "\<forall>c \<in> set b. \<not> is_newline c \<Longrightarrow> splitlines b = (if b = [] then [] else [b])"
  using splitlines_acc_body [of b "[]" "[]"] by (simp add: splitlines_def)

lemma splitlines_line_end:
  assumes "\<forall>d \<in> set b. \<not> is_newline d" and "is_newline c"
  shows "splitlines (b @ c # s) = b # splitlines (drop_lf c s)"
  using assms splitlines_acc_body [of b "c # s" "[]"] by (simp add: splitlines_def)

lemma parse_conf_plain:
  "\<forall>c \<in> set b. \<not> is_newline c \<Longrightarrow> parse_children_conf b = entries_of b"
  by (cases "b = []") (simp_all add: parse_children_conf_def splitlines_plain entries_of_def Let_def conf_line_def
      strip_def lstrip_def rstrip_def)

lemma conf_line_Nil [simp]: "conf_line [] = []"
  by (simp add: conf_line_def strip_def lstrip_def rstrip_def)

lemma parse_conf_Nil [simp]: "parse_children_conf [] = []"
  by (simp add: parse_children_conf_def splitlines_def)

lemma entries_of_Nil [simp]: "entries_of [] = []"
  by (simp add: entries_of_def)

lemma parse_conf_drop_lf: "parse_children_conf (drop_lf c s) = parse_children_conf s"
proof (cases "c = cr \<and> s \<noteq> [] \<and> hd s = nl")
  case True
  then obtain r where "s = nl # r" by (cases s) auto
  then show ?thesis using True splitlines_line_end [of "[]" nl r]
    by (simp add: parse_children_conf_def drop_lf_def)
next
  case False
  then have "drop_lf c s = s"
    by (cases s) (auto simp: drop_lf_def of_char_eq_iff [of _ cr, simplified] of_char_eq_iff [of _ nl, simplified])
  then show ?thesis by simp
qed

lemma parse_conf_line:
  assumes "\<forall>d \<in> set b. \<not> is_newline d" and "is_newline c"
  shows "parse_children_conf (b @ c # s) = entries_of b @ parse_children_conf s"
proof -
  have "parse_children_conf (b @ c # s) = entries_of b @ parse_children_conf (drop_lf c s)"
    using splitlines_line_end [OF assms, of s] by (simp add: parse_children_conf_def entries_of_def Let_def)
  then show ?thesis by (simp add: parse_conf_drop_lf)
qed

lemma parse_conf_kept:
  assumes "kept_line l"
  shows "parse_children_conf (l @ s) = entries_of l @ parse_children_conf s"
proof -
  from assms obtain b e where l: "l = b @ e" and b: "\<forall>c \<in> set b. \<not> is_newline c"
    and e: "e = [cr, nl] \<or> (\<exists>c. e = [c] \<and> is_newline c)" unfolding kept_line_def by blast
  from e show ?thesis
  proof
    assume e: "e = [cr, nl]"
    have "conf_line (b @ [cr, nl]) = conf_line b"
      using conf_line_snoc [OF is_newline_nl, of "b @ [cr]"] conf_line_snoc [OF is_newline_cr, of b] by simp
    then show ?thesis using l e parse_conf_line [OF b is_newline_cr, of "nl # s"] parse_conf_line [of "[]" nl s]
      by (simp add: entries_of_def Let_def)
  next
    assume "\<exists>c. e = [c] \<and> is_newline c"
    then obtain c where e: "e = [c]" and c: "is_newline c" by blast
    then show ?thesis using l parse_conf_line [OF b c, of s] conf_line_snoc [OF c, of b]
      by (simp add: entries_of_def Let_def)
  qed
qed

lemma parse_conf_lines:
  "\<forall>l \<in> set ls. kept_line l \<Longrightarrow>
   parse_children_conf (concat ls @ s) = concat (map entries_of ls) @ parse_children_conf s"
  by (induction ls) (simp_all add: parse_conf_kept)

lemma concat_entries_filter:
  "concat (map entries_of (filter (\<lambda>l. conf_line (chomp l) \<noteq> entry) ls))
   = filter (\<lambda>s. s \<noteq> entry) (concat (map entries_of ls))"
  by (induction ls) (auto simp: conf_line_chomp entries_of_def Let_def)

text \<open>Taking an entry out of the text takes it out of the parsed list, and nothing else.\<close>

lemma parse_strip_entry:
  "parse_children_conf (strip_inventory_entry t entry) = filter (\<lambda>s. s \<noteq> entry) (parse_children_conf t)"
proof -
  obtain ls r where k: "splitlines_keep t = ls @ r" "\<forall>l \<in> set ls. kept_line l"
    and r: "r = [] \<or> (\<exists>b. r = [b] \<and> b \<noteq> [] \<and> (\<forall>c \<in> set b. \<not> is_newline c))" and t: "concat (ls @ r) = t"
    using keep_acc_lines [of "[]" t] by (auto simp: splitlines_keep_def)
  define keep where "keep = filter (\<lambda>l. conf_line (chomp l) \<noteq> entry)"
  have last_line: "parse_children_conf (concat r) = concat (map entries_of r)"
       "parse_children_conf (concat (keep r)) = concat (map entries_of (keep r))"
    using r by (auto simp: keep_def parse_conf_plain entries_of_Nil)
  have "parse_children_conf (strip_inventory_entry t entry) = parse_children_conf (concat (keep ls) @ concat (keep r))"
    by (simp add: strip_inventory_entry_def k keep_def)
  also have "\<dots> = concat (map entries_of (keep ls)) @ concat (map entries_of (keep r))"
    using k parse_conf_lines [of "keep ls"] last_line by (simp add: keep_def)
  also have "\<dots> = filter (\<lambda>s. s \<noteq> entry) (concat (map entries_of ls) @ concat (map entries_of r))"
    by (simp add: keep_def concat_entries_filter)
  also have "concat (map entries_of ls) @ concat (map entries_of r) = parse_children_conf t"
    using parse_conf_lines [OF k(2), of "concat r"] last_line t by simp
  finally show ?thesis .
qed


text \<open>A line feed separates the entries before it from those after it.\<close>

lemma parse_conf_nl_append: "parse_children_conf (t @ nl # s) = parse_children_conf t @ parse_children_conf s"
proof -
  obtain ls r where k: "\<forall>l \<in> set ls. kept_line l"
    and r: "r = [] \<or> (\<exists>b. r = [b] \<and> b \<noteq> [] \<and> (\<forall>c \<in> set b. \<not> is_newline c))" and t: "concat ls @ concat r = t"
    using keep_acc_lines [of "[]" t] by auto
  have "\<forall>c \<in> set (concat r). \<not> is_newline c" using r by auto
  then have "parse_children_conf (concat r @ nl # s) = parse_children_conf (concat r) @ parse_children_conf s"
    by (simp add: parse_conf_line parse_conf_plain)
  then show ?thesis
    using parse_conf_lines [OF k, of "concat r @ nl # s"] parse_conf_lines [OF k, of "concat r"] t by force
qed

lemma parse_conf_entry:
  assumes "e \<noteq> []" "strip e = e" "\<forall>c \<in> set e. \<not> is_newline c \<and> c \<noteq> CHR ''#''"
  shows "parse_children_conf (e @ [nl]) = [e]"
proof -
  have "CHR ''#'' \<notin> set e" using assms(3) by blast
  then have "conf_line e = e" using fst_partition_no [of "CHR ''#''" e] assms(2) by (simp add: conf_line_def)
  then have "entries_of e = [e]" using assms(1) by (simp add: entries_of_def)
  moreover have "parse_children_conf e = entries_of e" using assms(3) by (intro parse_conf_plain) blast
  ultimately show ?thesis using parse_conf_nl_append [of e "[]"] by simp
qed

end
