(* ===== verification/Fleet_Hostname.thy ===== *)
theory Fleet_Hostname
  imports Fleet_Text
begin

text \<open>
  \<open>fleet_ui/hostname.py\<close>: the check of a new child's host name against the children already there,
  and the name that is proposed for the next child of a hub. A host name decides the MQTT client id,
  so two children of one name disconnect each other for ever.
\<close>

text \<open>The texts of \<open>validate_hostname\<close>, one constructor per return.\<close>

datatype host_error = HostEmpty | HostTooLong | HostChars | HostTaken string

definition FALLBACK_HUB :: string where "FALLBACK_HUB = ''child''"

text \<open>\<open>^[a-z0-9]([a-z0-9-]*[a-z0-9])?\Z\<close>, the pattern of \<open>_VALID_RE\<close> and of \<open>_SAFE_HOSTNAME_RE\<close>.\<close>

definition label_end :: "char \<Rightarrow> bool" where
  "label_end c \<longleftrightarrow> is_lower_az c \<or> is_digit c"

definition label_char :: "char \<Rightarrow> bool" where
  "label_char c \<longleftrightarrow> label_end c \<or> c = CHR ''-''"

definition valid_label :: "string \<Rightarrow> bool" where
  "valid_label s = (case s of [] \<Rightarrow> False
     | c # cs \<Rightarrow> label_end c \<and> (cs = [] \<or> list_all label_char (butlast cs) \<and> label_end (last cs)))"

definition short :: "string \<Rightarrow> string" where
  "short name = (if ends_with dot_local name then take (length name - length dot_local) name else name)"

definition validate_hostname :: "string \<Rightarrow> string list \<Rightarrow> host_error option" where
  "validate_hostname name existing =
    (if name = [] then Some HostEmpty
     else if 63 < length name then Some HostTooLong
     else if \<not> valid_label name then Some HostChars
     else if name \<in> set (map short existing) then Some (HostTaken name)
     else None)"

text \<open>\<open>site.env\<close> is its text, or missing. The first \<open>HUB_HOSTNAME=\<close> line counts.\<close>

definition HUB_KEY :: string where "HUB_KEY = ''HUB_HOSTNAME=''"

definition read_hub_hostname :: "string option \<Rightarrow> string" where
  "read_hub_hostname f =
    (case f of None \<Rightarrow> []
     | Some t \<Rightarrow> (case first_with_prefix HUB_KEY (map conf_line (splitlines t)) of
           None \<Rightarrow> [] | Some v \<Rightarrow> strip_chars [dq, sq] (strip v)))"

section \<open>The proposed name\<close>

text \<open>\<open>f"{n:03d}"\<close>.\<close>

definition fmt03 :: "nat \<Rightarrow> string" where
  "fmt03 n = (if n < 1000 then pad 3 n else nat_text n)"

definition hub_numbered :: "string \<Rightarrow> string \<Rightarrow> string" where
  "hub_numbered hub d = hub @ CHR ''-'' # d"

definition hub_label :: "string \<Rightarrow> string" where
  "hub_label hub = (let h = short (lower (strip hub)) in if h = [] \<or> \<not> valid_label h then FALLBACK_HUB else h)"

text \<open>The loop \<open>while n <= 9999\<close>; the fallback of the last line is not compared with the names.\<close>

function suggest_from :: "string \<Rightarrow> string list \<Rightarrow> nat \<Rightarrow> string" where
  "suggest_from hub names n =
    (if n \<le> 9999 then
       (let cand = hub_numbered hub (fmt03 n);
            taken = cand \<in> set names \<or> hub_numbered hub (nat_text n) \<in> set names in
        if \<not> taken \<and> length cand \<le> 63 then cand else suggest_from hub names (n + 1))
     else hub_numbered FALLBACK_HUB ''001'')"
  by pat_completeness auto

termination by (relation "measure (\<lambda>(_, _, n). 10000 - n)") auto

declare suggest_from.simps [simp del]

definition suggest_hostname :: "string list \<Rightarrow> string \<Rightarrow> string" where
  "suggest_hostname existing hub =
    (let h = hub_label hub;
         present = filter (\<lambda>e. e \<noteq> []) existing in
     suggest_from h (h # map short present) (length present + 1))"

section \<open>Facts\<close>

lemma label_char_not_space: "label_char c \<Longrightarrow> \<not> is_space c"
  by (auto simp: label_char_def label_end_def is_lower_az_def between_def is_digit_def digit_val_def is_space_def
      Let_def split: if_splits)

lemma label_char_not_newline: "label_char c \<Longrightarrow> \<not> is_newline c"
  using label_char_not_space is_newline_space by blast

lemma label_end_char: "label_end c \<Longrightarrow> label_char c"
  by (simp add: label_char_def)

lemma is_digit_label: "is_digit c \<Longrightarrow> label_end c"
  by (simp add: label_end_def)

lemma valid_label_chars: "valid_label s \<Longrightarrow> c \<in> set s \<Longrightarrow> label_char c"
proof (cases s)
  case (Cons d ds)
  assume v: "valid_label s" and c: "c \<in> set s"
  show ?thesis
  proof (cases "ds = []")
    case True
    with v c Cons show ?thesis by (simp add: valid_label_def label_end_char)
  next
    case False
    then have "set ds = insert (last ds) (set (butlast ds))"
      by (metis append_butlast_last_id list.set(1) list.simps(15) set_append sup_commute insert_is_Un)
    with v c Cons False show ?thesis by (auto simp: valid_label_def label_end_char list_all_iff)
  qed
qed (simp add: valid_label_def)

lemma valid_label_numbered:
  assumes h: "valid_label h" and d: "d \<noteq> []" "\<forall>c \<in> set d. is_digit c"
  shows "valid_label (hub_numbered h d)"
proof -
  obtain c cs where hc: "h = c # cs" using h by (cases h) (simp_all add: valid_label_def)
  have e: "label_end c" using h hc by (simp add: valid_label_def)
  have cs: "\<forall>x \<in> set cs. label_char x" using valid_label_chars [OF h] hc by simp
  have "last (cs @ CHR ''-'' # d) = last d" using d(1) by simp
  then have l: "label_end (last (cs @ CHR ''-'' # d))" using d by (simp add: is_digit_label)
  have "set (butlast (cs @ CHR ''-'' # d)) \<subseteq> set cs \<union> {CHR ''-''} \<union> set d"
    by (auto simp: butlast_append dest!: in_set_butlastD)
  then have "list_all label_char (butlast (cs @ CHR ''-'' # d))"
    using cs d(2) unfolding list_all_iff by (auto simp: label_char_def label_end_def)
  with e l show ?thesis by (simp add: hub_numbered_def valid_label_def hc)
qed

lemma fmt03_digits: "fmt03 n \<noteq> []" "\<forall>c \<in> set (fmt03 n). is_digit c"
proof -
  have "length (pad 3 n) = 3" by simp
  then have "pad 3 n \<noteq> []" by (metis list.size(3) zero_neq_numeral)
  then show "fmt03 n \<noteq> []" by (simp add: fmt03_def)
  show "\<forall>c \<in> set (fmt03 n). is_digit c" using pad_digits [of 3 n] nat_text_digits [of n] by (simp add: fmt03_def)
qed

lemma valid_hub_label: "valid_label (hub_label hub)"
  by (auto simp: hub_label_def Let_def FALLBACK_HUB_def valid_label_def label_end_def label_char_def is_lower_az_def
      between_def)

text \<open>The loop returns the first free number from \<open>n\<close>, or the fallback when there is none.\<close>

definition slot_free :: "string \<Rightarrow> string list \<Rightarrow> nat \<Rightarrow> bool" where
  "slot_free hub names n \<longleftrightarrow> hub_numbered hub (fmt03 n) \<notin> set names \<and> hub_numbered hub (nat_text n) \<notin> set names
     \<and> length (hub_numbered hub (fmt03 n)) \<le> 63"

lemma suggest_from_step:
  "suggest_from hub names n =
    (if 9999 < n then hub_numbered FALLBACK_HUB ''001''
     else if slot_free hub names n then hub_numbered hub (fmt03 n) else suggest_from hub names (Suc n))"
  by (subst suggest_from.simps) (auto simp: slot_free_def Let_def)

lemma suggest_from_cases:
  "(\<exists>m. n \<le> m \<and> m \<le> 9999 \<and> suggest_from hub names n = hub_numbered hub (fmt03 m) \<and> slot_free hub names m
      \<and> (\<forall>k. n \<le> k \<longrightarrow> k < m \<longrightarrow> \<not> slot_free hub names k))
   \<or> suggest_from hub names n = hub_numbered FALLBACK_HUB ''001'' \<and> (\<forall>k. n \<le> k \<longrightarrow> k \<le> 9999 \<longrightarrow> \<not> slot_free hub names k)"
proof (induction "10000 - n" arbitrary: n)
  case 0
  then show ?case by (simp add: suggest_from_step [of hub names n])
next
  case (Suc d)
  have le: "\<not> 9999 < n" using Suc.hyps(2) by arith
  show ?case
  proof (cases "slot_free hub names n")
    case True
    then have "suggest_from hub names n = hub_numbered hub (fmt03 n)" using le
      by (simp add: suggest_from_step [of hub names n])
    with True le show ?thesis by (intro disjI1 exI [of _ n]) simp
  next
    case False
    then have step: "suggest_from hub names n = suggest_from hub names (Suc n)" using le
      by (simp add: suggest_from_step [of hub names n])
    have d: "d = 10000 - Suc n" using Suc.hyps(2) by simp
    from Suc.hyps(1) [OF d] show ?thesis
    proof (elim disjE exE conjE)
      fix m
      assume m: "Suc n \<le> m" "m \<le> 9999" "suggest_from hub names (Suc n) = hub_numbered hub (fmt03 m)"
        "slot_free hub names m" "\<forall>k. Suc n \<le> k \<longrightarrow> k < m \<longrightarrow> \<not> slot_free hub names k"
      have "\<not> slot_free hub names k" if "n \<le> k" "k < m" for k
        using m(5) False that by (cases "k = n") simp_all
      with m step show ?thesis by (intro disjI1 exI [of _ m]) simp
    next
      assume n: "suggest_from hub names (Suc n) = hub_numbered FALLBACK_HUB ''001''"
        "\<forall>k. Suc n \<le> k \<longrightarrow> k \<le> 9999 \<longrightarrow> \<not> slot_free hub names k"
      have "\<not> slot_free hub names k" if "n \<le> k" "k \<le> 9999" for k
        using n(2) False that by (cases "k = n") simp_all
      with n step show ?thesis by (intro disjI2) simp
    qed
  qed
qed

text \<open>The name proposed for the next child passes \<open>validate_hostname\<close> against the inventory it was made from,
  when some number above the size of the inventory and up to 9999 is free and short enough; when none is, it is
  the fixed fallback.
\<close>

theorem suggested_name_is_accepted:
  "if \<exists>k. length (filter (\<lambda>e. e \<noteq> []) existing) < k \<and> k \<le> 9999
        \<and> slot_free (hub_label hub) (hub_label hub # map short (filter (\<lambda>e. e \<noteq> []) existing)) k
   then validate_hostname (suggest_hostname existing hub) existing = None
   else suggest_hostname existing hub = ''child-001''"
proof -
  let ?h = "hub_label hub"
  let ?p = "filter (\<lambda>e. e \<noteq> []) existing"
  let ?names = "?h # map short ?p"
  have s: "suggest_hostname existing hub = suggest_from ?h ?names (Suc (length ?p))"
    by (simp add: suggest_hostname_def Let_def)
  from suggest_from_cases [of "Suc (length ?p)" ?h ?names] show ?thesis
  proof (elim disjE exE conjE)
    fix m
    assume m: "suggest_from ?h ?names (Suc (length ?p)) = hub_numbered ?h (fmt03 m)" and f: "slot_free ?h ?names m"
      and b: "Suc (length ?p) \<le> m" "m \<le> 9999"
    let ?c = "hub_numbered ?h (fmt03 m)"
    have "valid_label ?c" by (rule valid_label_numbered [OF valid_hub_label fmt03_digits])
    moreover have "?c \<notin> set (map short existing)"
    proof
      assume "?c \<in> set (map short existing)"
      then obtain e where e: "e \<in> set existing" "?c = short e" by auto
      have "short [] = []" by code_simp
      then have "e \<noteq> []" using e(2) by (auto simp: hub_numbered_def)
      with e have "?c \<in> set ?names" by auto
      with f show False by (simp add: slot_free_def)
    qed
    moreover have "\<not> 63 < length ?c" using f by (simp add: slot_free_def)
    moreover have "?c \<noteq> []" by (simp add: hub_numbered_def)
    ultimately have "validate_hostname (suggest_hostname existing hub) existing = None"
      unfolding s m by (simp only: validate_hostname_def if_False simp_thms)
    moreover have "length ?p < m" using b(1) by simp
    ultimately show ?thesis using f b(2) by auto
  next
    assume "suggest_from ?h ?names (Suc (length ?p)) = hub_numbered FALLBACK_HUB ''001''"
      and n: "\<forall>k. Suc (length ?p) \<le> k \<longrightarrow> k \<le> 9999 \<longrightarrow> \<not> slot_free ?h ?names k"
    then show ?thesis unfolding s Suc_le_eq by (auto simp: hub_numbered_def FALLBACK_HUB_def)
  qed
qed

text \<open>
  The fallback can be a name that is already taken: with a hub name of sixty characters no number fits, and
  the second child is again proposed \<open>child-001\<close>.
\<close>

lemma fallback_can_be_taken:
  "validate_hostname (suggest_hostname [''child-001.local''] (replicate 60 CHR ''h'')) [''child-001.local'']
   = Some (HostTaken ''child-001'')"
proof -
  let ?h = "replicate 60 CHR ''h''"
  have h: "hub_label ?h = ?h" by code_simp
  have "3 \<le> length (fmt03 k)" for k
  proof (cases "k < 1000")
    case False
    then have "length (nat_text k) = Suc (length (nat_text (k div 10)))" by (subst nat_text.simps) simp
    moreover have "length (nat_text (k div 10)) = Suc (length (nat_text (k div 10 div 10)))"
      using False by (subst nat_text.simps) simp
    moreover have "Suc 0 \<le> length (nat_text (k div 10 div 10))" by (simp add: Suc_le_eq)
    ultimately show ?thesis using False by (simp add: fmt03_def)
  qed (simp add: fmt03_def)
  then have "\<not> length (hub_numbered ?h (fmt03 k)) \<le> 63" for k by (simp add: hub_numbered_def not_le Suc_le_lessD)
  then have "\<not> slot_free ?h names k" for names k by (simp only: slot_free_def simp_thms)
  then have "suggest_from ?h names n = hub_numbered FALLBACK_HUB ''001''" for names n
    using suggest_from_cases [of n ?h names] by blast
  then have "suggest_hostname [''child-001.local''] ?h = ''child-001''"
    by (simp only: suggest_hostname_def h Let_def) (simp add: hub_numbered_def FALLBACK_HUB_def)
  moreover have "validate_hostname ''child-001'' [''child-001.local''] = Some (HostTaken ''child-001'')" by code_simp
  ultimately show ?thesis by (simp only:)
qed

end
