(* ===== verification/Fleet_Shell.thy ===== *)
theory Fleet_Shell
  imports Fleet_Hostname
begin

text \<open>
  What the fleet tools act on: the commands they run, answered by the network, the files of the hub, and the
  time they sleep. \<open>run_cmd\<close> (\<open>discovery.py\<close>) and \<open>run_cmd_long\<close> (\<open>migrate.py\<close>) turn the outcome of a process
  into the text a caller sees; \<open>StepResult\<close> and \<open>_guarded\<close> (\<open>provision.py\<close>) fold failures into values.
\<close>

section \<open>Commands\<close>

text \<open>
  The argument vectors the code builds, one constructor per shape. \<open>Ssh t new host remote inp\<close> is
  \<open>ssh -o ConnectTimeout=t -o BatchMode=yes [-o StrictHostKeyChecking=accept-new] pi@host remote\<close>; the remote
  command is its text, or the script of \<open>align_remote_script gw\<close>, whose messages are in Japanese.
\<close>

datatype remote = Sh string | Align_script string

datatype fleet_call =
    Ssh nat bool string remote "string option"
  | Getent string
  | Ssh_config string
  | Keyscan string
  | Neigh_show string
  | Curl_status string

text \<open>What a process came to: it exited with a text on its standard output, could not be started, ran out of
  its time, or wrote bytes that are not UTF-8.\<close>

datatype proc = Exited int string | Not_started | Timed_out | Undecodable

type_synonym network = "fleet_call list \<Rightarrow> fleet_call \<Rightarrow> proc"
type_synonym runner = "fleet_call list \<Rightarrow> fleet_call \<Rightarrow> string py"

text \<open>
  An answer may depend on everything that was run before. The exit code is dropped by both functions, and
  \<open>UnicodeDecodeError\<close>, a \<open>ValueError\<close>, is the one error they let through.
\<close>

definition run_cmd :: "network \<Rightarrow> runner" where
  "run_cmd os h c = (case os h c of
      Exited rc out \<Rightarrow> Inr (universal_newlines out)
    | Not_started \<Rightarrow> Inr []
    | Timed_out \<Rightarrow> Inr []
    | Undecodable \<Rightarrow> Inl ValueError)"

definition run_cmd_long :: "network \<Rightarrow> runner" where
  "run_cmd_long os h c = (case os h c of
      Exited rc out \<Rightarrow> Inr (universal_newlines out)
    | Not_started \<Rightarrow> Inr []
    | Timed_out \<Rightarrow> Inr []
    | Undecodable \<Rightarrow> Inl ValueError)"

section \<open>The state and the actions\<close>

text \<open>
  The commands that were run, oldest first; the text of every file; the paths whose opening raises \<open>OSError\<close>;
  the seconds slept.
\<close>

record fleet_world =
  fw_calls :: "fleet_call list"
  fw_files :: "string \<Rightarrow> string option"
  fw_denied :: "string \<Rightarrow> bool"
  fw_slept :: nat

type_synonym 'a act = "fleet_world \<Rightarrow> 'a py \<times> fleet_world"

definition act_return :: "'a \<Rightarrow> 'a act" where
  "act_return x w = (Inr x, w)"

definition act_raise :: "py_exc \<Rightarrow> 'a act" where
  "act_raise e w = (Inl e, w)"

definition act_bind :: "'a act \<Rightarrow> ('a \<Rightarrow> 'b act) \<Rightarrow> 'b act" where
  "act_bind m f w = (case m w of (Inl e, v) \<Rightarrow> (Inl e, v) | (Inr x, v) \<Rightarrow> f x v)"

definition act_lift :: "'a py \<Rightarrow> 'a act" where
  "act_lift p w = (p, w)"

text \<open>\<open>try: m except Exception as e: h(e)\<close>.\<close>

definition act_catch :: "'a act \<Rightarrow> (py_exc \<Rightarrow> 'a act) \<Rightarrow> 'a act" where
  "act_catch m h w = (case m w of (Inl e, v) \<Rightarrow> h e v | (Inr x, v) \<Rightarrow> (Inr x, v))"

definition call :: "runner \<Rightarrow> fleet_call \<Rightarrow> string act" where
  "call r c w = (r (fw_calls w) c, w\<lparr>fw_calls := fw_calls w @ [c]\<rparr>)"

definition sleep :: "nat \<Rightarrow> unit act" where
  "sleep n w = (Inr (), w\<lparr>fw_slept := fw_slept w + n\<rparr>)"

text \<open>\<open>path.read_text(encoding="utf-8")\<close> of a file that is there, and \<open>None\<close> for one that is not.\<close>

definition read_file :: "string \<Rightarrow> string option act" where
  "read_file p w = (case fw_files w p of
      None \<Rightarrow> (Inr None, w)
    | Some t \<Rightarrow> if fw_denied w p then (Inl OSError, w) else (Inr (Some (universal_newlines t)), w))"

text \<open>Opening for appending and writing.\<close>

definition append_file :: "string \<Rightarrow> string \<Rightarrow> unit act" where
  "append_file p s w =
    (if fw_denied w p then (Inl OSError, w)
     else (Inr (), w\<lparr>fw_files := (fw_files w)(p \<mapsto> (case fw_files w p of None \<Rightarrow> [] | Some t \<Rightarrow> t) @ s)\<rparr>))"

fun act_map :: "('a \<Rightarrow> 'b act) \<Rightarrow> 'a list \<Rightarrow> 'b list act" where
  "act_map f [] = act_return []"
| "act_map f (x # xs) = act_bind (f x) (\<lambda>y. act_bind (act_map f xs) (\<lambda>ys. act_return (y # ys)))"

lemma act_simps [simp]:
  "act_bind (act_return x) f = f x"
  "act_bind (act_raise e) f = act_raise e"
  "act_bind (act_lift (Inr x)) f = f x"
  "act_bind (act_lift (Inl e)) f = act_raise e"
  "act_return x w = (Inr x, w)"
  "act_raise e w = (Inl e, w)"
  "act_lift p w = (p, w)"
  by (simp_all add: fun_eq_iff act_bind_def act_return_def act_raise_def act_lift_def)

lemma act_bind_InrE:
  assumes "act_bind m f w = (Inr y, v)"
  obtains x u where "m w = (Inr x, u)" and "f x u = (Inr y, v)"
  using assms by (auto simp: act_bind_def split: prod.splits sum.splits)

section \<open>What every action keeps\<close>

text \<open>
  Commands are only added at the end, never taken back. \<open>keeps\<close> collects the facts that an action changes no
  file but those of a set.
\<close>

named_theorems act_keeps \<open>which files an action changes\<close>

definition extends :: "fleet_world \<Rightarrow> fleet_world \<Rightarrow> bool" where
  "extends w v \<longleftrightarrow> (\<exists>cs. fw_calls v = fw_calls w @ cs) \<and> fw_denied v = fw_denied w"

definition keeps :: "string set \<Rightarrow> 'a act \<Rightarrow> bool" where
  "keeps P m \<longleftrightarrow> (\<forall>w. extends w (snd (m w)) \<and> (\<forall>p. p \<notin> P \<longrightarrow> fw_files (snd (m w)) p = fw_files w p))"

lemma extends_refl [simp]: "extends w w"
  by (simp add: extends_def)

lemma extends_trans: "extends u v \<Longrightarrow> extends v w \<Longrightarrow> extends u w"
  by (auto simp: extends_def)

lemma keepsD: "keeps P m \<Longrightarrow> m w = (x, v) \<Longrightarrow> p \<notin> P \<Longrightarrow> fw_files v p = fw_files w p"
  unfolding keeps_def by (metis snd_conv)

lemma keeps_extends: "keeps P m \<Longrightarrow> m w = (x, v) \<Longrightarrow> extends w v"
  unfolding keeps_def by (metis snd_conv)

lemma keeps_mono: "keeps P m \<Longrightarrow> P \<subseteq> Q \<Longrightarrow> keeps Q m"
  unfolding keeps_def by blast

lemma keeps_basic [act_keeps]:
  "keeps P (act_return x)" "keeps P (act_raise e)" "keeps P (act_lift p)" "keeps P (call r c)" "keeps P (sleep n)"
  "keeps P (read_file f)"
  by (auto simp: keeps_def call_def sleep_def read_file_def extends_def split: option.split)

lemma keeps_append [act_keeps]: "f \<in> P \<Longrightarrow> keeps P (append_file f s)"
  by (auto simp: keeps_def append_file_def extends_def)

lemma keeps_bind [act_keeps]:
  assumes "keeps P m" and "\<And>x. keeps P (f x)"
  shows "keeps P (act_bind m f)"
  unfolding keeps_def
proof
  fix w
  obtain r v where m: "m w = (r, v)" by (cases "m w")
  have v: "extends w v" "\<forall>p. p \<notin> P \<longrightarrow> fw_files v p = fw_files w p"
    using keeps_extends [OF assms(1) m] keepsD [OF assms(1) m] by simp_all
  show "extends w (snd (act_bind m f w)) \<and> (\<forall>p. p \<notin> P \<longrightarrow> fw_files (snd (act_bind m f w)) p = fw_files w p)"
  proof (cases r)
    case (Inl e)
    with v m show ?thesis by (simp add: act_bind_def)
  next
    case (Inr x)
    have "extends v (snd (f x v))" "\<forall>p. p \<notin> P \<longrightarrow> fw_files (snd (f x v)) p = fw_files v p"
      using assms(2) [of x] unfolding keeps_def by blast+
    with v m Inr show ?thesis by (auto simp: act_bind_def intro: extends_trans)
  qed
qed

lemma keeps_catch [act_keeps]:
  assumes "keeps P m" and "\<And>e. keeps P (h e)"
  shows "keeps P (act_catch m h)"
  unfolding keeps_def
proof
  fix w
  obtain r v where m: "m w = (r, v)" by (cases "m w")
  have v: "extends w v" "\<forall>p. p \<notin> P \<longrightarrow> fw_files v p = fw_files w p"
    using keeps_extends [OF assms(1) m] keepsD [OF assms(1) m] by simp_all
  show "extends w (snd (act_catch m h w)) \<and> (\<forall>p. p \<notin> P \<longrightarrow> fw_files (snd (act_catch m h w)) p = fw_files w p)"
  proof (cases r)
    case (Inr x)
    with v m show ?thesis by (simp add: act_catch_def)
  next
    case (Inl e)
    have "extends v (snd (h e v))" "\<forall>p. p \<notin> P \<longrightarrow> fw_files (snd (h e v)) p = fw_files v p"
      using assms(2) [of e] unfolding keeps_def by blast+
    with v m Inl show ?thesis by (auto simp: act_catch_def intro: extends_trans)
  qed
qed

lemma keeps_map [act_keeps]: "(\<And>x. keeps P (f x)) \<Longrightarrow> keeps P (act_map f xs)"
  by (induction xs) (auto intro!: act_keeps)

lemma keeps_if [act_keeps]: "keeps P m \<Longrightarrow> keeps P n \<Longrightarrow> keeps P (if b then m else n)"
  by simp

section \<open>Results of a step\<close>

text \<open>The problems \<open>align_send_target\<close> reports, in the order it finds them.\<close>

datatype align_problem =
    Align_error string
  | Not_read_back
  | Host_stays string string
  | Not_restarted string string
  | Env_unreadable string
  | Mqtt_host_left string
  | Mqtt_host_is string string
  | Not_active string

text \<open>The texts of \<open>validate_old_host\<close>.\<close>

datatype old_host_error = OldHostEmpty | OldHostChars | OldHostForm

text \<open>The messages of the steps, one constructor per text, with the values the text shows.\<close>

datatype fleet_msg =
    MsgFailed py_exc
  | MsgStopped
  | MsgBlanked
  | MsgBadHostname string
  | MsgRenamed string
  | MsgReturned string
  | MsgNotReturned nat string
  | MsgMdns nat
  | MsgHostKey string
  | MsgInventory
  | MsgNotAligned string string fleet_msg
  | MsgSiteEnv
  | MsgNoSsh
  | MsgHost host_error
  | MsgAdopted string
  | MsgBadIp
  | MsgBadMac
  | MsgRegistered string
  | MsgAlignHost string
  | MsgAlignProblems "align_problem list"
  | MsgAligned string
  | MsgOldHost old_host_error
  | MsgNoRemoteList "string option"
  | MsgCount nat
  | MsgBadEntry
  | MsgNoPubkey
  | MsgNoApJoin
  | MsgBadPsk
  | MsgBadSsid
  | MsgNoMac string
  | MsgNoKey string
  | MsgNotOnAp string string fleet_msg
  | MsgWrongSubnet string string string
  | MsgMovedNotAligned string string string fleet_msg
  | MsgMovedStale string
  | MsgMoved string
  | MsgAlreadyRegistered
  | MsgUnknownStep string
  | MsgBoth fleet_msg fleet_msg

text \<open>The output of a step is captured text, or one of the two notes of \<open>add_to_inventory\<close>.\<close>

datatype fleet_out = Out string | OutAlready | OutAdded string

definition out_text :: "fleet_out \<Rightarrow> string" where
  "out_text x = (case x of Out s \<Rightarrow> s | _ \<Rightarrow> [])"

record step_result =
  sr_ok :: bool
  sr_message :: fleet_msg
  sr_output :: fleet_out

definition step_ok :: "fleet_msg \<Rightarrow> fleet_out \<Rightarrow> step_result" where
  "step_ok m x = \<lparr>sr_ok = True, sr_message = m, sr_output = x\<rparr>"

definition step_fail :: "fleet_msg \<Rightarrow> fleet_out \<Rightarrow> step_result" where
  "step_fail m x = \<lparr>sr_ok = False, sr_message = m, sr_output = x\<rparr>"

lemma step_sels [simp]:
  "sr_ok (step_ok m x)" "\<not> sr_ok (step_fail m x)"
  "sr_message (step_ok m x) = m" "sr_message (step_fail m x) = m"
  "sr_output (step_ok m x) = x" "sr_output (step_fail m x) = x"
  by (simp_all add: step_ok_def step_fail_def)

definition guarded :: "fleet_out act \<Rightarrow> fleet_msg \<Rightarrow> step_result act" where
  "guarded fn ok_msg =
    act_catch (act_bind fn (\<lambda>out. act_return (step_ok ok_msg out)))
      (\<lambda>e. act_return (step_fail (MsgFailed e) (Out [])))"

text \<open>\<open>if not r.ok: return r\<close>, then the next step.\<close>

definition then_step :: "step_result act \<Rightarrow> (step_result \<Rightarrow> step_result act) \<Rightarrow> step_result act" where
  "then_step m f = act_bind m (\<lambda>r. if sr_ok r then f r else act_return r)"

lemma guarded_total: "\<exists>s v. guarded fn msg w = (Inr s, v)"
  by (auto simp: guarded_def act_catch_def act_bind_def split: prod.split sum.split)

lemma guarded_ok:
  assumes "guarded fn msg w = (Inr s, v)" and "sr_ok s"
  shows "sr_message s = msg" and "fn w = (Inr (sr_output s), v)"
  using assms by (auto simp: guarded_def act_catch_def act_bind_def split: prod.splits sum.splits)

lemma guarded_world: "fn w = (x, v) \<Longrightarrow> snd (guarded fn msg w) = v"
  by (auto simp: guarded_def act_catch_def act_bind_def split: prod.split sum.split)

lemma keeps_guarded [act_keeps]: "keeps P fn \<Longrightarrow> keeps P (guarded fn msg)"
  unfolding guarded_def by (intro act_keeps)

lemma keeps_then_step [act_keeps]: "keeps P m \<Longrightarrow> (\<And>r. keeps P (f r)) \<Longrightarrow> keeps P (then_step m f)"
  unfolding then_step_def by (intro act_keeps)

lemma then_step_okE:
  assumes "then_step m f w = (Inr s, v)" and "sr_ok s"
  obtains r u where "m w = (Inr r, u)" and "sr_ok r" and "f r u = (Inr s, v)"
  using assms by (auto simp: then_step_def act_bind_def split: prod.splits sum.splits if_splits)

lemma then_step_cases:
  assumes "then_step m f w = (x, v)"
  obtains (raised) e where "m w = (Inl e, v)" and "x = Inl e"
    | (failed) r where "m w = (Inr r, v)" and "\<not> sr_ok r" and "x = Inr r"
    | (went_on) r u where "m w = (Inr r, u)" and "sr_ok r" and "f r u = (x, v)"
  using assms by (auto simp: then_step_def act_bind_def split: prod.splits sum.splits if_splits)


section \<open>What holds after steps that went well\<close>

text \<open>\<open>on_ok P m Q\<close>: when \<open>m\<close> is run where \<open>P\<close> holds and returns a result that is ok, \<open>Q\<close> holds of it.\<close>

definition on_ok :: "(fleet_world \<Rightarrow> bool) \<Rightarrow> step_result act \<Rightarrow> (step_result \<Rightarrow> fleet_world \<Rightarrow> bool) \<Rightarrow> bool" where
  "on_ok P m Q \<longleftrightarrow> (\<forall>w s v. P w \<longrightarrow> m w = (Inr s, v) \<longrightarrow> sr_ok s \<longrightarrow> Q s v)"

lemma on_okI: "(\<And>w s v. P w \<Longrightarrow> m w = (Inr s, v) \<Longrightarrow> sr_ok s \<Longrightarrow> Q s v) \<Longrightarrow> on_ok P m Q"
  by (simp add: on_ok_def)

lemma on_okD: "on_ok P m Q \<Longrightarrow> P w \<Longrightarrow> m w = (Inr s, v) \<Longrightarrow> sr_ok s \<Longrightarrow> Q s v"
  by (simp add: on_ok_def)

lemma on_ok_then: "on_ok P m R \<Longrightarrow> (\<And>r. on_ok (R r) (f r) Q) \<Longrightarrow> on_ok P (then_step m f) Q"
  by (rule on_okI) (blast elim: then_step_okE dest: on_okD)

lemma on_ok_fail: "on_ok P (act_return (step_fail m x)) Q"
  by (auto simp: on_ok_def)

lemma on_ok_return: "(\<And>w. P w \<Longrightarrow> Q (step_ok m x) w) \<Longrightarrow> on_ok P (act_return (step_ok m x)) Q"
  by (auto simp: on_ok_def)

lemma on_ok_bind:
  "(\<And>w x v. P w \<Longrightarrow> m w = (Inr x, v) \<Longrightarrow> R x v) \<Longrightarrow> (\<And>x. on_ok (R x) (f x) Q) \<Longrightarrow> on_ok P (act_bind m f) Q"
  by (rule on_okI) (blast elim: act_bind_InrE dest: on_okD)

lemma on_ok_if: "(b \<Longrightarrow> on_ok P m Q) \<Longrightarrow> (\<not> b \<Longrightarrow> on_ok P n Q) \<Longrightarrow> on_ok P (if b then m else n) Q"
  by simp

lemma on_ok_pre: "on_ok P m Q \<Longrightarrow> (\<And>w. R w \<Longrightarrow> P w) \<Longrightarrow> on_ok R m Q"
  unfolding on_ok_def by blast

lemma on_ok_assm: "(\<And>w. P w \<Longrightarrow> on_ok (\<lambda>u. u = w) m Q) \<Longrightarrow> on_ok P m Q"
  by (simp add: on_ok_def)

text \<open>\<open>ran w cs P u\<close>: since \<open>w\<close> the commands \<open>cs\<close> were run, and only files of \<open>P\<close> changed.\<close>

definition ran :: "fleet_world \<Rightarrow> fleet_call list \<Rightarrow> string set \<Rightarrow> fleet_world \<Rightarrow> bool" where
  "ran w cs P u \<longleftrightarrow> fw_calls u = fw_calls w @ cs \<and> (\<forall>p. p \<notin> P \<longrightarrow> fw_files u p = fw_files w p)"

definition ran_more :: "fleet_world \<Rightarrow> fleet_call list \<Rightarrow> string set \<Rightarrow> fleet_world \<Rightarrow> bool" where
  "ran_more w cs P u \<longleftrightarrow> (\<exists>ds. ran w (cs @ ds) P u)"

lemma ran_refl [simp]: "ran w [] P w"
  by (simp add: ran_def)

lemma ran_moreI: "ran w cs P u \<Longrightarrow> ran_more w cs P u"
  unfolding ran_more_def by (metis append_Nil2)

lemma ran_more_keeps: "ran_more w cs P u \<Longrightarrow> keeps P m \<Longrightarrow> m u = (x, v) \<Longrightarrow> ran_more w cs P v"
proof -
  assume r: "ran_more w cs P u" and k: "keeps P m" and m: "m u = (x, v)"
  obtain es where "fw_calls v = fw_calls u @ es" using keeps_extends [OF k m] by (auto simp: extends_def)
  with r keepsD [OF k m] show ?thesis unfolding ran_more_def ran_def by fastforce
qed

lemma on_ok_ran_more: "keeps P m \<Longrightarrow> on_ok (ran_more w cs P) m (\<lambda>_. ran_more w cs P)"
  by (rule on_okI) (rule ran_more_keeps)

lemma keeps_call_ran: "ran w cs P u \<Longrightarrow> fw_calls v = fw_calls u @ [c] \<Longrightarrow> fw_files v = fw_files u \<Longrightarrow> ran w (cs @ [c]) P v"
  by (simp add: ran_def)


section \<open>Which commands an action may run\<close>

named_theorems act_issues \<open>which commands an action runs\<close>

definition issues :: "(fleet_call \<Rightarrow> bool) \<Rightarrow> 'a act \<Rightarrow> bool" where
  "issues C m \<longleftrightarrow> (\<forall>w. \<exists>cs. fw_calls (snd (m w)) = fw_calls w @ cs \<and> list_all C cs)"

lemma issuesD: "issues C m \<Longrightarrow> m w = (x, v) \<Longrightarrow> \<exists>cs. fw_calls v = fw_calls w @ cs \<and> list_all C cs"
  unfolding issues_def by (metis snd_conv)

lemma issues_basic [act_issues]:
  "issues C (act_return x)" "issues C (act_raise e)" "issues C (act_lift p)" "issues C (sleep n)" "issues C (read_file f)"
  "issues C (append_file f s)"
  by (auto simp: issues_def sleep_def read_file_def append_file_def split: option.split)

lemma issues_call [act_issues]: "C c \<Longrightarrow> issues C (call r c)"
  by (simp add: issues_def call_def)

lemma issues_bind [act_issues]:
  assumes "issues C m" and "\<And>x. issues C (f x)"
  shows "issues C (act_bind m f)"
  unfolding issues_def
proof
  fix w
  obtain r v where m: "m w = (r, v)" by (cases "m w")
  obtain cs where cs: "fw_calls v = fw_calls w @ cs" "list_all C cs" using issuesD [OF assms(1) m] by blast
  show "\<exists>cs. fw_calls (snd (act_bind m f w)) = fw_calls w @ cs \<and> list_all C cs"
  proof (cases r)
    case (Inl e)
    with cs m show ?thesis by (simp add: act_bind_def)
  next
    case (Inr x)
    obtain ds where "fw_calls (snd (f x v)) = fw_calls v @ ds" "list_all C ds" using assms(2) [of x] unfolding issues_def by blast
    with cs m Inr show ?thesis by (intro exI [of _ "cs @ ds"]) (simp add: act_bind_def)
  qed
qed

lemma issues_catch [act_issues]:
  assumes "issues C m" and "\<And>e. issues C (h e)"
  shows "issues C (act_catch m h)"
  unfolding issues_def
proof
  fix w
  obtain r v where m: "m w = (r, v)" by (cases "m w")
  obtain cs where cs: "fw_calls v = fw_calls w @ cs" "list_all C cs" using issuesD [OF assms(1) m] by blast
  show "\<exists>cs. fw_calls (snd (act_catch m h w)) = fw_calls w @ cs \<and> list_all C cs"
  proof (cases r)
    case (Inr x)
    with cs m show ?thesis by (simp add: act_catch_def)
  next
    case (Inl e)
    obtain ds where "fw_calls (snd (h e v)) = fw_calls v @ ds" "list_all C ds" using assms(2) [of e] unfolding issues_def by blast
    with cs m Inl show ?thesis by (intro exI [of _ "cs @ ds"]) (simp add: act_catch_def)
  qed
qed

lemma issues_if [act_issues]: "issues C m \<Longrightarrow> issues C n \<Longrightarrow> issues C (if b then m else n)"
  by simp

lemma issues_map [act_issues]: "(\<And>x. issues C (f x)) \<Longrightarrow> issues C (act_map f xs)"
  by (induction xs) (simp_all only: act_map.simps issues_basic issues_bind)

lemma issues_guarded [act_issues]: "issues C fn \<Longrightarrow> issues C (guarded fn msg)"
  unfolding guarded_def by (intro act_issues)

lemma issues_then [act_issues]: "issues C m \<Longrightarrow> (\<And>r. issues C (f r)) \<Longrightarrow> issues C (then_step m f)"
  unfolding then_step_def by (intro act_issues)

lemma issues_option [act_issues]:
  "issues C m \<Longrightarrow> (\<And>x. issues C (f x)) \<Longrightarrow> issues C (case v of None \<Rightarrow> m | Some x \<Rightarrow> f x)"
  by (cases v) simp_all

lemma keeps_option [act_keeps]:
  "keeps P m \<Longrightarrow> (\<And>x. keeps P (f x)) \<Longrightarrow> keeps P (case v of None \<Rightarrow> m | Some x \<Rightarrow> f x)"
  by (cases v) simp_all


section \<open>Actions that only look\<close>

named_theorems act_looks \<open>actions that leave the state as it is\<close>

definition looks :: "'a act \<Rightarrow> bool" where
  "looks m \<longleftrightarrow> (\<forall>w. snd (m w) = w)"

lemma looksD: "looks m \<Longrightarrow> m w = (x, v) \<Longrightarrow> v = w"
  unfolding looks_def by (metis snd_conv)

lemma looks_basic [act_looks]: "looks (act_return x)" "looks (act_raise e)" "looks (act_lift p)" "looks (read_file f)"
  by (auto simp: looks_def read_file_def split: option.split)

lemma looks_bind [act_looks]: "looks m \<Longrightarrow> (\<And>x. looks (f x)) \<Longrightarrow> looks (act_bind m f)"
proof -
  assume m: "looks m" and f: "\<And>x. looks (f x)"
  have "snd (act_bind m f w) = w" for w
  proof (cases "m w")
    case (Pair r v)
    with looksD [OF m] have "v = w" by blast
    with Pair f show ?thesis by (cases r) (simp_all add: act_bind_def looks_def)
  qed
  then show ?thesis by (simp add: looks_def)
qed

lemma looks_catch [act_looks]: "looks m \<Longrightarrow> (\<And>x. looks (h x)) \<Longrightarrow> looks (act_catch m h)"
proof -
  assume m: "looks m" and f: "\<And>x. looks (h x)"
  have "snd (act_catch m h w) = w" for w
  proof (cases "m w")
    case (Pair r v)
    with looksD [OF m] have "v = w" by blast
    with Pair f show ?thesis by (cases r) (simp_all add: act_catch_def looks_def)
  qed
  then show ?thesis by (simp add: looks_def)
qed

lemma looks_if [act_looks]: "looks m \<Longrightarrow> looks n \<Longrightarrow> looks (if b then m else n)"
  by simp

lemma looks_option [act_looks]:
  "looks m \<Longrightarrow> (\<And>x. looks (f x)) \<Longrightarrow> looks (case v of None \<Rightarrow> m | Some x \<Rightarrow> f x)"
  by (cases v) simp_all

lemma looks_pair [act_looks]: "(\<And>x y. looks (f x y)) \<Longrightarrow> looks (case p of (x, y) \<Rightarrow> f x y)"
  by (cases p) simp

end
