(* ===== verification/Fleet_Discovery.thy ===== *)
theory Fleet_Discovery
  imports Fleet_Shell Py_Json
begin

text \<open>
  \<open>fleet_ui/discovery.py\<close>: the devices behind the hub's access point, the addresses of the inventory and how
  the two are matched. A child is known by its MAC; the MAC of an inventory entry is trusted on first use and
  kept in \<open>fleet/known_macs.json\<close>.
\<close>

section \<open>Neighbours\<close>

record neighbor =
  nb_ip :: string
  nb_mac :: string
  nb_state :: string

definition PRESENT_STATES :: "string list" where
  "PRESENT_STATES = [''REACHABLE'', ''STALE'', ''DELAY'', ''PROBE'', ''PERMANENT'']"

definition AP_DEV :: string where "AP_DEV = ''wlan1''"

definition ap_dev_char :: "char \<Rightarrow> bool" where
  "ap_dev_char c \<longleftrightarrow> is_lower_az c \<or> is_upper_az c \<or> is_digit c \<or> c \<in> set ''_.-''"

text \<open>\<open>current_ap_dev\<close> of the environment variable \<open>AP_DEV\<close>.\<close>

definition current_ap_dev :: "string option \<Rightarrow> string" where
  "current_ap_dev env =
    (let s = strip (or_else env AP_DEV); raw = (if s = [] then AP_DEV else s) in
     if list_all ap_dev_char raw then raw else AP_DEV)"

text \<open>\<open>\d{1,3}(?:\.\d{1,3}){3}\<close>.\<close>

definition digits_1_3 :: "string \<Rightarrow> bool" where
  "digits_1_3 p \<longleftrightarrow> 1 \<le> length p \<and> length p \<le> 3 \<and> list_all is_digit p"

definition looks_ipv4 :: "string \<Rightarrow> bool" where
  "looks_ipv4 s \<longleftrightarrow> length (split_on CHR ''.'' s) = 4 \<and> list_all digits_1_3 (split_on CHR ''.'' s)"

definition mac_char :: "char \<Rightarrow> bool" where
  "mac_char c \<longleftrightarrow> is_digit c \<or> between 97 c 102 \<or> between 65 c 70 \<or> c = CHR '':''"

text \<open>\<open>upper()\<close>; a state with a letter outside ASCII is in no case one of the states above.\<close>

definition upper_char :: "char \<Rightarrow> char" where
  "upper_char c = (if is_lower_az c then char_of (code c - 32) else c)"

text \<open>
  One line of \<open>ip neigh\<close>. The pattern \<open>ip \s+ lladdr \s+ mac \s+ state\<close> matches the stripped line exactly when
  its first words are those four.
\<close>

definition parse_neigh_line :: "string \<Rightarrow> neighbor option" where
  "parse_neigh_line line = (case words line of
      ip # kw # mac # state # _ \<Rightarrow>
        if looks_ipv4 ip \<and> kw = ''lladdr'' \<and> length mac = 17 \<and> list_all mac_char mac
          \<and> map upper_char state \<in> set PRESENT_STATES
        then Some \<lparr>nb_ip = ip, nb_mac = lower mac, nb_state = map upper_char state\<rparr> else None
    | _ \<Rightarrow> None)"

definition parse_neigh :: "string \<Rightarrow> neighbor list" where
  "parse_neigh t = List.map_filter parse_neigh_line (splitlines t)"

definition read_neighbors :: "runner \<Rightarrow> string \<Rightarrow> neighbor list act" where
  "read_neighbors r dev = act_bind (call r (Neigh_show dev)) (\<lambda>t. act_return (parse_neigh t))"

section \<open>The addresses of the inventory\<close>

text \<open>The \<open>hostname\<close> line of \<open>ssh -G\<close>; \<open>split(None, 1)[1]\<close> raises \<open>IndexError\<close> when nothing follows.\<close>

fun ssh_config_ip :: "string list \<Rightarrow> string option py" where
  "ssh_config_ip [] = Inr None"
| "ssh_config_ip (l # ls) =
     (if starts_with ''hostname '' l then
        (let cand = strip (drop 8 l) in
         if cand = [] then Inl IndexError else Inr (if looks_ipv4 cand then Some cand else None))
      else ssh_config_ip ls)"

definition resolve_entry :: "runner \<Rightarrow> string \<Rightarrow> string option act" where
  "resolve_entry r e =
    act_bind (call r (Getent e)) (\<lambda>t.
      case words t of
        w # ws \<Rightarrow> if looks_ipv4 w then act_return (Some w)
                 else act_bind (call r (Ssh_config e)) (\<lambda>u. act_lift (ssh_config_ip (splitlines u)))
      | [] \<Rightarrow> act_bind (call r (Ssh_config e)) (\<lambda>u. act_lift (ssh_config_ip (splitlines u))))"

fun resolve_into :: "runner \<Rightarrow> string list \<Rightarrow> string option dict \<Rightarrow> string option dict act" where
  "resolve_into r [] out = act_return out"
| "resolve_into r (e # es) out = act_bind (resolve_entry r e) (\<lambda>ip. resolve_into r es (dict_set e ip out))"

definition resolve_inventory_ips :: "runner \<Rightarrow> string list \<Rightarrow> string option dict act" where
  "resolve_inventory_ips r entries = resolve_into r entries []"

section \<open>Matching\<close>

datatype row_kind = Row_known | Row_new | Row_unverified | Row_unresolved

record fleet_row =
  fr_mac :: "string option"
  fr_ip :: "string option"
  fr_entry :: "string option"
  fr_kind :: row_kind

text \<open>The dicts \<open>by_ip\<close> and \<open>by_mac\<close>: the last neighbour of a key counts.\<close>

definition by_ip :: "neighbor list \<Rightarrow> string \<Rightarrow> neighbor option" where
  "by_ip ns ip = find (\<lambda>n. nb_ip n = ip) (rev ns)"

definition by_mac :: "neighbor list \<Rightarrow> string \<Rightarrow> neighbor option" where
  "by_mac ns m = find (\<lambda>n. nb_mac n = m) (rev ns)"

definition known_row :: "string \<Rightarrow> neighbor \<Rightarrow> fleet_row" where
  "known_row entry n = \<lparr>fr_mac = Some (nb_mac n), fr_ip = Some (nb_ip n), fr_entry = Some entry, fr_kind = Row_known\<rparr>"

definition unresolved_row :: "string \<Rightarrow> string option \<Rightarrow> fleet_row" where
  "unresolved_row entry ip = \<lparr>fr_mac = None, fr_ip = ip, fr_entry = Some entry, fr_kind = Row_unresolved\<rparr>"

definition other_row :: "row_kind \<Rightarrow> neighbor \<Rightarrow> fleet_row" where
  "other_row k n = \<lparr>fr_mac = Some (nb_mac n), fr_ip = Some (nb_ip n), fr_entry = None, fr_kind = k\<rparr>"

definition candidate_at :: "neighbor list \<Rightarrow> string option \<Rightarrow> neighbor option" where
  "candidate_at ns ip = (case ip of None \<Rightarrow> None | Some i \<Rightarrow> if i = [] then None else by_ip ns i)"

definition moved_row :: "neighbor list \<Rightarrow> string dict \<Rightarrow> string \<Rightarrow> string option \<Rightarrow> fleet_row" where
  "moved_row ns known entry ip =
    (case dict_get known entry of
        None \<Rightarrow> unresolved_row entry ip
      | Some m \<Rightarrow> (case by_mac ns m of None \<Rightarrow> unresolved_row entry ip | Some n \<Rightarrow> known_row entry n))"

definition classify_entry :: "neighbor list \<Rightarrow> string dict \<Rightarrow> string \<times> string option \<Rightarrow> fleet_row" where
  "classify_entry ns known = (\<lambda>(entry, ip).
    case candidate_at ns ip of
      Some n \<Rightarrow> if dict_get known entry = None \<or> dict_get known entry = Some (nb_mac n) then known_row entry n
                else moved_row ns known entry ip
    | None \<Rightarrow> moved_row ns known entry ip)"

definition claimed_ips :: "fleet_row list \<Rightarrow> string option set" where
  "claimed_ips rows = fr_ip ` set (filter (\<lambda>r. fr_kind r = Row_known) rows)"

definition classify :: "neighbor list \<Rightarrow> string option dict \<Rightarrow> string dict \<Rightarrow> fleet_row list" where
  "classify ns iips known =
    (let rows = map (classify_entry ns known) iips;
         leftover = (if \<exists>r \<in> set rows. fr_kind r = Row_unresolved then Row_unverified else Row_new)
     in rows @ map (other_row leftover) (filter (\<lambda>n. Some (nb_ip n) \<notin> claimed_ips rows) ns))"

text \<open>The pairs to trust from now on; the caller merges them into the ones it has.\<close>

definition learn_row :: "string dict \<Rightarrow> fleet_row \<Rightarrow> string dict \<Rightarrow> string dict" where
  "learn_row known r d =
    (case (fr_entry r, fr_mac r) of
        (Some e, Some m) \<Rightarrow> if fr_kind r = Row_known \<and> dict_get known e = None then dict_set e m d else d
      | _ \<Rightarrow> d)"

definition learned_macs :: "fleet_row list \<Rightarrow> string dict \<Rightarrow> string dict" where
  "learned_macs rows known = fold (learn_row known) rows []"

text \<open>\<open>{**known, **newly}\<close>.\<close>

definition merge_macs :: "string dict \<Rightarrow> string dict \<Rightarrow> string dict" where
  "merge_macs known newly = fold (\<lambda>(k, v). dict_set k v) newly known"

section \<open>The file of trusted MACs\<close>

text \<open>\<open>load_known_macs\<close>: nothing for a file that is missing, unreadable, broken or no object.\<close>

definition string_members :: "pyval dict \<Rightarrow> string dict" where
  "string_members d = List.map_filter (\<lambda>(k, v). case v of PStr s \<Rightarrow> Some (k, s) | _ \<Rightarrow> None) d"

definition known_macs_of :: "string \<Rightarrow> string dict py" where
  "known_macs_of t = (case json_loads t of
      Inr (PDict d) \<Rightarrow> Inr (string_members d)
    | Inr _ \<Rightarrow> Inr []
    | Inl e \<Rightarrow> if e = ValueError then Inr [] else Inl e)"

definition load_known_macs :: "string \<Rightarrow> string dict act" where
  "load_known_macs p =
    act_bind (act_catch (read_file p) (\<lambda>e. if e = OSError then act_return None else act_raise e))
      (\<lambda>f. case f of None \<Rightarrow> act_return [] | Some t \<Rightarrow> act_lift (known_macs_of t))"

text \<open>\<open>json.dumps(macs, ensure_ascii=False, indent=2)\<close>.\<close>

definition mac_line :: "string \<times> string \<Rightarrow> string" where
  "mac_line = (\<lambda>(k, v). json_text False k @ '': '' @ json_text False v)"

definition known_macs_text :: "string dict \<Rightarrow> string" where
  "known_macs_text d =
    (if d = [] then ''{}''
     else ''{'' @ nl # ''  '' @ join_with ('','' @ nl # ''  '') (map mac_line d) @ nl # ''}'')"

definition save_known_macs :: "string \<Rightarrow> string dict \<Rightarrow> unit act" where
  "save_known_macs p d w =
    (if fw_denied w p then (Inl OSError, w)
     else (Inr (), w\<lparr>fw_files := (fw_files w)(p \<mapsto> known_macs_text d)\<rparr>))"

section \<open>Facts on the matching\<close>

lemma by_ip_SomeD: "by_ip ns ip = Some n \<Longrightarrow> n \<in> set ns \<and> nb_ip n = ip"
  by (auto simp: by_ip_def find_Some_iff) (metis in_set_conv_nth length_rev set_rev)

lemma by_mac_SomeD: "by_mac ns m = Some n \<Longrightarrow> n \<in> set ns \<and> nb_mac n = m"
  by (auto simp: by_mac_def find_Some_iff) (metis in_set_conv_nth length_rev set_rev)

lemma by_mac_None_iff: "by_mac ns m = None \<longleftrightarrow> (\<forall>n \<in> set ns. nb_mac n \<noteq> m)"
  by (auto simp: by_mac_def find_None_iff)

lemma row_kinds [simp]:
  "fr_kind (known_row e n) = Row_known" "fr_kind (unresolved_row e ip) = Row_unresolved" "fr_kind (other_row k n) = k"
  "fr_mac (known_row e n) = Some (nb_mac n)" "fr_ip (known_row e n) = Some (nb_ip n)"
  "fr_mac (other_row k n) = Some (nb_mac n)" "fr_ip (other_row k n) = Some (nb_ip n)"
  "fr_entry (known_row e n) = Some e" "fr_entry (unresolved_row e ip) = Some e" "fr_entry (other_row k n) = None"
  "fr_mac (unresolved_row e ip) = None"
  by (simp_all add: known_row_def unresolved_row_def other_row_def)

text \<open>What an entry comes to: known with a neighbour of its trusted MAC, or not resolved.\<close>

lemma classify_entry_cases:
  obtains (known) n where "classify_entry ns macs (e, ip) = known_row e n" and "n \<in> set ns"
      and "dict_get macs e = None \<or> dict_get macs e = Some (nb_mac n)"
    | (unresolved) "classify_entry ns macs (e, ip) = unresolved_row e ip"
proof (cases "candidate_at ns ip")
  case (Some n)
  then have n: "n \<in> set ns" by (auto simp: candidate_at_def dest: by_ip_SomeD split: option.splits if_splits)
  show ?thesis
  proof (cases "dict_get macs e = None \<or> dict_get macs e = Some (nb_mac n)")
    case True
    then show ?thesis using Some n known [of n] by (simp add: classify_entry_def)
  next
    case False
    then obtain m where m: "dict_get macs e = Some m" by auto
    then have c: "classify_entry ns macs (e, ip) = moved_row ns macs e ip" using False Some by (simp add: classify_entry_def)
    show ?thesis
    proof (cases "by_mac ns m")
      case None
      then show ?thesis using c m unresolved by (simp add: moved_row_def)
    next
      case (Some k)
      then show ?thesis using c m known [of k] by_mac_SomeD [OF Some] by (simp add: moved_row_def)
    qed
  qed
next
  case None
  then have c: "classify_entry ns macs (e, ip) = moved_row ns macs e ip" by (simp add: classify_entry_def)
  show ?thesis
  proof (cases "dict_get macs e")
    case None
    then show ?thesis using c unresolved by (simp add: moved_row_def)
  next
    case m: (Some m)
    show ?thesis
    proof (cases "by_mac ns m")
      case None
      then show ?thesis using c m unresolved by (simp add: moved_row_def)
    next
      case (Some k)
      then show ?thesis using c m known [of k] by_mac_SomeD [OF Some] by (simp add: moved_row_def)
    qed
  qed
qed

lemma classify_entry_kind: "fr_kind (classify_entry ns macs p) \<in> {Row_known, Row_unresolved}"
  by (cases p, rule classify_entry_cases [of ns macs "fst p" "snd p"]) simp_all

lemma classify_new_row:
  assumes "r \<in> set (classify ns iips macs)" and "fr_kind r = Row_new"
  obtains n where "r = other_row Row_new n" and "n \<in> set ns"
    and "Some (nb_ip n) \<notin> claimed_ips (map (classify_entry ns macs) iips)"
    and "\<And>e. e \<in> set iips \<Longrightarrow> fr_kind (classify_entry ns macs e) = Row_known"
proof -
  let ?rows = "map (classify_entry ns macs) iips"
  have nk: "r \<notin> set ?rows"
  proof
    assume "r \<in> set ?rows"
    then obtain p where "r = classify_entry ns macs p" by auto
    with assms(2) classify_entry_kind [of ns macs p] show False by simp
  qed
  then obtain n k where n: "r = other_row k n" "n \<in> set ns" "Some (nb_ip n) \<notin> claimed_ips ?rows"
    and k: "k = (if \<exists>r \<in> set ?rows. fr_kind r = Row_unresolved then Row_unverified else Row_new)"
    using assms(1) by (auto simp: classify_def Let_def)
  have kn: "k = Row_new" using assms(2) n(1) by simp
  then have none: "\<forall>r \<in> set ?rows. fr_kind r \<noteq> Row_unresolved" using k by (auto split: if_splits)
  have "fr_kind (classify_entry ns macs e) = Row_known" if "e \<in> set iips" for e
    using none that classify_entry_kind [of ns macs e] by auto
  with that n kn show ?thesis by blast
qed


text \<open>C14: a device is offered as new only when every entry of the inventory was found, each by the MAC trusted for
  it, and the offered device has none of the trusted MACs; for a neighbour table in which no MAC stands twice.
\<close>

theorem new_device_is_no_known_child:
  assumes macs_once: "distinct (map nb_mac ns)"
    and row: "r \<in> set (classify ns iips macs)" "fr_kind r = Row_new"
    and entry: "(e, ip) \<in> set iips"
  shows "\<exists>n \<in> set ns. classify_entry ns macs (e, ip) = known_row e n
           \<and> (dict_get macs e = None \<or> dict_get macs e = Some (nb_mac n)) \<and> fr_mac r \<noteq> Some (nb_mac n)"
proof -
  obtain k where k: "r = other_row Row_new k" "k \<in> set ns"
    and free: "Some (nb_ip k) \<notin> claimed_ips (map (classify_entry ns macs) iips)"
    and known: "\<And>p. p \<in> set iips \<Longrightarrow> fr_kind (classify_entry ns macs p) = Row_known"
    using classify_new_row [OF row] by blast
  show ?thesis
  proof (rule classify_entry_cases [of ns macs e ip])
    fix n
    assume n: "classify_entry ns macs (e, ip) = known_row e n" "n \<in> set ns"
      "dict_get macs e = None \<or> dict_get macs e = Some (nb_mac n)"
    have "known_row e n \<in> set (map (classify_entry ns macs) iips)" using n(1) entry by (metis imageI list.set_map)
    then have "Some (nb_ip n) \<in> claimed_ips (map (classify_entry ns macs) iips)"
      unfolding claimed_ips_def by (intro image_eqI [of _ _ "known_row e n"]) simp_all
    with free have "k \<noteq> n" by auto
    with macs_once k(2) n(2) have "nb_mac k \<noteq> nb_mac n" by (metis distinct_map inj_onD)
    with n k(1) show ?thesis by (intro bexI [of _ n]) simp_all
  next
    assume "classify_entry ns macs (e, ip) = unresolved_row e ip"
    with known [OF entry] show ?thesis by simp
  qed
qed

definition ex_neighbors :: "neighbor list" where
  "ex_neighbors =
    [\<lparr>nb_ip = ''10.42.0.7'', nb_mac = ''b8:27:eb:00:00:01'', nb_state = ''REACHABLE''\<rparr>,
     \<lparr>nb_ip = ''10.42.0.9'', nb_mac = ''b8:27:eb:00:00:02'', nb_state = ''STALE''\<rparr>]"

lemma new_device_is_no_known_child_witness:
  "\<exists>n \<in> set ex_neighbors.
     classify_entry ex_neighbors [(''zero2'', ''b8:27:eb:00:00:01'')] (''zero2'', Some ''10.42.0.9'') = known_row ''zero2'' n
     \<and> (dict_get [(''zero2'', ''b8:27:eb:00:00:01'')] ''zero2'' = None
        \<or> dict_get [(''zero2'', ''b8:27:eb:00:00:01'')] ''zero2'' = Some (nb_mac n))
     \<and> fr_mac (other_row Row_new (ex_neighbors ! 1)) \<noteq> Some (nb_mac n)"
  by (rule new_device_is_no_known_child [of ex_neighbors _ "[(''zero2'', Some ''10.42.0.9'')]"])
    (simp add: ex_neighbors_def, code_simp, code_simp, simp)

text \<open>
  A MAC that stands twice in the table, as after a change of the child's address while the old entry is still
  STALE, breaks this: rows are claimed by address, so the child's old address is offered as a new device.
\<close>

lemma stale_address_is_offered_as_new:
  "other_row Row_new \<lparr>nb_ip = ''10.42.0.7'', nb_mac = ''b8:27:eb:00:00:01'', nb_state = ''STALE''\<rparr>
   \<in> set (classify
      [\<lparr>nb_ip = ''10.42.0.7'', nb_mac = ''b8:27:eb:00:00:01'', nb_state = ''STALE''\<rparr>,
       \<lparr>nb_ip = ''10.42.0.9'', nb_mac = ''b8:27:eb:00:00:01'', nb_state = ''REACHABLE''\<rparr>]
      [(''zero2'', Some ''10.42.0.9'')] [(''zero2'', ''b8:27:eb:00:00:01'')])"
  by code_simp

text \<open>Every entry has one row, in the order of the inventory, and every neighbour's address is in some row.\<close>

lemma classify_entries:
  "map fr_entry (filter (\<lambda>r. fr_entry r \<noteq> None) (classify ns iips macs)) = map (\<lambda>p. Some (fst p)) iips"
proof -
  have e: "fr_entry (classify_entry ns macs p) = Some (fst p)" for p
    by (cases p, rule classify_entry_cases [of ns macs "fst p" "snd p"]) simp_all
  have o: "filter (\<lambda>r. fr_entry r \<noteq> None) (map (other_row k) xs) = []" for k xs by (induction xs) simp_all
  have "filter (\<lambda>r. fr_entry r \<noteq> None) (map (classify_entry ns macs) iips) = map (classify_entry ns macs) iips"
    by (induction iips) (simp_all add: e)
  then show ?thesis by (simp add: classify_def Let_def o e)
qed

lemma classify_neighbors:
  assumes "n \<in> set ns"
  shows "Some (nb_ip n) \<in> fr_ip ` set (classify ns iips macs)"
proof (cases "Some (nb_ip n) \<in> claimed_ips (map (classify_entry ns macs) iips)")
  case True
  then show ?thesis by (auto simp: classify_def Let_def claimed_ips_def)
next
  case False
  with assms show ?thesis
    by (auto simp: classify_def Let_def intro!: image_eqI [of _ _ "other_row _ n"])
qed

section \<open>Facts on the trusted MACs\<close>

lemma learn_row_other: "dict_get known e \<noteq> None \<Longrightarrow> dict_get (learn_row known r d) e = dict_get d e"
  by (auto simp: learn_row_def split: option.split)

lemma learned_only_new: "dict_get known e \<noteq> None \<Longrightarrow> dict_get (learned_macs rows known) e = None"
proof -
  assume k: "dict_get known e \<noteq> None"
  have "dict_get (fold (learn_row known) rows d) e = dict_get d e" for d
    by (induction rows arbitrary: d) (simp_all add: learn_row_other [OF k])
  then show ?thesis by (simp add: learned_macs_def dict_get_def)
qed

lemma dict_keys_learned: "distinct (dict_keys d) \<Longrightarrow> distinct (dict_keys (fold (learn_row known) rows d))"
proof (induction rows arbitrary: d)
  case (Cons r rows)
  have "distinct (dict_keys (learn_row known r d))"
    using Cons.prems by (auto simp: learn_row_def dict_set_distinct split: option.split)
  then show ?case using Cons.IH by simp
qed simp

lemma merge_get:
  assumes "distinct (dict_keys newly)"
  shows "dict_get (merge_macs known newly) e = (case dict_get newly e of None \<Rightarrow> dict_get known e | Some m \<Rightarrow> Some m)"
  using assms
proof (induction newly arbitrary: known)
  case Nil
  then show ?case by (simp add: merge_macs_def dict_get_def)
next
  case (Cons p newly)
  obtain k v where p: "p = (k, v)" by (cases p)
  have d: "distinct (dict_keys newly)" "dict_get newly k = None"
    using Cons.prems p by (auto simp: dict_keys_def dict_get_def map_of_eq_None_iff)
  have "merge_macs known (p # newly) = merge_macs (dict_set k v known) newly" by (simp add: merge_macs_def p)
  moreover have "dict_get ((k, v) # newly) e = (if e = k then Some v else dict_get newly e)" by (simp add: dict_get_def)
  ultimately show ?case using Cons.IH [OF d(1), of "dict_set k v known"] d(2) by (auto simp: p split: option.split)
qed

lemma trusted_mac_stays:
  assumes "dict_get known e = Some m"
  shows "dict_get (merge_macs known (learned_macs rows known)) e = Some m"
proof -
  have "distinct (dict_keys (learned_macs rows known))"
    unfolding learned_macs_def by (rule dict_keys_learned) (simp add: dict_keys_def)
  then show ?thesis using assms learned_only_new [of known e rows] by (simp add: merge_get)
qed

section \<open>The file is read back\<close>

lemma json_ws_nl [simp]: "json_ws (nl # s) = json_ws s"
  by (simp add: json_ws_def json_space_def)

lemma json_ws_blank [simp]: "json_ws (CHR '' '' # s) = json_ws s"
  by (simp add: json_ws_def json_space_def)

lemma json_ws_dq [simp]: "json_ws (dq # s) = dq # s"
  by (simp add: json_ws_def json_space_def)

lemma json_val_text: "json_val (Suc n) (json_text asc v @ r) = Inr (PStr v, r)"
  by (simp add: json_text_def json_str_text)

lemma mac_line_starts: "\<exists>cs. mac_line p = dq # cs"
  by (cases p) (simp add: mac_line_def json_text_def)

lemma json_pairs_lines:
  assumes "d \<noteq> []" and "length d < n"
  shows "json_pairs n (join_with ('','' @ nl # ''  '') (map mac_line d) @ nl # CHR ''}'' # r) acc
    = Inr (fold (\<lambda>(k, v). dict_set k (PStr v)) d acc, r)"
  using assms
proof (induction d arbitrary: n acc)
  case Nil
  then show ?case by simp
next
  case (Cons p d)
  obtain k v where p: "p = (k, v)" by (cases p)
  obtain m where n: "n = Suc (Suc m)" using Cons.prems(2) by (cases n; cases "n - 1") auto
  let ?rest = "\<lambda>r2. case json_ws r2 of [] \<Rightarrow> Inl ValueError
       | e # r3 \<Rightarrow> if e = CHR ''}'' then Inr (dict_set k (PStr v) acc, r3)
                  else if e = CHR '','' then json_pairs (Suc m) (json_ws r3) (dict_set k (PStr v) acc)
                  else Inl ValueError"
  have step: "json_pairs n (mac_line p @ q) acc = ?rest q" for q
    using json_val_text [of m False v q]
    by (simp add: p n mac_line_def json_text_def json_str_text del: json_val.simps)
  show ?case
  proof (cases d)
    case Nil
    then show ?thesis using step [of "nl # CHR ''}'' # r"] by (simp add: p)
  next
    case (Cons y ys)
    let ?t = "join_with ('','' @ nl # ''  '') (map mac_line d)"
    have "join_with ('','' @ nl # ''  '') (map mac_line (p # d)) = mac_line p @ '','' @ nl # ''  '' @ ?t" using Cons by simp
    moreover obtain cs where "mac_line y = dq # cs" using mac_line_starts by blast
    then have "json_ws (?t @ q) = ?t @ q" for q using Cons by (cases ys) simp_all
    moreover have "json_pairs (Suc m) (?t @ nl # CHR ''}'' # r) (dict_set k (PStr v) acc)
        = Inr (fold (\<lambda>(k, v). dict_set k (PStr v)) d (dict_set k (PStr v) acc), r)"
      using Cons Cons.prems(2) n by (intro Cons.IH) auto
    ultimately show ?thesis using step [of "'','' @ nl # ''  '' @ ?t @ nl # CHR ''}'' # r"] by (simp add: p)
  qed
qed

lemma fold_dict_set_strings:
  "fold (\<lambda>(k, v). dict_set k (PStr v)) d acc = fold (\<lambda>(k, v). dict_set k v) (map (\<lambda>(k, v). (k, PStr v)) d) acc"
  by (induction d arbitrary: acc) auto

lemma string_members_map: "string_members (map (\<lambda>(k, v). (k, PStr v)) d) = d"
  by (induction d) (auto simp: string_members_def List.map_filter_def)

lemma length_lines: "length d \<le> length (join_with ('','' @ nl # ''  '') (map mac_line d))"
proof (induction d)
  case (Cons p d)
  obtain cs where "mac_line p = dq # cs" using mac_line_starts by blast
  with Cons show ?case by (cases d) simp_all
qed simp

lemma known_macs_read_back: "distinct (dict_keys d) \<Longrightarrow> known_macs_of (known_macs_text d) = Inr d"
proof (cases "d = []")
  case True
  have "json_loads ''{}'' = Inr (PDict [])" by code_simp
  with True show ?thesis by (simp add: known_macs_of_def known_macs_text_def string_members_def List.map_filter_def)
next
  case False
  assume dist: "distinct (dict_keys d)"
  let ?t = "join_with ('','' @ nl # ''  '') (map mac_line d)"
  have wr: "known_macs_text d = CHR ''{'' # nl # ''  '' @ ?t @ nl # ''}''" using False by (simp add: known_macs_text_def)
  obtain y ys where y: "d = y # ys" using False by (cases d) auto
  obtain cs where cs: "mac_line y = dq # cs" using mac_line_starts by blast
  obtain q where q: "?t @ nl # ''}'' = dq # q" using y cs by (cases ys) simp_all
  let ?n = "2 * length (known_macs_text d)"
  have "length d < ?n" using length_lines [of d] unfolding wr by simp
  then have "json_pairs ?n (dq # q) [] = Inr (fold (\<lambda>(k, v). dict_set k (PStr v)) d [], [])"
    using json_pairs_lines [OF False, of ?n "[]" "[]"] unfolding q [symmetric] by simp
  moreover have "map fst (map (\<lambda>(k, v). (k, PStr v)) d) = map fst d" by (simp add: case_prod_unfold)
  then have "fold (\<lambda>(k, v). dict_set k (PStr v)) d [] = map (\<lambda>(k, v). (k, PStr v)) d"
    unfolding fold_dict_set_strings using dict_rebuild [of "[]" "map (\<lambda>(k, v). (k, PStr v)) d"] dist
    by (simp only: append_Nil dict_keys_def)
  ultimately have "json_val (Suc ?n) (CHR ''{'' # nl # ''  '' @ dq # q) = Inr (PDict (map (\<lambda>(k, v). (k, PStr v)) d), [])"
    by simp
  moreover have "known_macs_text d = CHR ''{'' # nl # ''  '' @ dq # q" using wr q by simp
  ultimately have "json_loads (known_macs_text d) = Inr (PDict (map (\<lambda>(k, v). (k, PStr v)) d))"
    by (simp add: json_loads_def json_ws_def json_space_def del: json_val.simps)
  then show ?thesis by (simp add: known_macs_of_def string_members_map)
qed


lemma universal_newlines_id: "cr \<notin> set s \<Longrightarrow> universal_newlines s = s"
  by (induction s rule: universal_newlines.induct) auto

lemma json_esc_no_cr: "cr \<notin> set (json_esc asc c)"
proof (cases "code c = 13")
  case True
  then show ?thesis by (simp add: json_esc_def Let_def)
next
  case False
  then have "c \<noteq> cr" by auto
  moreover have hx: "cr \<noteq> hex_char d" if "d < 16" for d
  proof
    assume "cr = hex_char d"
    then have "code cr = code (hex_char d)" by (rule arg_cong)
    with that show False by (simp add: hex_char_def split: if_splits)
  qed
  moreover have "cr \<noteq> hex_char (code c div 16)" "cr \<noteq> hex_char (code c mod 16)"
    using nat_of_char_less_256 [of c] by (auto intro!: hx simp: less_mult_imp_div_less)
  ultimately show ?thesis by (auto simp: json_esc_def Let_def split: if_splits)
qed


lemma known_macs_text_no_cr: "cr \<notin> set (known_macs_text d)"
proof -
  have "cr \<notin> set (json_text asc s)" for asc s using json_esc_no_cr by (auto simp: json_text_def)
  then have l: "cr \<notin> set (mac_line p)" for p by (cases p) (simp add: mac_line_def)
  have "cr \<notin> set (join_with ('','' @ nl # ''  '') (map mac_line e))" for e
  proof (induction e)
    case (Cons p e)
    with l [of p] show ?case by (cases e) simp_all
  qed simp
  then show ?thesis by (simp add: known_macs_text_def)
qed

lemma load_saved:
  assumes "distinct (dict_keys d)" and "\<not> fw_denied w p"
  shows "load_known_macs p (snd (save_known_macs p d w)) = (Inr d, snd (save_known_macs p d w))"
proof -
  let ?v = "w\<lparr>fw_files := (fw_files w)(p \<mapsto> known_macs_text d)\<rparr>"
  have v: "save_known_macs p d w = (Inr (), ?v)" using assms(2) by (simp add: save_known_macs_def)
  have "read_file p ?v = (Inr (Some (known_macs_text d)), ?v)"
    using assms(2) universal_newlines_id [OF known_macs_text_no_cr, of d] by (simp add: read_file_def)
  then show ?thesis
    unfolding v snd_conv by (simp add: load_known_macs_def act_bind_def act_catch_def known_macs_read_back [OF assms(1)])
qed

end
