(* ===== verification/Fleet_Status.thy ===== *)
theory Fleet_Status
  imports Fleet_Discovery "HOL-Library.Product_Lexorder"
begin

text \<open>
  The stations of the children (\<open>scripts/lib/sta_no_report.py\<close>) and the status of one child (\<open>collect.py\<close>). The
  MERGE key of the database does not hold the device, so two regions with the same three station numbers lose
  records; the report finds them.
\<close>

section \<open>Station triples\<close>

type_synonym triple = "string \<times> string \<times> string"

definition name_part :: "(pyval \<Rightarrow> string) \<Rightarrow> pyval \<Rightarrow> string" where
  "name_part rp v = strip (if v = PNone then [] else py_str rp v)"

text \<open>\<open>_triple\<close>: a list gives its first three parts, any other value is the first part; the rest is empty.\<close>

definition nth_or_empty :: "string list \<Rightarrow> nat \<Rightarrow> string" where
  "nth_or_empty p i = (if i < length p then p ! i else [])"

definition triple_of :: "(pyval \<Rightarrow> string) \<Rightarrow> pyval \<Rightarrow> triple" where
  "triple_of rp parts =
    (let p = (case parts of PList xs \<Rightarrow> take 3 (map (name_part rp) xs) | _ \<Rightarrow> [name_part rp parts])
     in (nth_or_empty p 0, nth_or_empty p 1, nth_or_empty p 2))"

definition unassigned :: triple where
  "unassigned = ([], [], [])"

section \<open>The report\<close>

text \<open>\<open>sorted(regions, key=lambda r: (len(r), r))\<close>.\<close>

definition region_order :: "pyval dict \<Rightarrow> string list" where
  "region_order rs = sort_key (\<lambda>r. (length r, r)) (dict_keys rs)"

definition region_value :: "pyval dict \<Rightarrow> string \<Rightarrow> pyval" where
  "region_value rs r = (case dict_get rs r of None \<Rightarrow> PNone | Some v \<Rightarrow> v)"

definition is_dict :: "pyval \<Rightarrow> bool" where
  "is_dict v = (case v of PDict _ \<Rightarrow> True | _ \<Rightarrow> False)"

definition host_value :: "pyval dict \<Rightarrow> string \<Rightarrow> pyval" where
  "host_value ph h = (case dict_get ph h of None \<Rightarrow> PNone | Some v \<Rightarrow> v)"

definition find_malformed_hosts :: "pyval dict \<Rightarrow> string list" where
  "find_malformed_hosts ph = sort (filter (\<lambda>h. \<not> is_dict (host_value ph h)) (dict_keys ph))"

text \<open>The pairs the two loops visit, in their order: a triple that is not empty, and its label.\<close>

definition region_labels :: "(pyval \<Rightarrow> string) \<Rightarrow> string \<Rightarrow> pyval dict \<Rightarrow> (triple \<times> string) list" where
  "region_labels rp h rs =
    filter (\<lambda>(t, _). t \<noteq> unassigned)
      (map (\<lambda>r. (triple_of rp (region_value rs r), h @ CHR '':'' # r)) (region_order rs))"

definition station_labels :: "(pyval \<Rightarrow> string) \<Rightarrow> pyval dict \<Rightarrow> (triple \<times> string) list" where
  "station_labels rp ph =
    concat (map (\<lambda>h. case host_value ph h of PDict rs \<Rightarrow> region_labels rp h rs | _ \<Rightarrow> []) (sort (dict_keys ph)))"

text \<open>\<open>seen.setdefault(triple, []).append(label)\<close>.\<close>

fun add_label :: "triple \<times> string \<Rightarrow> (triple \<times> string list) list \<Rightarrow> (triple \<times> string list) list" where
  "add_label (t, l) [] = [(t, [l])]"
| "add_label (t, l) ((u, ls) # seen) = (if u = t then (u, ls @ [l]) # seen else (u, ls) # add_label (t, l) seen)"

definition find_duplicate_stations :: "(pyval \<Rightarrow> string) \<Rightarrow> pyval dict \<Rightarrow> (triple \<times> string list) list" where
  "find_duplicate_stations rp ph = filter (\<lambda>(_, ls). 1 < length ls) (fold add_label (station_labels rp ph) [])"

text \<open>The listing; a line for a host that could not be read or has no stations is a constructor.\<close>

datatype report_line = Host_line string | Unreadable_line | Unassigned_line | Region_line string triple

definition region_lines :: "(pyval \<Rightarrow> string) \<Rightarrow> pyval dict \<Rightarrow> report_line list" where
  "region_lines rp rs =
    (let assigned = filter (\<lambda>(_, t). t \<noteq> unassigned) (map (\<lambda>r. (r, triple_of rp (region_value rs r))) (region_order rs))
     in if assigned = [] then [Unassigned_line] else map (\<lambda>(r, t). Region_line r t) assigned)"

definition format_report :: "(pyval \<Rightarrow> string) \<Rightarrow> pyval dict \<Rightarrow> report_line list" where
  "format_report rp ph =
    concat (map (\<lambda>h. Host_line h # (case host_value ph h of PDict rs \<Rightarrow> region_lines rp rs | _ \<Rightarrow> [Unreadable_line]))
      (sort (dict_keys ph)))"

text \<open>\<open>main\<close>: what it prints after the listing, and the exit code.\<close>

record sta_report =
  rp_listing :: "report_line list"
  rp_malformed :: "string list"
  rp_duplicates :: "(triple \<times> string list) list"
  rp_exit :: nat

definition input_refused :: sta_report where
  "input_refused = \<lparr>rp_listing = [], rp_malformed = [], rp_duplicates = [], rp_exit = 2\<rparr>"

definition report_main :: "(pyval \<Rightarrow> string) \<Rightarrow> string \<Rightarrow> sta_report py" where
  "report_main rp stdin = (case json_loads stdin of
      Inl e \<Rightarrow> if e = ValueError then Inr input_refused else Inl e
    | Inr v \<Rightarrow> (case v of
        PDict ph \<Rightarrow>
          (let bad = find_malformed_hosts ph; dups = find_duplicate_stations rp ph in
           Inr \<lparr>rp_listing = format_report rp ph, rp_malformed = bad, rp_duplicates = dups,
             rp_exit = (if dups \<noteq> [] then 1 else if bad \<noteq> [] then 2 else 0)\<rparr>)
      | _ \<Rightarrow> Inr input_refused))"

section \<open>The status of one child\<close>

record child_status =
  cs_ip :: string
  cs_hostname :: "string option"
  cs_picamera :: "string option"
  cs_web_server :: "string option"
  cs_model :: pyval
  cs_ready :: pyval
  cs_id_names :: "pyval dict"
  cs_unreachable :: bool

definition ssh_known :: "runner \<Rightarrow> string \<Rightarrow> string \<Rightarrow> string act" where
  "ssh_known r ip cmd = act_bind (call r (Ssh 8 False ip (Sh cmd) None)) (\<lambda>s. act_return (strip s))"

definition or_unknown :: "string \<Rightarrow> string" where
  "or_unknown s = (if s = [] then ''unknown'' else s)"

definition member_or_none :: "pyval dict \<Rightarrow> string \<Rightarrow> pyval" where
  "member_or_none d k = (case dict_get d k of None \<Rightarrow> PNone | Some v \<Rightarrow> if py_truthy v then v else PNone)"

text \<open>\<open>except (ValueError, TypeError): pass\<close>.\<close>

definition passed_over :: "py_exc \<Rightarrow> bool" where
  "passed_over e \<longleftrightarrow> e = ValueError \<or> e = TypeError"

definition model_status_of :: "string \<Rightarrow> (pyval \<times> pyval) py" where
  "model_status_of t = (case json_loads t of
      Inl e \<Rightarrow> if passed_over e then Inr (PNone, PNone) else Inl e
    | Inr v \<Rightarrow> (case v of PDict d \<Rightarrow> Inr (member_or_none d ''model_type'', member_or_none d ''status'') | _ \<Rightarrow> Inr (PNone, PNone)))"

definition id_names_of :: "string \<Rightarrow> pyval dict py" where
  "id_names_of t = (case json_loads t of
      Inl e \<Rightarrow> Inl e
    | Inr v \<Rightarrow> (case v of
        PDict d \<Rightarrow> (case dict_get d ''id_names'' of Some (PDict g) \<Rightarrow> Inr g | _ \<Rightarrow> Inr [])
      | _ \<Rightarrow> Inr []))"

definition read_id_names :: "runner \<Rightarrow> string \<Rightarrow> pyval dict act" where
  "read_id_names r ip =
    act_catch (act_bind (ssh_known r ip ''cat ~/id_names_config.json'') (\<lambda>t. act_lift (id_names_of t)))
      (\<lambda>e. if passed_over e then act_return [] else act_raise e)"

definition unreachable_child :: "string \<Rightarrow> child_status" where
  "unreachable_child ip = \<lparr>cs_ip = ip, cs_hostname = None, cs_picamera = None, cs_web_server = None, cs_model = PNone,
     cs_ready = PNone, cs_id_names = [], cs_unreachable = True\<rparr>"

definition collect_status :: "runner \<Rightarrow> string \<Rightarrow> child_status act" where
  "collect_status r ip =
    act_bind (ssh_known r ip ''hostname'') (\<lambda>hostname.
      if hostname = [] then act_return (unreachable_child ip)
      else act_bind (ssh_known r ip ''systemctl is-active picamera.service'') (\<lambda>cam.
        act_bind (ssh_known r ip ''systemctl is-active web_server.service'') (\<lambda>web.
        act_bind (call r (Curl_status ip)) (\<lambda>raw.
        act_bind (act_lift (model_status_of raw)) (\<lambda>(model, ready).
        act_bind (read_id_names r ip) (\<lambda>names.
          act_return \<lparr>cs_ip = ip, cs_hostname = Some hostname, cs_picamera = Some (or_unknown cam),
            cs_web_server = Some (or_unknown web), cs_model = model, cs_ready = ready, cs_id_names = names,
            cs_unreachable = False\<rparr>))))))"

section \<open>Facts on the labels\<close>

lemma add_label_get:
  "map_of (add_label (t, l) seen) u
   = (if u = t then Some ((case map_of seen t of None \<Rightarrow> [] | Some ls \<Rightarrow> ls) @ [l]) else map_of seen u)"
  by (induction "(t, l)" seen rule: add_label.induct) auto

lemma add_label_keys: "fst ` set (add_label p seen) = insert (fst p) (fst ` set seen)"
  by (induction p seen rule: add_label.induct) auto

lemma add_label_distinct: "distinct (map fst seen) \<Longrightarrow> distinct (map fst (add_label p seen))"
proof (induction p seen rule: add_label.induct)
  case (2 t l u ls seen)
  then show ?case using add_label_keys [of "(t, l)" seen] by auto
qed simp

definition labels_of :: "triple \<Rightarrow> (triple \<times> string) list \<Rightarrow> string list" where
  "labels_of t ps = map snd (filter (\<lambda>p. fst p = t) ps)"

lemma labels_collected:
  "distinct (map fst (fold add_label ps []))
   \<and> map_of (fold add_label ps []) t = (if labels_of t ps = [] then None else Some (labels_of t ps))"
proof (induction ps rule: rev_induct)
  case (snoc p ps)
  then show ?case by (cases p) (auto simp: add_label_get labels_of_def intro: add_label_distinct)
qed (simp add: labels_of_def)

lemma duplicate_iff:
  "(t, ls) \<in> set (find_duplicate_stations rp ph) \<longleftrightarrow> ls = labels_of t (station_labels rp ph) \<and> 1 < length ls"
  using labels_collected [of "station_labels rp ph" t]
  by (auto simp: find_duplicate_stations_def simp flip: map_of_eq_Some_iff split: if_splits)

text \<open>The regions the loops visit.\<close>

definition regions_at :: "pyval dict \<Rightarrow> string \<Rightarrow> string list" where
  "regions_at ph h = (case host_value ph h of PDict rs \<Rightarrow> region_order rs | _ \<Rightarrow> [])"

definition visited :: "pyval dict \<Rightarrow> (string \<times> string) list" where
  "visited ph = concat (map (\<lambda>h. map (Pair h) (regions_at ph h)) (sort (dict_keys ph)))"

definition triple_at :: "(pyval \<Rightarrow> string) \<Rightarrow> pyval dict \<Rightarrow> string \<times> string \<Rightarrow> triple" where
  "triple_at rp ph = (\<lambda>(h, r). case host_value ph h of PDict rs \<Rightarrow> triple_of rp (region_value rs r) | _ \<Rightarrow> unassigned)"

definition label_at :: "string \<times> string \<Rightarrow> string" where
  "label_at = (\<lambda>(h, r). h @ CHR '':'' # r)"

lemma labels_visited:
  "station_labels rp ph = filter (\<lambda>(t, _). t \<noteq> unassigned) (map (\<lambda>x. (triple_at rp ph x, label_at x)) (visited ph))"
proof -
  have "(case host_value ph h of PDict rs \<Rightarrow> region_labels rp h rs | _ \<Rightarrow> [])
      = filter (\<lambda>(t, _). t \<noteq> unassigned) (map (\<lambda>x. (triple_at rp ph x, label_at x)) (map (Pair h) (regions_at ph h)))" for h
    by (simp add: regions_at_def triple_at_def label_at_def region_labels_def comp_def split: pyval.split)
  then show ?thesis by (simp add: station_labels_def visited_def map_concat filter_concat comp_def)
qed

text \<open>Keys that stand once, as in a document that was read.\<close>

definition keys_once :: "pyval dict \<Rightarrow> bool" where
  "keys_once ph \<longleftrightarrow> distinct (dict_keys ph) \<and> (\<forall>h rs. dict_get ph h = Some (PDict rs) \<longrightarrow> distinct (dict_keys rs))"

lemma distinct_visited:
  assumes "keys_once ph"
  shows "distinct (visited ph)"
proof -
  have "distinct (map (Pair h) (regions_at ph h))" for h
    using assms by (auto simp: keys_once_def regions_at_def host_value_def region_order_def distinct_map inj_on_def
        split: pyval.split option.split)
  then have "distinct (concat (map (\<lambda>h. map (Pair h) (regions_at ph h)) hs))" if "distinct hs" for hs
    using that by (induction hs) auto
  moreover have "distinct (sort (dict_keys ph))" using assms by (simp add: keys_once_def)
  ultimately show ?thesis unfolding visited_def by blast
qed

text \<open>A region of a host that stands for the three station numbers.\<close>

definition stands_for :: "(pyval \<Rightarrow> string) \<Rightarrow> pyval dict \<Rightarrow> triple \<Rightarrow> string \<times> string \<Rightarrow> bool" where
  "stands_for rp ph t = (\<lambda>(h, r). case dict_get ph h of
      Some (PDict rs) \<Rightarrow> (case dict_get rs r of Some v \<Rightarrow> triple_of rp v = t | None \<Rightarrow> False)
    | _ \<Rightarrow> False)"

lemma visited_mem: "(h, r) \<in> set (visited ph) \<longleftrightarrow> h \<in> set (dict_keys ph) \<and> r \<in> set (regions_at ph h)"
  by (auto simp: visited_def)

lemma visited_stands: "x \<in> set (visited ph) \<and> triple_at rp ph x = t \<longleftrightarrow> stands_for rp ph t x"
proof (cases x)
  case (Pair h r)
  show ?thesis
  proof (cases "\<exists>rs. dict_get ph h = Some (PDict rs)")
    case True
    then obtain rs where rs: "dict_get ph h = Some (PDict rs)" by blast
    then have "h \<in> set (dict_keys ph)" using dict_get_None_iff [of ph h] by simp
    moreover have "regions_at ph h = region_order rs" using rs by (simp add: regions_at_def host_value_def)
    moreover have "triple_at rp ph (h, r) = triple_of rp (region_value rs r)" using rs by (simp add: triple_at_def host_value_def)
    ultimately have "x \<in> set (visited ph) \<and> triple_at rp ph x = t
        \<longleftrightarrow> r \<in> set (dict_keys rs) \<and> triple_of rp (region_value rs r) = t"
      unfolding Pair visited_mem by (simp add: region_order_def)
    also have "\<dots> \<longleftrightarrow> stands_for rp ph t x"
      using rs dict_get_None_iff [of rs r] by (cases "dict_get rs r") (simp_all add: Pair stands_for_def region_value_def)
    finally show ?thesis .
  next
    case False
    then have "regions_at ph h = []" by (auto simp: regions_at_def host_value_def split: option.split pyval.split)
    moreover have "\<not> stands_for rp ph t x"
      using False by (auto simp: Pair stands_for_def split: option.splits pyval.splits)
    ultimately show ?thesis unfolding Pair visited_mem by simp
  qed
qed

lemma two_in_filter:
  assumes "distinct xs"
  shows "1 < length (filter P xs) \<longleftrightarrow> (\<exists>x y. x \<noteq> y \<and> (x \<in> set xs \<and> P x) \<and> (y \<in> set xs \<and> P y))"
proof -
  have "length (filter P xs) = card (set (filter P xs))"
    using distinct_card [OF distinct_filter [OF assms], of P] by (rule sym)
  moreover have "card (set (filter P xs)) \<le> Suc 0 \<longleftrightarrow> (\<forall>x \<in> set (filter P xs). \<forall>y \<in> set (filter P xs). x = y)"
    by (rule card_le_Suc0_iff_eq) (rule finite_set)
  ultimately have "\<not> 1 < length (filter P xs) \<longleftrightarrow> (\<forall>x \<in> set (filter P xs). \<forall>y \<in> set (filter P xs). x = y)"
    by (simp only: not_less One_nat_def)
  then show ?thesis unfolding set_filter by blast
qed

lemma clash_reported:
  assumes "keys_once ph" and "t \<noteq> unassigned"
  shows "(\<exists>ls. (t, ls) \<in> set (find_duplicate_stations rp ph))
     \<longleftrightarrow> (\<exists>x y. x \<noteq> y \<and> stands_for rp ph t x \<and> stands_for rp ph t y)"
proof -
  have "labels_of t (station_labels rp ph) = map label_at (filter (\<lambda>x. triple_at rp ph x = t) (visited ph))"
  proof -
    have "(\<lambda>x. triple_at rp ph x \<noteq> unassigned \<and> triple_at rp ph x = t) = (\<lambda>x. triple_at rp ph x = t)" using assms(2) by auto
    then show ?thesis unfolding labels_visited labels_of_def by (simp add: filter_map comp_def)
  qed
  then have "(\<exists>ls. (t, ls) \<in> set (find_duplicate_stations rp ph)) \<longleftrightarrow> 1 < length (filter (\<lambda>x. triple_at rp ph x = t) (visited ph))"
    by (simp add: duplicate_iff)
  then show ?thesis unfolding two_in_filter [OF distinct_visited [OF assms(1)]] visited_stands .
qed

section \<open>The verdict of the report\<close>

definition clash :: "(pyval \<Rightarrow> string) \<Rightarrow> pyval dict \<Rightarrow> bool" where
  "clash rp ph \<longleftrightarrow> (\<exists>t x y. t \<noteq> unassigned \<and> x \<noteq> y \<and> stands_for rp ph t x \<and> stands_for rp ph t y)"

lemma clashI: "t \<noteq> unassigned \<Longrightarrow> x \<noteq> y \<Longrightarrow> stands_for rp ph t x \<Longrightarrow> stands_for rp ph t y \<Longrightarrow> clash rp ph"
  unfolding clash_def by blast

lemma reported_assigned: "(t, ls) \<in> set (find_duplicate_stations rp ph) \<Longrightarrow> t \<noteq> unassigned"
proof
  assume "(t, ls) \<in> set (find_duplicate_stations rp ph)" and "t = unassigned"
  then have "1 < length (labels_of unassigned (station_labels rp ph))" by (auto simp: duplicate_iff)
  moreover have "labels_of unassigned (station_labels rp ph) = []"
    by (simp add: labels_of_def labels_visited filter_map comp_def)
  ultimately show False by simp
qed

lemma duplicates_iff_clash:
  assumes "keys_once ph"
  shows "find_duplicate_stations rp ph \<noteq> [] \<longleftrightarrow> clash rp ph"
proof -
  have "find_duplicate_stations rp ph \<noteq> [] \<longleftrightarrow> (\<exists>t ls. (t, ls) \<in> set (find_duplicate_stations rp ph))"
    by (cases "find_duplicate_stations rp ph") (simp, metis list.set_intros(1) list.distinct(1) surj_pair)
  also have "\<dots> \<longleftrightarrow> (\<exists>t. t \<noteq> unassigned \<and> (\<exists>ls. (t, ls) \<in> set (find_duplicate_stations rp ph)))"
    using reported_assigned by blast
  also have "\<dots> \<longleftrightarrow> clash rp ph" using clash_reported [OF assms] unfolding clash_def by blast
  finally show ?thesis .
qed

text \<open>C19: the exit code of the station report is true: 1 exactly when two different regions, of one child or of
  two, stand for the same station numbers; 0 exactly when no two do and the stations of every child could be read.
\<close>

theorem report_clears_only_distinct_stations:
  assumes "json_loads stdin = Inr (PDict ph)" and "keys_once ph"
  shows "\<exists>rep. report_main rp stdin = Inr rep
     \<and> (rp_exit rep = 1) = clash rp ph
     \<and> (rp_exit rep = 0) = (\<not> clash rp ph \<and> list_all (\<lambda>h. is_dict (host_value ph h)) (dict_keys ph))"
proof -
  have "find_malformed_hosts ph = [] \<longleftrightarrow> list_all (\<lambda>h. is_dict (host_value ph h)) (dict_keys ph)"
    by (simp add: find_malformed_hosts_def filter_empty_conv list_all_iff flip: set_empty) blast
  then show ?thesis using duplicates_iff_clash [OF assms(2), of rp] assms(1)
    by (simp add: report_main_def Let_def)
qed

definition ex_report :: "pyval dict" where
  "ex_report = [(''zero1'', PDict [(''1'', PList [PStr ''A'', PStr ''B'', PStr ''C''])]),
     (''zero2'', PDict [(''4'', PList [PStr ''A'', PStr ''B '', PStr ''C''])])]"

lemma report_clears_only_distinct_stations_witness:
  "clash (\<lambda>_. []) ex_report
   \<and> (\<exists>rep. report_main (\<lambda>_. []) (json_dumps False (\<lambda>_. []) (PDict ex_report)) = Inr rep \<and> rp_exit rep = 1)"
proof -
  have j: "json_loads (json_dumps False (\<lambda>_. []) (PDict ex_report)) = Inr (PDict ex_report)" by code_simp
  have k: "keys_once ex_report"
    by (auto simp: keys_once_def ex_report_def dict_keys_def dict_get_def split: if_splits)
  have "clash (\<lambda>_. []) ex_report"
    by (rule clashI [of "(''A'', ''B'', ''C'')" "(''zero1'', ''1'')" "(''zero2'', ''4'')"]) code_simp+
  with report_clears_only_distinct_stations [OF j k, of "\<lambda>_. []"] show ?thesis by blast
qed

end
