(* ===== verification/Fleet_Send_Target.thy ===== *)
theory Fleet_Send_Target
  imports Fleet_Discovery "HOL-Library.Word"
begin

text \<open>
  \<open>fleet_ui/send_target.py\<close>: the records of a child have to go to the hub it hangs on. \<open>align_send_target\<close> sets
  the target on the child by one script over SSH and judges by what the script reads back from the running
  process. The script is modelled by what it does to a child; its text holds Japanese messages and is not.
\<close>

unbundle bit_operations_syntax

definition DEFAULT_GW :: string where "DEFAULT_GW = ''10.42.0.1''"

section \<open>Addresses\<close>

text \<open>\<open>ipaddress.IPv4Address\<close>: four decimal octets without leading zeros.\<close>

definition ipv4_octet :: "string \<Rightarrow> nat option" where
  "ipv4_octet p =
    (if p = [] \<or> \<not> list_all is_digit p \<or> 3 < length p \<or> (p \<noteq> ''0'' \<and> hd p = CHR ''0'') then None
     else (case int_digits p 0 of None \<Rightarrow> None | Some n \<Rightarrow> if n \<le> 255 then Some n else None))"

fun ipv4_octets :: "string list \<Rightarrow> nat list option" where
  "ipv4_octets [] = Some []"
| "ipv4_octets (p # ps) =
     (case ipv4_octet p of None \<Rightarrow> None | Some n \<Rightarrow> map_option (Cons n) (ipv4_octets ps))"

definition ipv4_parse :: "string \<Rightarrow> nat list option" where
  "ipv4_parse s = (let ps = split_on CHR ''.'' s in if length ps = 4 then ipv4_octets ps else None)"

definition ipv4_text :: "nat list \<Rightarrow> string" where
  "ipv4_text ns = join_with ''.'' (map nat_text ns)"

definition check_ipv4 :: "string \<Rightarrow> string py" where
  "check_ipv4 v = (case ipv4_parse v of
      Some ns \<Rightarrow> if ipv4_text ns = v then Inr v else Inl ValueError
    | None \<Rightarrow> Inl ValueError)"

definition ipv4_word :: "nat list \<Rightarrow> 32 word" where
  "ipv4_word ns = foldl (\<lambda>w n. 256 * w + of_nat n) 0 ns"

definition net_mask :: "nat \<Rightarrow> 32 word" where
  "net_mask prefix = push_bit (32 - prefix) (- 1)"

text \<open>
  \<open>ip_in_subnet\<close> for IPv4 texts. The callers pass a gateway that \<open>_check_ipv4\<close> accepted and an address of four
  numbers; with two IPv6 texts, which they never pass, the code would compare those.
\<close>

definition ip_in_subnet :: "string \<Rightarrow> string \<Rightarrow> nat \<Rightarrow> bool" where
  "ip_in_subnet ip gw prefix =
    (case (ipv4_parse gw, ipv4_parse ip) of
        (Some g, Some i) \<Rightarrow> prefix \<le> 32 \<and> ipv4_word i AND net_mask prefix = ipv4_word g AND net_mask prefix
      | _ \<Rightarrow> False)"

section \<open>The gateway of \<open>site.env\<close>\<close>

definition GW_KEY :: string where "GW_KEY = ''AP_GW_IP=''"

text \<open>The last \<open>AP_GW_IP=\<close> line counts.\<close>

definition gw_line :: "string \<Rightarrow> string \<Rightarrow> string" where
  "gw_line l value = (if starts_with GW_KEY l then unquote_pair (strip (drop (length GW_KEY) l)) else value)"

definition ap_gw_ip_of :: "string option \<Rightarrow> string py" where
  "ap_gw_ip_of f = (case f of None \<Rightarrow> Inr DEFAULT_GW
     | Some t \<Rightarrow> (let value = fold gw_line (splitlines t) [] in
         if value = [] then Inr DEFAULT_GW else check_ipv4 value))"

definition load_ap_gw_ip :: "string \<Rightarrow> string act" where
  "load_ap_gw_ip repo = act_bind (read_file (repo @ ''/site.env'')) (\<lambda>f. act_lift (ap_gw_ip_of f))"

section \<open>The script on the child\<close>

text \<open>
  \<open>~/send_target_config.json\<close> by its parsed content, the address in the drop-in of the service that publishes the
  records, its \<open>MainPID\<close>, and the environment that process was started with, by its \<open>KEY=value\<close> entries.
\<close>

datatype json_file = No_file | Broken_file | Doc pyval

record child_dev =
  cd_config :: json_file
  cd_dropin :: "string option"
  cd_pid :: nat
  cd_environ :: "string list"

text \<open>
  What the child's system and the other programs on it do on the calls of the script, whatever it is: whether the
  drop-in can be written, the reload and the restart succeed; the \<open>MainPID\<close> at each of the tries after the restart,
  the environment that process has, and whether \<open>/proc/<pid>/environ\<close> can be read; what other writers have made of
  the configuration file by the time it is read back (the identity when there are none); the environment systemd
  says it has loaded, the state of the service and of the join profile. Nothing ties the environment of the process
  to the drop-in: a process can run with another one, and the script reads it for that reason.
\<close>

record child_os =
  co_dropin_ok :: bool
  co_reload_ok :: bool
  co_restart_ok :: bool
  co_pid_at :: "nat \<Rightarrow> nat"
  co_environ_at :: "nat \<Rightarrow> string list"
  co_readable_at :: "nat \<Rightarrow> bool"
  co_others_write :: "json_file \<Rightarrow> json_file"
  co_env_now :: string
  co_active :: string
  co_join_profile :: string

definition RESTART_WAIT_TRIES :: nat where "RESTART_WAIT_TRIES = 10"

text \<open>\<open>_PY_ALIGN_JSON\<close>: only \<open>host\<close> is replaced; a broken document or one that is no object is left alone.\<close>

definition align_json :: "string \<Rightarrow> json_file \<Rightarrow> json_file option" where
  "align_json gw f = (case f of
      No_file \<Rightarrow> Some (Doc (PDict (dict_set ''host'' (PStr gw) [])))
    | Broken_file \<Rightarrow> None
    | Doc v \<Rightarrow> (case v of PDict d \<Rightarrow> Some (Doc (PDict (dict_set ''host'' (PStr gw) d))) | _ \<Rightarrow> None))"

text \<open>
  The wait for the new process: the id and the environment at the last try, and whether they are those of a new
  process whose environment could be read. An empty file counts as unreadable.
\<close>

fun wait_process :: "child_os \<Rightarrow> nat \<Rightarrow> nat list \<Rightarrow> nat \<times> string list \<Rightarrow> (nat \<times> string list) \<times> bool" where
  "wait_process co before [] prev = (prev, False)"
| "wait_process co before (i # is) prev =
     (let now = co_pid_at co i in
      if now \<noteq> 0 \<and> now \<noteq> before \<and> co_readable_at co i \<and> co_environ_at co i \<noteq> []
      then ((now, co_environ_at co i), True)
      else wait_process co before is (now, co_environ_at co i))"

definition MQTT_KEY :: string where "MQTT_KEY = ''MQTT_HOST=''"

text \<open>\<open>tr '\0' '\n' | grep '^MQTT_HOST=' | tail -n 1 | cut -d= -f2-\<close>\<close>

definition proc_mqtt_host :: "string list \<Rightarrow> string" where
  "proc_mqtt_host env =
    (let ls = filter (starts_with MQTT_KEY) (concat (map (split_on nl) env)) in
     if ls = [] then [] else drop (length MQTT_KEY) (last ls))"

text \<open>What the process itself takes from its environment (\<open>child-csv-to-mqtt.py\<close>): the first entry of the name.\<close>

definition process_target :: "string list \<Rightarrow> string" where
  "process_target env = (case find (starts_with MQTT_KEY) env of
      None \<Rightarrow> DEFAULT_GW | Some e \<Rightarrow> drop (length MQTT_KEY) e)"

definition out_line :: "string \<Rightarrow> string \<Rightarrow> string" where
  "out_line k v = k @ CHR ''='' # v @ [nl]"

text \<open>The value of \<open>host\<close> that \<open>_PY_READ_HOST\<close> prints, as the shell's \<open>$(...)\<close> takes it over.\<close>

definition host_of :: "(pyval \<Rightarrow> string) \<Rightarrow> json_file \<Rightarrow> string" where
  "host_of rp f = (case f of
      Doc (PDict d) \<Rightarrow> rev (dropWhile (\<lambda>c. c = nl) (rev (py_str rp (case dict_get d ''host'' of None \<Rightarrow> PStr [] | Some v \<Rightarrow> v))))
    | _ \<Rightarrow> [])"

text \<open>The report after a restart.\<close>

definition align_report :: "(pyval \<Rightarrow> string) \<Rightarrow> child_os \<Rightarrow> child_dev \<Rightarrow> bool \<Rightarrow> string" where
  "align_report rp co c env_ok =
     out_line ''PID_NOW'' (nat_text (cd_pid c))
   @ out_line ''PROC_ENV'' (if env_ok then ''ok'' else ''unreadable'')
   @ out_line ''PROC_MQTT_HOST'' (if env_ok then proc_mqtt_host (cd_environ c) else [])
   @ out_line ''HOST_NOW'' (host_of rp (cd_config c))
   @ out_line ''ENV_NOW'' (co_env_now co)
   @ out_line ''ACTIVE_NOW'' (co_active co)
   @ out_line ''JOIN_PROFILE'' (co_join_profile co)"

text \<open>The script: what it prints and the child after it. The texts of \<open>ALIGN_ERROR\<close> are given by the step.\<close>

definition run_align_script ::
  "(string \<Rightarrow> string) \<Rightarrow> (pyval \<Rightarrow> string) \<Rightarrow> child_os \<Rightarrow> string \<Rightarrow> child_dev \<Rightarrow> string \<times> child_dev" where
  "run_align_script err rp co gw c =
    (case align_json gw (cd_config c) of
        None \<Rightarrow> (out_line ''ALIGN_ERROR'' (err ''json''), c)
      | Some f \<Rightarrow>
          (let c1 = c\<lparr>cd_config := f\<rparr> in
           if \<not> co_dropin_ok co then (out_line ''ALIGN_ERROR'' (err ''dropin''), c1)
           else
             (let c2 = c1\<lparr>cd_dropin := (if gw = DEFAULT_GW then None else Some gw)\<rparr>;
                  before = out_line ''PID_BEFORE'' (nat_text (cd_pid c2)) in
              if \<not> co_reload_ok co then (before @ out_line ''ALIGN_ERROR'' (err ''reload''), c2)
              else if \<not> co_restart_ok co then (before @ out_line ''ALIGN_ERROR'' (err ''restart''), c2)
              else
                (case wait_process co (cd_pid c2) [0..<RESTART_WAIT_TRIES] (0, []) of ((pid, env), env_ok) \<Rightarrow>
                   (let c3 = c2\<lparr>cd_pid := pid, cd_environ := env, cd_config := co_others_write co (cd_config c2)\<rparr>
                    in (before @ align_report rp co c3 env_ok, c3))))))"

section \<open>The verdict\<close>

definition READBACK_KEYS :: "string list" where
  "READBACK_KEYS = [''HOST_NOW'', ''ENV_NOW'', ''ACTIVE_NOW'', ''JOIN_PROFILE'', ''ALIGN_ERROR'',
     ''PID_BEFORE'', ''PID_NOW'', ''PROC_ENV'', ''PROC_MQTT_HOST'']"

definition readback_line :: "string \<Rightarrow> string dict \<Rightarrow> string dict" where
  "readback_line l d = (case partition_on CHR ''='' l of (k, sep, v) \<Rightarrow>
     if sep \<and> k \<in> set READBACK_KEYS then dict_set k (strip v) d else d)"

text \<open>The keys are written in capitals here, where the code lowers them.\<close>

definition parse_align_output :: "string \<Rightarrow> string dict" where
  "parse_align_output t = fold readback_line (splitlines t) (map (\<lambda>k. (k, [])) READBACK_KEYS)"

definition rb :: "string dict \<Rightarrow> string \<Rightarrow> string" where
  "rb d k = (case dict_get d k of None \<Rightarrow> [] | Some v \<Rightarrow> v)"

text \<open>\<open>str.isdigit()\<close> also holds of the superscript digits, which \<open>int()\<close> refuses.\<close>

definition isdigit_str :: "string \<Rightarrow> bool" where
  "isdigit_str s \<longleftrightarrow> s \<noteq> [] \<and> list_all (\<lambda>c. is_digit c \<or> code c \<in> {178, 179, 185}) s"

definition restarted :: "string \<Rightarrow> string \<Rightarrow> bool py" where
  "restarted pid_now pid_before =
    (if \<not> isdigit_str pid_now then Inr False
     else (case int_of_text pid_now of None \<Rightarrow> Inl ValueError | Some n \<Rightarrow> Inr (n \<noteq> 0 \<and> pid_now \<noteq> pid_before)))"

definition process_problems :: "string \<Rightarrow> string dict \<Rightarrow> bool \<Rightarrow> align_problem list" where
  "process_problems gw r again =
    (if \<not> again then [Not_restarted (rb r ''PID_BEFORE'') (rb r ''PID_NOW'')]
     else if rb r ''PROC_ENV'' \<noteq> ''ok'' then [Env_unreadable (rb r ''PID_NOW'')]
     else
       (let mqtt = rb r ''PROC_MQTT_HOST'' in
        if gw = DEFAULT_GW then (if mqtt \<notin> {[], DEFAULT_GW} then [Mqtt_host_left mqtt] else [])
        else if mqtt \<noteq> gw then [Mqtt_host_is gw mqtt] else []))"

definition align_problems :: "string \<Rightarrow> string dict \<Rightarrow> align_problem list py" where
  "align_problems gw r =
    (let host = rb r ''HOST_NOW'';
         p1 = (if host = [] then [if rb r ''ALIGN_ERROR'' \<noteq> [] then Align_error (rb r ''ALIGN_ERROR'') else Not_read_back]
               else if host \<noteq> gw then [Host_stays host gw] else [])
     in if host = [] then Inr p1
        else py_bind (restarted (rb r ''PID_NOW'') (rb r ''PID_BEFORE'')) (\<lambda>again.
          Inr (p1 @ process_problems gw r again
             @ (if rb r ''ACTIVE_NOW'' \<noteq> ''active'' then [Not_active (rb r ''ACTIVE_NOW'')] else []))))"

definition host_arg_char :: "char \<Rightarrow> bool" where
  "host_arg_char c \<longleftrightarrow> is_lower_az c \<or> is_upper_az c \<or> is_digit c \<or> c \<in> set ''._-''"

text \<open>\<open>^[A-Za-z0-9][A-Za-z0-9._-]*\Z\<close>.\<close>

definition safe_host :: "string \<Rightarrow> bool" where
  "safe_host h = (case h of [] \<Rightarrow> False
     | c # cs \<Rightarrow> (is_lower_az c \<or> is_upper_az c \<or> is_digit c) \<and> list_all host_arg_char cs)"

text \<open>
  The code first tries the runner with an \<open>input_text\<close> argument and repeats the call without it when the runner
  does not take one, which is one call here.
\<close>

definition align_send_target :: "runner \<Rightarrow> string \<Rightarrow> string \<Rightarrow> step_result act" where
  "align_send_target r host gw =
    act_bind (act_lift (check_ipv4 gw)) (\<lambda>_.
      if \<not> safe_host host then act_return (step_fail (MsgAlignHost host) (Out []))
      else act_bind (call r (Ssh 8 True host (Align_script gw) None)) (\<lambda>out.
        act_bind (act_lift (align_problems gw (parse_align_output out))) (\<lambda>ps.
          act_return (if ps \<noteq> [] then step_fail (MsgAlignProblems ps) (Out out)
                      else step_ok (MsgAligned gw) (Out out)))))"

lemma keeps_align [act_keeps]: "keeps P (align_send_target r host gw)"
  unfolding align_send_target_def by (intro act_keeps)


section \<open>Facts\<close>

lemma int_of_nat_text [simp]: "int_of_text (nat_text n) = Some (int n)"
  using int_text_roundtrip [of "int n"] by (simp add: int_text_def)

lemma restarted_nat_text [simp]: "restarted (nat_text a) (nat_text b) = Inr (a \<noteq> 0 \<and> a \<noteq> b)"
proof -
  have "isdigit_str (nat_text a)" using nat_text_digits [of a] by (auto simp: isdigit_str_def list_all_iff)
  then show ?thesis by (simp add: restarted_def)
qed

lemma ipv4_octet_digits: "ipv4_octet p = Some n \<Longrightarrow> p \<noteq> [] \<and> list_all is_digit p"
  by (auto simp: ipv4_octet_def split: if_splits)

lemma ipv4_octets_digits: "ipv4_octets ps = Some ns \<Longrightarrow> \<forall>p \<in> set ps. p \<noteq> [] \<and> list_all is_digit p"
  by (induction ps arbitrary: ns) (auto dest: ipv4_octet_digits split: option.splits)

lemma check_ipv4_chars:
  assumes "check_ipv4 v = Inr u"
  shows "u = v" and "v \<noteq> []" and "\<forall>c \<in> set v. is_digit c \<or> c = CHR ''.''"
proof -
  obtain ns where p: "ipv4_parse v = Some ns" using assms by (auto simp: check_ipv4_def split: option.splits)
  show "u = v" using assms by (auto simp: check_ipv4_def split: option.splits if_splits)
  have d: "\<forall>q \<in> set (split_on CHR ''.'' v). q \<noteq> [] \<and> list_all is_digit q" and l: "length (split_on CHR ''.'' v) = 4"
    using p ipv4_octets_digits by (auto simp: ipv4_parse_def Let_def split: if_splits)
  show "v \<noteq> []" using l by auto
  have "set (join_with [sep] ps) \<subseteq> insert sep (\<Union> (set ` set ps))" for sep :: char and ps
    by (induction "[sep]" ps rule: join_with.induct) auto
  then have "set v \<subseteq> insert CHR ''.'' (\<Union> (set ` set (split_on CHR ''.'' v)))"
    by (metis join_split)
  then show "\<forall>c \<in> set v. is_digit c \<or> c = CHR ''.''" using d by (fastforce simp: list_all_iff)
qed

lemma check_ipv4_text:
  assumes "check_ipv4 v = Inr u"
  shows "strip v = v" and "\<forall>c \<in> set v. \<not> is_newline c"
proof -
  have "\<forall>c \<in> set v. \<not> is_space c"
  proof
    fix c assume "c \<in> set v"
    then have "is_digit c \<or> c = CHR ''.''" using check_ipv4_chars(3) [OF assms] by blast
    moreover have "\<not> is_space CHR ''.''" by (simp add: is_space_def)
    ultimately show "\<not> is_space c" using is_digit_not_space by blast
  qed
  then show "strip v = v" and "\<forall>c \<in> set v. \<not> is_newline c"
    using strip_idem is_newline_space by blast+
qed

subsection \<open>The report is read back\<close>

definition one_line :: "string \<Rightarrow> bool" where
  "one_line s \<longleftrightarrow> (\<forall>c \<in> set s. \<not> is_newline c)"

definition report_text :: "(string \<times> string) list \<Rightarrow> string" where
  "report_text kvs = concat (map (\<lambda>(k, v). out_line k v) kvs)"

lemma readback_keys_plain:
  assumes "k \<in> set READBACK_KEYS"
  shows "CHR ''='' \<notin> set k \<and> one_line k"
proof -
  have "list_all (\<lambda>k. list_all (\<lambda>c. c \<noteq> CHR ''='' \<and> \<not> is_newline c) k) READBACK_KEYS" by code_simp
  then show ?thesis using assms by (auto simp: list_all_iff one_line_def)
qed

lemma parse_report:
  assumes "\<forall>p \<in> set kvs. fst p \<in> set READBACK_KEYS \<and> one_line (snd p)"
  shows "parse_align_output (report_text kvs)
    = fold (\<lambda>(k, v). dict_set k (strip v)) kvs (map (\<lambda>k. (k, [])) READBACK_KEYS)"
proof -
  let ?line = "\<lambda>(k, v). k @ CHR ''='' # v"
  have eq: "\<not> is_newline CHR ''=''" by (simp add: is_newline_def)
  have "\<forall>l \<in> set (map ?line kvs). \<forall>c \<in> set l. \<not> is_newline c"
    using assms readback_keys_plain eq by (fastforce simp: one_line_def)
  from splitlines_lines [OF this] have sp: "splitlines (report_text kvs) = map ?line kvs"
    by (simp add: report_text_def out_line_def case_prod_unfold comp_def)
  have "fold readback_line (map ?line kvs) d = fold (\<lambda>(k, v). dict_set k (strip v)) kvs d" for d
    using assms
  proof (induction kvs arbitrary: d)
    case (Cons p kvs)
    obtain k v where p: "p = (k, v)" by (cases p)
    with Cons.prems have k: "k \<in> set READBACK_KEYS" by simp
    have "partition_on CHR ''='' (k @ CHR ''='' # v) = (k, True, v)"
      by (rule partition_on_first) (use readback_keys_plain [OF k] in blast)
    with k have "readback_line (?line p) d = dict_set k (strip v) d" by (simp add: readback_line_def p)
    with Cons p show ?case by simp
  qed simp
  then show ?thesis by (simp only: parse_align_output_def sp)
qed

lemma fold_set_get:
  "dict_get (fold (\<lambda>(k, v). dict_set k (f v)) kvs d) j
   = (case map_of (rev kvs) j of None \<Rightarrow> dict_get d j | Some v \<Rightarrow> Some (f v))"
  by (induction kvs arbitrary: d) (auto simp: map_add_def split: option.split)

lemma rb_report:
  assumes "\<forall>p \<in> set kvs. fst p \<in> set READBACK_KEYS \<and> one_line (snd p)" and "k \<in> set READBACK_KEYS"
  shows "rb (parse_align_output (report_text kvs)) k = (case map_of (rev kvs) k of None \<Rightarrow> [] | Some v \<Rightarrow> strip v)"
proof -
  have "dict_get (map (\<lambda>k. (k, [])) READBACK_KEYS) k = Some ([] :: string)"
    using assms(2) by (auto simp: READBACK_KEYS_def dict_get_def)
  then show ?thesis by (simp add: rb_def parse_report [OF assms(1)] fold_set_get split: option.split)
qed

subsection \<open>The verdict and the child\<close>

text \<open>The first try at which a new process runs whose environment can be read.\<close>

definition new_process_at :: "child_os \<Rightarrow> child_dev \<Rightarrow> nat option" where
  "new_process_at co c = find (\<lambda>i. co_pid_at co i \<noteq> 0 \<and> co_pid_at co i \<noteq> cd_pid c \<and> co_readable_at co i
     \<and> co_environ_at co i \<noteq> []) [0..<RESTART_WAIT_TRIES]"

lemma wait_process_find:
  "wait_process co (cd_pid c) is prev = ((pid, env), ok) \<Longrightarrow>
   (case find (\<lambda>i. co_pid_at co i \<noteq> 0 \<and> co_pid_at co i \<noteq> cd_pid c \<and> co_readable_at co i \<and> co_environ_at co i \<noteq> []) is of
      None \<Rightarrow> \<not> ok
    | Some i \<Rightarrow> ok \<and> pid = co_pid_at co i \<and> env = co_environ_at co i \<and> pid \<noteq> 0 \<and> pid \<noteq> cd_pid c)"
  by (induction "is" arbitrary: prev) (auto simp: Let_def split: if_splits)

text \<open>An address is the hub's; for the address the program takes by itself, no setting at all will do.\<close>

definition fits :: "string \<Rightarrow> string \<Rightarrow> bool" where
  "fits gw h \<longleftrightarrow> h = gw \<or> (gw = DEFAULT_GW \<and> h = [])"

text \<open>
  Everything the script does goes through, and what is then found on the child is this hub's address: in the file
  as it is read back, and in the environment of the first new process. \<open>strip\<close> because the answer is read so.
\<close>

definition script_succeeds :: "(pyval \<Rightarrow> string) \<Rightarrow> child_os \<Rightarrow> string \<Rightarrow> child_dev \<Rightarrow> bool" where
  "script_succeeds rp co gw c \<longleftrightarrow>
     (case align_json gw (cd_config c) of None \<Rightarrow> False | Some f \<Rightarrow> strip (host_of rp (co_others_write co f)) = gw)
     \<and> co_dropin_ok co \<and> co_reload_ok co \<and> co_restart_ok co
     \<and> (case new_process_at co c of None \<Rightarrow> False | Some i \<Rightarrow> fits gw (strip (proc_mqtt_host (co_environ_at co i))))
     \<and> strip (co_active co) = ''active''"

text \<open>
  The file and the process of the child both name the hub, and the process is a new one. An \<open>MQTT_HOST\<close> without a value
  is an address of its own for the process, and the script takes it for none; hence \<open>fits\<close> here too.
\<close>

definition sends_to :: "(pyval \<Rightarrow> string) \<Rightarrow> string \<Rightarrow> child_dev \<Rightarrow> child_dev \<Rightarrow> bool" where
  "sends_to rp gw before c \<longleftrightarrow> strip (host_of rp (cd_config c)) = gw \<and> cd_pid c \<noteq> 0 \<and> cd_pid c \<noteq> cd_pid before
     \<and> fits gw (strip (process_target (cd_environ c)))"

text \<open>
  An environment the script's pipeline reads as the process does: one entry of the name, and no line break in an
  entry.
\<close>

definition plain_environ :: "string list \<Rightarrow> bool" where
  "plain_environ env \<longleftrightarrow> list_all (\<lambda>e. nl \<notin> set e) env \<and> length (filter (starts_with MQTT_KEY) env) \<le> 1"

lemma plain_lines:
  assumes "plain_environ env"
  shows "concat (map (split_on nl) env) = env"
proof -
  have "map (split_on nl) env = map (\<lambda>e. [e]) env"
    using assms by (auto simp: plain_environ_def list_all_iff split_on_no_sep)
  then show ?thesis by (simp only: concat_map_singleton) simp
qed

lemma process_target_of:
  assumes "plain_environ env"
  shows "process_target env = (if filter (starts_with MQTT_KEY) env = [] then DEFAULT_GW else proc_mqtt_host env)"
proof (cases "filter (starts_with MQTT_KEY) env")
  case Nil
  then have "find (starts_with MQTT_KEY) env = None" by (simp add: filter_empty_conv find_None_iff)
  then show ?thesis by (simp add: process_target_def Nil)
next
  case (Cons e es)
  with assms have es: "filter (starts_with MQTT_KEY) env = [e]" by (simp add: plain_environ_def)
  then have "find (starts_with MQTT_KEY) env = Some e" by (induction env) (auto split: if_splits)
  then show ?thesis by (simp add: process_target_def proc_mqtt_host_def plain_lines [OF assms] es Let_def)
qed

lemma align_json_host: "align_json gw f = Some g \<Longrightarrow> \<exists>d. g = Doc (PDict d) \<and> dict_get d ''host'' = Some (PStr gw)"
  by (auto simp: align_json_def split: json_file.splits pyval.splits) (simp add: dict_get_def)

lemma problems_of_readback:
  assumes "rb r ''PID_BEFORE'' = nat_text b" "rb r ''PID_NOW'' = nat_text pid" "rb r ''HOST_NOW'' = host" "gw \<noteq> []"
    and "rb r ''PROC_ENV'' = (if ok then ''ok'' else ''unreadable'')" "rb r ''PROC_MQTT_HOST'' = h"
    and "rb r ''ACTIVE_NOW'' = act"
  shows "\<exists>ps. align_problems gw r = Inr ps
    \<and> (ps = [] \<longleftrightarrow> host = gw \<and> pid \<noteq> 0 \<and> pid \<noteq> b \<and> ok \<and> fits gw h \<and> act = ''active'')"
proof (cases "host = []")
  case True
  then show ?thesis using assms(4) by (simp add: align_problems_def assms(3) Let_def)
next
  case False
  have proc: "process_problems gw r again = [] \<longleftrightarrow> again \<and> ok \<and> fits gw h" for again
    using assms(4) by (auto simp: process_problems_def assms(5,6) Let_def fits_def)
  have "align_problems gw r = Inr ((if host \<noteq> gw then [Host_stays host gw] else [])
      @ process_problems gw r (pid \<noteq> 0 \<and> pid \<noteq> b) @ (if act \<noteq> ''active'' then [Not_active act] else []))"
    using False by (simp add: align_problems_def assms(1-3,7) Let_def)
  then show ?thesis by (auto simp: proc)
qed

lemma failed_script_problems:
  assumes "one_line e" and "\<forall>p \<in> set pre. fst p = ''PID_BEFORE'' \<and> one_line (snd p)"
  shows "\<exists>q. align_problems gw (parse_align_output (report_text (pre @ [(''ALIGN_ERROR'', e)]))) = Inr [q]"
proof -
  let ?kvs = "pre @ [(''ALIGN_ERROR'', e)]"
  have k: "\<forall>p \<in> set ?kvs. fst p \<in> set READBACK_KEYS \<and> one_line (snd p)"
    using assms by (auto simp: READBACK_KEYS_def)
  have "map_of (rev ?kvs) ''HOST_NOW'' = None" using assms(2) by (force simp: map_of_eq_None_iff)
  then have "rb (parse_align_output (report_text ?kvs)) ''HOST_NOW'' = []"
    using rb_report [OF k, of "''HOST_NOW''"] by (simp add: READBACK_KEYS_def)
  then show ?thesis by (simp add: align_problems_def Let_def)
qed

lemma align_report_pairs:
  "out_line ''PID_BEFORE'' b @ align_report rp co c ok = report_text
    [(''PID_BEFORE'', b), (''PID_NOW'', nat_text (cd_pid c)), (''PROC_ENV'', if ok then ''ok'' else ''unreadable''),
     (''PROC_MQTT_HOST'', if ok then proc_mqtt_host (cd_environ c) else []), (''HOST_NOW'', host_of rp (cd_config c)),
     (''ENV_NOW'', co_env_now co), (''ACTIVE_NOW'', co_active co), (''JOIN_PROFILE'', co_join_profile co)]"
  by (simp add: align_report_def report_text_def)

lemma one_line_nat_text [simp]: "one_line (nat_text n)"
  using nat_text_digits [of n] is_digit_not_space is_newline_space unfolding one_line_def by blast

lemma full_report_problems:
  assumes gw: "check_ipv4 gw = Inr u" and lines: "one_line (co_env_now co)" "one_line (co_active co)" "one_line (co_join_profile co)"
    and host: "one_line (host_of rp (cd_config c))" and h: "ok \<longrightarrow> one_line (proc_mqtt_host (cd_environ c))"
  shows "\<exists>ps. align_problems gw (parse_align_output (out_line ''PID_BEFORE'' (nat_text b) @ align_report rp co c ok)) = Inr ps
    \<and> (ps = [] \<longleftrightarrow> strip (host_of rp (cd_config c)) = gw \<and> cd_pid c \<noteq> 0 \<and> cd_pid c \<noteq> b \<and> ok
         \<and> fits gw (strip (proc_mqtt_host (cd_environ c))) \<and> strip (co_active co) = ''active'')"
proof -
  let ?h = "if ok then proc_mqtt_host (cd_environ c) else []"
  let ?kvs = "[(''PID_BEFORE'', nat_text b), (''PID_NOW'', nat_text (cd_pid c)), (''PROC_ENV'', if ok then ''ok'' else ''unreadable''),
     (''PROC_MQTT_HOST'', ?h), (''HOST_NOW'', host_of rp (cd_config c)),
     (''ENV_NOW'', co_env_now co), (''ACTIVE_NOW'', co_active co), (''JOIN_PROFILE'', co_join_profile co)]"
  have gwl: "gw \<noteq> []" using check_ipv4_chars [OF gw] by simp
  have okl: "one_line (if ok then ''ok'' else ''unreadable'')" by (simp add: one_line_def is_newline_def)
  have hl: "one_line ?h" using h by (simp add: one_line_def)
  have k: "\<forall>p \<in> set ?kvs. fst p \<in> set READBACK_KEYS \<and> one_line (snd p)"
    using host hl okl lines by (simp add: READBACK_KEYS_def)
  let ?r = "parse_align_output (report_text ?kvs)"
  have str: "strip ''ok'' = ''ok''" "strip ''unreadable'' = ''unreadable''" by (code_simp, code_simp)
  have "\<exists>ps. align_problems gw ?r = Inr ps \<and> (ps = [] \<longleftrightarrow> strip (host_of rp (cd_config c)) = gw \<and> cd_pid c \<noteq> 0
      \<and> cd_pid c \<noteq> b \<and> ok \<and> fits gw (strip ?h) \<and> strip (co_active co) = ''active'')"
  proof (rule problems_of_readback)
    show "rb ?r ''PID_BEFORE'' = nat_text b" using rb_report [OF k, of "''PID_BEFORE''"] by (simp add: READBACK_KEYS_def)
    show "rb ?r ''PID_NOW'' = nat_text (cd_pid c)" using rb_report [OF k, of "''PID_NOW''"] by (simp add: READBACK_KEYS_def)
    show "rb ?r ''HOST_NOW'' = strip (host_of rp (cd_config c))"
      using rb_report [OF k, of "''HOST_NOW''"] by (simp add: READBACK_KEYS_def)
    show "rb ?r ''PROC_ENV'' = (if ok then ''ok'' else ''unreadable'')"
      using rb_report [OF k, of "''PROC_ENV''"] str by (simp add: READBACK_KEYS_def)
    show "rb ?r ''PROC_MQTT_HOST'' = strip ?h" using rb_report [OF k, of "''PROC_MQTT_HOST''"] by (simp add: READBACK_KEYS_def)
    show "rb ?r ''ACTIVE_NOW'' = strip (co_active co)" using rb_report [OF k, of "''ACTIVE_NOW''"] by (simp add: READBACK_KEYS_def)
  qed (rule gwl)
  then show ?thesis unfolding align_report_pairs by (cases ok) simp_all
qed

text \<open>What the script accepts in an environment it reads as the process does is this hub's address for the process.\<close>

lemma sends_to_fits:
  assumes "check_ipv4 gw = Inr u" and "plain_environ env" and "fits gw (strip (proc_mqtt_host env))"
  shows "fits gw (strip (process_target env))"
proof (cases "filter (starts_with MQTT_KEY) env = []")
  case True
  then have "proc_mqtt_host env = []" by (simp add: proc_mqtt_host_def plain_lines [OF assms(2)])
  then have "gw = DEFAULT_GW" using assms(3) check_ipv4_chars(2) [OF assms(1)] by (simp add: fits_def strip_noop)
  moreover have "strip DEFAULT_GW = DEFAULT_GW" by code_simp
  ultimately show ?thesis by (simp add: process_target_of [OF assms(2)] True fits_def)
next
  case False
  then show ?thesis using assms(3) by (simp add: process_target_of [OF assms(2)])
qed

text \<open>The lines the child answers with are lines: none of the texts in them holds a line break.\<close>

definition answers_in_lines :: "(string \<Rightarrow> string) \<Rightarrow> (pyval \<Rightarrow> string) \<Rightarrow> child_os \<Rightarrow> string \<Rightarrow> child_dev \<Rightarrow> bool" where
  "answers_in_lines err rp co gw c \<longleftrightarrow> one_line (co_env_now co) \<and> one_line (co_active co) \<and> one_line (co_join_profile co)
     \<and> (\<forall>k. one_line (err k)) \<and> (\<forall>i. one_line (proc_mqtt_host (co_environ_at co i)))
     \<and> (case align_json gw (cd_config c) of None \<Rightarrow> True | Some f \<Rightarrow> one_line (host_of rp (co_others_write co f)))"

lemma script_problems:
  assumes gw: "check_ipv4 gw = Inr u" and lines: "answers_in_lines err rp co gw c"
  shows "\<exists>ps. align_problems gw (parse_align_output (fst (run_align_script err rp co gw c))) = Inr ps
      \<and> (ps = [] \<longleftrightarrow> script_succeeds rp co gw c)
      \<and> (ps = [] \<longrightarrow> (\<forall>i. plain_environ (co_environ_at co i)) \<longrightarrow> sends_to rp gw c (snd (run_align_script err rp co gw c)))"
proof -
  let ?out = "fst (run_align_script err rp co gw c)"
  have failed: "?thesis" if "\<not> script_succeeds rp co gw c"
    and "?out = report_text (pre @ [(''ALIGN_ERROR'', err k)])" "\<forall>p \<in> set pre. fst p = ''PID_BEFORE'' \<and> one_line (snd p)" for pre k
  proof -
    have "one_line (err k)" using lines by (simp add: answers_in_lines_def)
    from failed_script_problems [OF this that(3), of gw] that(1,2) show ?thesis by auto
  qed
  let ?b = "[(''PID_BEFORE'', nat_text (cd_pid c))]"
  consider (json) "align_json gw (cd_config c) = None"
    | (dropin) f where "align_json gw (cd_config c) = Some f" "\<not> co_dropin_ok co"
    | (reload) f where "align_json gw (cd_config c) = Some f" "co_dropin_ok co" "\<not> co_reload_ok co"
    | (restart) f where "align_json gw (cd_config c) = Some f" "co_dropin_ok co" "co_reload_ok co" "\<not> co_restart_ok co"
    | (all) f where "align_json gw (cd_config c) = Some f" "co_dropin_ok co" "co_reload_ok co" "co_restart_ok co"
    by blast
  then show ?thesis
  proof cases
    case json
    then show ?thesis by (intro failed [of "[]" "''json''"]) (simp_all add: script_succeeds_def run_align_script_def report_text_def)
  next
    case dropin
    then show ?thesis
      by (intro failed [of "[]" "''dropin''"]) (simp_all add: script_succeeds_def run_align_script_def report_text_def Let_def)
  next
    case reload
    then show ?thesis
      by (intro failed [of ?b "''reload''"]) (simp_all add: script_succeeds_def run_align_script_def report_text_def Let_def)
  next
    case restart
    then show ?thesis
      by (intro failed [of ?b "''restart''"]) (simp_all add: script_succeeds_def run_align_script_def report_text_def Let_def)
  next
    case (all f)
    obtain pid env ok where w: "wait_process co (cd_pid c) [0..<RESTART_WAIT_TRIES] (0, []) = ((pid, env), ok)" by (metis prod.exhaust)
    note new = wait_process_find [OF w, folded new_process_at_def]
    define c3 where "c3 = c\<lparr>cd_config := f, cd_dropin := if gw = DEFAULT_GW then None else Some gw,
      cd_pid := pid, cd_environ := env, cd_config := co_others_write co f\<rparr>"
    have c3: "cd_config c3 = co_others_write co f" "cd_pid c3 = pid" "cd_environ c3 = env" by (simp_all add: c3_def)
    have run: "run_align_script err rp co gw c
        = (out_line ''PID_BEFORE'' (nat_text (cd_pid c)) @ align_report rp co c3 ok, c3)"
      using all w by (simp add: run_align_script_def Let_def c3_def)
    have l: "one_line (co_env_now co)" "one_line (co_active co)" "one_line (co_join_profile co)"
      "one_line (host_of rp (cd_config c3))" "ok \<longrightarrow> one_line (proc_mqtt_host (cd_environ c3))"
      using lines all(1) new by (auto simp: answers_in_lines_def c3 split: option.splits)
    obtain ps where ps: "align_problems gw (parse_align_output ?out) = Inr ps"
      "ps = [] \<longleftrightarrow> strip (host_of rp (cd_config c3)) = gw \<and> pid \<noteq> 0 \<and> pid \<noteq> cd_pid c \<and> ok
         \<and> fits gw (strip (proc_mqtt_host env)) \<and> strip (co_active co) = ''active''"
      using full_report_problems [OF gw l, of "cd_pid c"] unfolding run c3 by auto
    have "ps = [] \<longleftrightarrow> script_succeeds rp co gw c"
      using ps(2) new all by (auto simp: script_succeeds_def c3 split: option.splits)
    moreover have "sends_to rp gw c c3" if "ps = []" and plain: "\<forall>i. plain_environ (co_environ_at co i)"
    proof -
      have v: "strip (host_of rp (cd_config c3)) = gw" "pid \<noteq> 0" "pid \<noteq> cd_pid c" "fits gw (strip (proc_mqtt_host env))" and "ok"
        using ps(2) that(1) by blast+
      then have "plain_environ env" using new plain by (auto split: option.splits)
      with v show ?thesis using sends_to_fits [OF gw] by (simp add: sends_to_def c3)
    qed
    ultimately show ?thesis using ps(1) unfolding run by auto
  qed
qed


definition ex_child :: child_dev where
  "ex_child = \<lparr>cd_config = Doc (PDict [(''host'', PStr ''10.42.0.1''), (''port'', PInt 1883)]), cd_dropin = None,
     cd_pid = 411, cd_environ = [''PATH=/usr/bin'']\<rparr>"

text \<open>The new process appears at the second try and its environment can be read at the third.\<close>

definition ex_os_with :: "string \<Rightarrow> child_os" where
  "ex_os_with h = \<lparr>co_dropin_ok = True, co_reload_ok = True, co_restart_ok = True,
     co_pid_at = (\<lambda>i. if i = 0 then 0 else 902), co_environ_at = (\<lambda>i. [''PATH=/usr/bin'', MQTT_KEY @ h]),
     co_readable_at = (\<lambda>i. 2 \<le> i), co_others_write = (\<lambda>f. f), co_env_now = ''MQTT_HOST=10.42.1.1'', co_active = ''active'',
     co_join_profile = ''ok''\<rparr>"

abbreviation ex_child_os :: child_os where
  "ex_child_os \<equiv> ex_os_with ''10.42.1.1''"

definition ex_world :: fleet_world where
  "ex_world = \<lparr>fw_calls = [], fw_files = (\<lambda>_. None), fw_denied = (\<lambda>_. False), fw_slept = 0\<rparr>"

definition ex_answer_of :: "child_os \<Rightarrow> runner" where
  "ex_answer_of co h c = Inr (fst (run_align_script (\<lambda>_. ''failed'') (\<lambda>_. []) co ''10.42.1.1'' ex_child))"

abbreviation ex_answer :: runner where
  "ex_answer \<equiv> ex_answer_of ex_child_os"

lemma ex_lines:
  assumes "one_line h"
  shows "answers_in_lines (\<lambda>_. ''failed'') (\<lambda>_. []) (ex_os_with h) ''10.42.1.1'' ex_child"
    and "\<forall>i. plain_environ (co_environ_at (ex_os_with h) i)"
proof -
  have n: "nl \<notin> set h" using assms by (auto simp: one_line_def is_newline_def)
  have p: "plain_environ [''PATH=/usr/bin'', MQTT_KEY @ h]"
    using n by (simp add: plain_environ_def MQTT_KEY_def)
  have m: "proc_mqtt_host [''PATH=/usr/bin'', MQTT_KEY @ h] = h"
    unfolding proc_mqtt_host_def plain_lines [OF p] by (simp add: MQTT_KEY_def)
  have f: "host_of (\<lambda>_. []) (Doc (PDict [(''host'', PStr ''10.42.1.1''), (''port'', PInt 1883)])) = ''10.42.1.1''" by code_simp
  have a: "align_json ''10.42.1.1'' (cd_config ex_child) = Some (Doc (PDict [(''host'', PStr ''10.42.1.1''), (''port'', PInt 1883)]))"
    by code_simp
  have l: "one_line ''10.42.1.1''" "one_line ''MQTT_HOST=10.42.1.1''" "one_line ''active''" "one_line ''ok''" "one_line ''failed''"
    by (simp_all add: one_line_def is_newline_def)
  show "answers_in_lines (\<lambda>_. ''failed'') (\<lambda>_. []) (ex_os_with h) ''10.42.1.1'' ex_child"
    using assms l by (simp add: answers_in_lines_def ex_os_with_def a f m)
  show "\<forall>i. plain_environ (co_environ_at (ex_os_with h) i)" using p by (simp add: ex_os_with_def)
qed

text \<open>
  A process that still runs with the old hub's address, under a loaded configuration and a file that name the new
  one, is not reported as aligned.
\<close>

lemma stale_process_is_found_out:
  "\<not> script_succeeds (\<lambda>_. []) (ex_os_with ''10.42.0.1'') ''10.42.1.1'' ex_child"
  by code_simp


lemma base_256_eq:
  assumes "c < 256" "c' < (256 :: nat)"
  shows "256 * x + c = 256 * x' + c' \<longleftrightarrow> x = x' \<and> c = c'"
proof -
  have "(256 * x + c) div 256 = x" "(256 * x + c) mod 256 = c" "(256 * x' + c') div 256 = x'" "(256 * x' + c') mod 256 = c'"
    using assms by simp_all
  then show ?thesis by metis
qed

lemma unat_of_small: "n < 2 ^ 32 \<Longrightarrow> unat (of_nat n :: 32 word) = n"
  by (simp only: unat_of_nat take_bit_eq_mod) simp

lemma drop_last_octet:
  assumes "256 * h + z < 2 ^ 32" and "z < 256"
  shows "drop_bit 8 (of_nat (256 * h + z) :: 32 word) = of_nat h"
proof -
  define n where "n = 256 * h + z"
  have d: "n div 256 = h" and l: "n < 2 ^ 32" "h < 2 ^ 32" using assms by (simp_all add: n_def)
  have "unat (drop_bit 8 (of_nat n :: 32 word)) = n div 256"
    unfolding unat_drop_bit_eq unat_of_small [OF l(1)] by (simp add: drop_bit_eq_div)
  then show ?thesis unfolding n_def [symmetric] word_unat_eq_iff unat_of_small [OF l(2)] d .
qed

lemma mask_24: "u AND net_mask 24 = push_bit 8 (drop_bit 8 u)" for u :: "32 word"
proof -
  have "net_mask 24 = push_bit 8 (- 1)" by (simp add: net_mask_def)
  then show ?thesis by (simp only:) (rule bit_word_eqI, auto simp: bit_simps)
qed

text \<open>With a /24 prefix two addresses are in one network exactly when their first three numbers agree.\<close>

lemma in_subnet_24:
  assumes "ipv4_parse ip = Some [a, b, c, d]" and "ipv4_parse gw = Some [a', b', c', d']"
    and "a < 256" "b < 256" "c < 256" "d < 256" "a' < 256" "b' < 256" "c' < 256" "d' < 256"
  shows "ip_in_subnet ip gw 24 \<longleftrightarrow> a = a' \<and> b = b' \<and> c = c'"
proof -
  have word: "ipv4_word [w, x, y, z] AND net_mask 24 = of_nat (256 * (65536 * w + 256 * x + y))"
    if "w < 256" "x < 256" "y < 256" "z < 256" for w x y z
  proof -
    let ?hi = "65536 * w + 256 * x + y"
    have n: "256 * ?hi + z < 2 ^ 32" using that by simp
    have v: "ipv4_word [w, x, y, z] = of_nat (256 * ?hi + z)" by (simp add: ipv4_word_def algebra_simps)
    have "drop_bit 8 (of_nat (256 * ?hi + z) :: 32 word) = of_nat ?hi" by (rule drop_last_octet [OF n that(4)])
    then show ?thesis unfolding v mask_24 by (simp add: push_bit_eq_mult algebra_simps)
  qed
  define m where "m = 256 * (65536 * a + 256 * b + c)"
  define m' where "m' = 256 * (65536 * a' + 256 * b' + c')"
  have l: "m < 2 ^ 32" "m' < 2 ^ 32" using assms by (simp_all add: m_def m'_def)
  have "(of_nat m :: 32 word) = of_nat m' \<longleftrightarrow> m = m'"
    unfolding word_unat_eq_iff unat_of_small [OF l(1)] unat_of_small [OF l(2)] ..
  moreover have "ip_in_subnet ip gw 24 \<longleftrightarrow> ipv4_word [a, b, c, d] AND net_mask 24 = ipv4_word [a', b', c', d'] AND net_mask 24"
    unfolding ip_in_subnet_def assms(1, 2) by (simp only: prod.case option.case) simp
  ultimately have "ip_in_subnet ip gw 24 \<longleftrightarrow> m = m'"
    unfolding word [OF assms(3-6)] word [OF assms(7-10)] m_def [symmetric] m'_def [symmetric] by (simp only:)
  moreover have "m = m' \<longleftrightarrow> 65536 * a + 256 * b + c = 65536 * a' + 256 * b' + c'" unfolding m_def m'_def by arith
  moreover have "65536 * a + 256 * b + c = 256 * (256 * a + b) + c" "65536 * a' + 256 * b' + c' = 256 * (256 * a' + b') + c'"
    by simp_all
  ultimately show ?thesis using assms by (simp only: base_256_eq conj_assoc)
qed

end
