(* ===== verification/Fleet_Provision.thy ===== *)
theory Fleet_Provision
  imports Fleet_Send_Target "HOL-Library.Sublist"
begin

text \<open>
  \<open>fleet_ui/provision.py\<close>: the steps that register a new child (stop its publisher, blank its stations, rename
  it, wait for it, announce the names again, take its host key, add it to the inventory, set its send target)
  and the adoption of a child that keeps its name and stations.
\<close>

section \<open>The steps\<close>

definition argv_unsafe :: "string \<Rightarrow> bool" where
  "argv_unsafe s \<longleftrightarrow> (\<exists>c \<in> set s. c \<in> set '' ;|&$()`<>'' \<or> c = dq \<or> c = sq \<or> c = bsl)"

definition ssh_new :: "runner \<Rightarrow> string \<Rightarrow> string \<Rightarrow> string act" where
  "ssh_new r ip remote = call r (Ssh 8 True ip (Sh remote) None)"

definition captured :: "string act \<Rightarrow> fleet_out act" where
  "captured m = act_bind m (\<lambda>s. act_return (Out s))"

definition STOP_REMOTE :: string where
  "STOP_REMOTE = ''sudo systemctl stop child-csv-to-mqtt.service''"

definition stop_publisher :: "runner \<Rightarrow> string \<Rightarrow> step_result act" where
  "stop_publisher r ip = guarded (captured (ssh_new r ip STOP_REMOTE)) MsgStopped"

definition quoted :: "char \<Rightarrow> string \<Rightarrow> string" where
  "quoted q s = q # s @ [q]"

definition BLANK_PROGRAM :: string where
  "BLANK_PROGRAM = ''import json;p='' @ quoted sq ''/home/pi/id_names_config.json''
     @ '';d=json.load(open(p));json.dump({'' @ quoted sq ''id_names'' @ '':{k:[''
     @ quoted sq [] @ '','' @ quoted sq [] @ '','' @ quoted sq [] @ ''] for k in d['' @ quoted sq ''id_names''
     @ '']}},open(p,'' @ quoted sq ''w'' @ ''))''"

definition BLANK_REMOTE :: string where
  "BLANK_REMOTE = ''cp -a ~/id_names_config.json ~/id_names_config.json.clone-backup && python3 -c ''
     @ quoted dq BLANK_PROGRAM"

definition blank_sta_no :: "runner \<Rightarrow> string \<Rightarrow> step_result act" where
  "blank_sta_no r ip = guarded (captured (ssh_new r ip BLANK_REMOTE)) MsgBlanked"

text \<open>What the program of that step makes of the child's document.\<close>

definition blank_stations :: "pyval \<Rightarrow> pyval py" where
  "blank_stations d = py_bind (py_subscript d ''id_names'') (\<lambda>m.
     case m of
       PDict ids \<Rightarrow> Inr (PDict [(''id_names'', PDict (map (\<lambda>(k, _). (k, PList [PStr [], PStr [], PStr []])) ids))])
     | _ \<Rightarrow> Inl TypeMismatch)"

definition HOSTS_IP :: string where
  "HOSTS_IP = ''127'' @ bsl # ''.0'' @ bsl # ''.1'' @ bsl # ''.1''"

definition rename_remote :: "string \<Rightarrow> string" where
  "rename_remote new =
     ''sudo hostnamectl set-hostname '' @ shlex_quote new @ '' && if grep -q ''
     @ quoted sq (''^'' @ HOSTS_IP @ ''[[:space:]]'') @ '' /etc/hosts; then sudo sed -i ''
     @ quoted dq (''s/^'' @ HOSTS_IP @ ''[[:space:]].*/127.0.1.1'' @ bsl # ''t'' @ new @ ''/'')
     @ '' /etc/hosts; else printf ''
     @ quoted sq (''127.0.1.1'' @ bsl # ''t'' @ new @ bsl # ''n'')
     @ '' | sudo tee -a /etc/hosts >/dev/null; fi; sudo reboot''"

definition rename_and_reboot :: "runner \<Rightarrow> string \<Rightarrow> string \<Rightarrow> step_result act" where
  "rename_and_reboot r ip new =
    (if \<not> valid_label new then act_return (step_fail (MsgBadHostname new) (Out []))
     else guarded (captured (ssh_new r ip (rename_remote new))) (MsgRenamed new))"

text \<open>The default probe: does a command over SSH return without an exception?\<close>

definition ssh_alive :: "runner \<Rightarrow> string \<Rightarrow> bool act" where
  "ssh_alive r ip =
    act_catch (act_bind (call r (Ssh 5 True ip (Sh ''true'') None)) (\<lambda>_. act_return True)) (\<lambda>_. act_return False)"

text \<open>
  The loop \<open>while waited < timeout_s\<close>, which adds five seconds per round: the argument counts the rounds that are
  left, the last one the address seen.
\<close>

primrec wait_rounds :: "runner \<Rightarrow> string \<Rightarrow> (string \<Rightarrow> bool act) \<Rightarrow> nat \<Rightarrow> string \<Rightarrow> nat \<Rightarrow> string \<Rightarrow> step_result act" where
  "wait_rounds r dev probe timeout mac 0 seen = act_return (step_fail (MsgNotReturned timeout seen) (Out []))"
| "wait_rounds r dev probe timeout mac (Suc k) seen =
     act_bind (call r (Neigh_show dev)) (\<lambda>t.
       case find (\<lambda>n. nb_mac n = mac) (parse_neigh t) of
         None \<Rightarrow> act_bind (sleep 5) (\<lambda>_. wait_rounds r dev probe timeout mac k seen)
       | Some n \<Rightarrow> act_bind (probe (nb_ip n)) (\<lambda>b.
           if b then act_return (step_ok (MsgReturned (nb_ip n)) (Out (nb_ip n)))
           else act_bind (sleep 5) (\<lambda>_. wait_rounds r dev probe timeout mac k (nb_ip n))))"

definition wait_for_return :: "runner \<Rightarrow> string \<Rightarrow> (string \<Rightarrow> bool act) \<Rightarrow> nat \<Rightarrow> string \<Rightarrow> step_result act" where
  "wait_for_return r dev probe timeout mac =
    wait_rounds r dev probe timeout (lower mac) ((timeout + 4) div 5) []"

definition WAIT_TIMEOUT :: nat where "WAIT_TIMEOUT = 180"

definition MDNS_REMOTE :: string where "MDNS_REMOTE = ''sudo systemctl restart avahi-daemon''"

definition restart_mdns :: "runner \<Rightarrow> string list \<Rightarrow> step_result act" where
  "restart_mdns r ips =
    guarded (captured (act_bind (act_map (\<lambda>ip. ssh_new r ip MDNS_REMOTE) ips) (\<lambda>outs. act_return (join_with [nl] outs))))
      (MsgMdns (length ips))"

definition register_host_key :: "runner \<Rightarrow> string \<Rightarrow> string \<Rightarrow> step_result act" where
  "register_host_key r known_hosts hostname =
    guarded (act_bind (call r (Keyscan hostname)) (\<lambda>out.
        if strip out = [] then act_return (Out out)
        else act_bind (append_file known_hosts (if ends_with [nl] out then out else out @ [nl])) (\<lambda>_.
          act_return (Out out))))
      (MsgHostKey hostname)"

definition add_to_inventory :: "string \<Rightarrow> string \<Rightarrow> step_result act" where
  "add_to_inventory path entry =
    guarded (act_bind (read_file path) (\<lambda>f.
        let existing = (case f of None \<Rightarrow> [] | Some t \<Rightarrow> t) in
        if entry \<in> set (map conf_line (splitlines existing)) then act_return OutAlready
        else act_bind (append_file path ((if ends_with [nl] existing \<or> existing = [] then [] else [nl]) @ entry @ [nl])) (\<lambda>_.
          act_return (OutAdded entry))))
      MsgInventory"

definition align_after_join :: "runner \<Rightarrow> string \<Rightarrow> string \<Rightarrow> string \<Rightarrow> step_result act" where
  "align_after_join r host inv_name gw =
    act_bind (align_send_target r host gw) (\<lambda>a. act_return
      (if sr_ok a then a else step_fail (MsgNotAligned inv_name gw (sr_message a)) (sr_output a)))"

definition probe_hostname :: "runner \<Rightarrow> string \<Rightarrow> string act" where
  "probe_hostname r ip =
    (if ip = [] \<or> argv_unsafe ip then act_return []
     else act_bind (call r (Ssh 3 True ip (Sh ''hostname'') None)) (\<lambda>s. act_return (strip s)))"

section \<open>Adoption and registration\<close>

text \<open>\<open>except ValueError\<close> around \<open>load_ap_gw_ip\<close>.\<close>

definition try_gw :: "string \<Rightarrow> string option act" where
  "try_gw repo = act_catch (act_bind (load_ap_gw_ip repo) (\<lambda>g. act_return (Some g)))
     (\<lambda>e. if e = ValueError then act_return None else act_raise e)"

text \<open>The files a step of the hub may change, and where the repository is.\<close>

record hub_paths =
  hp_known_hosts :: string
  hp_inventory :: string
  hp_repo :: string

definition adopt_keeping_identity :: "runner \<Rightarrow> hub_paths \<Rightarrow> string list \<Rightarrow> string \<Rightarrow> step_result act" where
  "adopt_keeping_identity r hp existing ip =
    act_bind (try_gw (hp_repo hp)) (\<lambda>g. case g of
      None \<Rightarrow> act_return (step_fail MsgSiteEnv (Out []))
    | Some gw \<Rightarrow> act_bind (probe_hostname r ip) (\<lambda>hostname.
        if hostname = [] then act_return (step_fail MsgNoSsh (Out []))
        else case validate_hostname hostname existing of
          Some err \<Rightarrow> act_return (step_fail (MsgHost err) (Out []))
        | None \<Rightarrow>
            let inv_name = (if ends_with dot_local hostname then hostname else hostname @ dot_local) in
            then_step (register_host_key r (hp_known_hosts hp) inv_name) (\<lambda>kh.
            then_step (add_to_inventory (hp_inventory hp) inv_name) (\<lambda>_.
            then_step (align_after_join r ip inv_name gw) (\<lambda>_.
              act_return (step_ok (MsgAdopted hostname) (sr_output kh)))))))"

definition lower_hex :: "char \<Rightarrow> bool" where
  "lower_hex c \<longleftrightarrow> is_digit c \<or> between 97 c 102"

text \<open>\<open>(?:[0-9a-f]{2}:){5}[0-9a-f]{2}\<close>.\<close>

definition mac_form :: "string \<Rightarrow> bool" where
  "mac_form s \<longleftrightarrow> (let ps = split_on CHR '':'' s in length ps = 6 \<and> list_all (\<lambda>p. length p = 2 \<and> list_all lower_hex p) ps)"

text \<open>The hosts whose names are announced again: the inventory without repetitions, then the new child.\<close>

definition mdns_add :: "string \<Rightarrow> string list \<Rightarrow> string list" where
  "mdns_add e hosts = (let s = strip e in if s \<noteq> [] \<and> s \<notin> set hosts then hosts @ [s] else hosts)"

definition mdns_hosts :: "string list \<Rightarrow> string \<Rightarrow> string list" where
  "mdns_hosts existing new_ip =
    (let hosts = fold mdns_add existing [] in
     if new_ip \<noteq> [] \<and> new_ip \<notin> set hosts then hosts @ [new_ip] else hosts)"

definition register_steps ::
  "runner \<Rightarrow> (string \<Rightarrow> step_result act) \<Rightarrow> hub_paths \<Rightarrow> string list \<Rightarrow> string \<Rightarrow> string \<Rightarrow> string \<Rightarrow> string \<Rightarrow> step_result act" where
  "register_steps r wait_fn hp existing ip mac new gw =
     then_step (stop_publisher r ip) (\<lambda>_.
     then_step (blank_sta_no r ip) (\<lambda>_.
     then_step (rename_and_reboot r ip new) (\<lambda>_.
     then_step (wait_fn mac) (\<lambda>waited.
       let s = strip (out_text (sr_output waited)); new_ip = (if s = [] then ip else s); inv_name = new @ dot_local in
       then_step (restart_mdns r (mdns_hosts existing new_ip)) (\<lambda>_.
       then_step (register_host_key r (hp_known_hosts hp) inv_name) (\<lambda>_.
       then_step (add_to_inventory (hp_inventory hp) inv_name) (\<lambda>_.
       then_step (align_after_join r new_ip inv_name gw) (\<lambda>_.
         act_return (step_ok (MsgRegistered new) (Out new_ip))))))))))"

definition register_new_child ::
  "runner \<Rightarrow> (string \<Rightarrow> step_result act) \<Rightarrow> hub_paths \<Rightarrow> string list \<Rightarrow> string \<Rightarrow> string \<Rightarrow> string \<Rightarrow> step_result act" where
  "register_new_child r wait_fn hp existing ip mac0 new =
    (if ip = [] \<or> argv_unsafe ip then act_return (step_fail MsgBadIp (Out []))
     else let mac = lower (strip mac0) in
     if \<not> mac_form mac then act_return (step_fail MsgBadMac (Out []))
     else case validate_hostname new existing of
       Some err \<Rightarrow> act_return (step_fail (MsgHost err) (Out []))
     | None \<Rightarrow> act_bind (try_gw (hp_repo hp)) (\<lambda>g. case g of
         None \<Rightarrow> act_return (step_fail MsgSiteEnv (Out []))
       | Some gw \<Rightarrow> register_steps r wait_fn hp existing ip mac new gw))"

section \<open>Which files the steps change\<close>

lemma keeps_steps [act_keeps]:
  "keeps P (ssh_new r ip s)" "keeps P m \<Longrightarrow> keeps P (captured m)" "keeps P (stop_publisher r ip)" "keeps P (blank_sta_no r ip)"
  "keeps P (restart_mdns r ips)" "keeps P (probe_hostname r ip)" "keeps P (align_after_join r h n g)" "keeps P (ssh_alive r ip)"
  unfolding ssh_new_def captured_def stop_publisher_def blank_sta_no_def restart_mdns_def probe_hostname_def
    align_after_join_def ssh_alive_def by (intro act_keeps | assumption)+

lemma keeps_rename [act_keeps]: "keeps P (rename_and_reboot r ip new)"
  unfolding rename_and_reboot_def by (intro act_keeps)

lemma keeps_load_gw [act_keeps]: "keeps P (try_gw repo)"
  unfolding try_gw_def load_ap_gw_ip_def by (intro act_keeps)

lemma keeps_host_key [act_keeps]: "f \<in> P \<Longrightarrow> keeps P (register_host_key r f h)"
  unfolding register_host_key_def by (intro act_keeps)

lemma keeps_inventory [act_keeps]: "f \<in> P \<Longrightarrow> keeps P (add_to_inventory f e)"
  unfolding add_to_inventory_def Let_def by (intro act_keeps)

lemma keeps_wait_rounds:
  "(\<And>ip. keeps P (probe ip)) \<Longrightarrow> keeps P (wait_rounds r dev probe timeout mac k seen)"
proof (induction k arbitrary: seen)
  case 0
  show ?case unfolding wait_rounds.simps by (intro act_keeps)
next
  case (Suc k)
  show ?case unfolding wait_rounds.simps
    by (intro act_keeps) (auto split: option.split intro!: act_keeps Suc)
qed

lemma keeps_wait [act_keeps]: "(\<And>ip. keeps P (probe ip)) \<Longrightarrow> keeps P (wait_for_return r dev probe timeout mac)"
  unfolding wait_for_return_def by (rule keeps_wait_rounds)

section \<open>The inventory\<close>

text \<open>The inventory as the code reads it.\<close>

definition inventory_of :: "fleet_world \<Rightarrow> string \<Rightarrow> string list" where
  "inventory_of w p = parse_children_conf (case fw_files w p of None \<Rightarrow> [] | Some t \<Rightarrow> universal_newlines t)"

lemma universal_newlines_cons:
  "c \<noteq> cr \<Longrightarrow> universal_newlines (c # cs) = c # universal_newlines cs"
  "universal_newlines [cr] = [nl]"
  "universal_newlines (cr # nl # ds) = nl # universal_newlines ds"
  "d \<noteq> nl \<Longrightarrow> universal_newlines (cr # d # ds) = nl # universal_newlines (d # ds)"
  by simp_all

lemma universal_newlines_append:
  "s = [] \<or> hd s \<noteq> nl \<or> t = [] \<or> last t \<noteq> cr \<Longrightarrow> cr \<notin> set s \<Longrightarrow>
   universal_newlines (t @ s) = universal_newlines t @ s"
proof (induction t rule: universal_newlines.induct)
  case 1
  then show ?case by (simp add: universal_newlines_id)
next
  case (2 c cs)
  have s: "universal_newlines s = s" using 2(5) by (rule universal_newlines_id)
  have sub: "s = [] \<or> hd s \<noteq> nl \<or> ds = [] \<or> last ds \<noteq> cr" if "suffix ds (c # cs)" for ds
  proof (cases "ds = []")
    case False
    then have "last (c # cs) = last ds" using that unfolding suffix_def by (metis last_appendR)
    with 2(4) show ?thesis by (metis list.distinct(1))
  qed simp
  consider "c \<noteq> cr" | "c = cr" "cs = []" | ds where "c = cr" "cs = nl # ds" | d ds where "c = cr" "cs = d # ds" "d \<noteq> nl"
    by (metis neq_Nil_conv)
  then show ?case
  proof cases
    case 1
    have "universal_newlines (cs @ s) = universal_newlines cs @ s"
      using 2(3) [OF 1 sub 2(5)] by (simp add: suffix_def)
    with 1 show ?thesis by (simp add: universal_newlines_cons del: universal_newlines.simps)
  next
    case 2
    then show ?thesis using \<open>s = [] \<or> _\<close> s by (cases s) (auto simp: universal_newlines_cons)
  next
    case 3
    then have "universal_newlines (ds @ s) = universal_newlines ds @ s"
      using 2(1) [OF 3(1) 3(2) refl sub 2(5)] by (simp add: suffix_def)
    with 3 show ?thesis by (simp add: universal_newlines_cons del: universal_newlines.simps)
  next
    case 4
    then have "universal_newlines (cs @ s) = universal_newlines cs @ s"
      using 2(2) [OF 4(1) 4(2) 4(3) sub 2(5)] by (simp add: suffix_def)
    with 4 show ?thesis by (simp add: universal_newlines_cons del: universal_newlines.simps)
  qed
qed


lemma universal_newlines_snoc_cr: "universal_newlines (t @ [cr]) = universal_newlines t @ [nl]"
proof (induction t rule: universal_newlines.induct)
  case 1
  then show ?case by simp
next
  case (2 c cs)
  consider "c \<noteq> cr" | "c = cr" "cs = []" | ds where "c = cr" "cs = nl # ds" | d ds where "c = cr" "cs = d # ds" "d \<noteq> nl"
    by (metis neq_Nil_conv)
  then show ?case
  proof cases
    case 1
    with 2(3) show ?thesis by (simp add: universal_newlines_cons del: universal_newlines.simps)
  next
    case 2
    then show ?thesis by simp
  next
    case 3
    with 2(1) [OF 3(1) 3(2) refl] show ?thesis by (simp add: universal_newlines_cons del: universal_newlines.simps)
  next
    case 4
    with 2(2) [OF 4] show ?thesis by (simp add: universal_newlines_cons del: universal_newlines.simps)
  qed
qed

text \<open>An entry that the parser reads back as itself: not empty, no white space at its ends, no line end, no comment.\<close>

definition plain_entry :: "string \<Rightarrow> bool" where
  "plain_entry e \<longleftrightarrow> e \<noteq> [] \<and> strip e = e \<and> (\<forall>c \<in> set e. \<not> is_newline c \<and> c \<noteq> CHR ''#'')"

lemma ends_with_single: "ends_with [c] s \<longleftrightarrow> s \<noteq> [] \<and> last s = c"
  by (cases s rule: rev_cases) (auto simp: ends_with_def)

text \<open>The text the step appends, to a raw file \<open>t\<close>, adds the one entry.\<close>

lemma appended_entry:
  assumes e: "plain_entry e" and ex: "ex = universal_newlines t"
  shows "parse_children_conf (universal_newlines (t @ (if ends_with [nl] ex \<or> ex = [] then [] else [nl]) @ e @ [nl]))
    = parse_children_conf ex @ [e]"
proof -
  have p: "e \<noteq> []" "strip e = e" "\<forall>c \<in> set e. \<not> is_newline c \<and> c \<noteq> CHR ''#''" using e unfolding plain_entry_def by blast+
  have e': "parse_children_conf (e @ [nl]) = [e]" by (rule parse_conf_entry [OF p])
  have "cr \<notin> set e" "nl \<notin> set e" using p(3) is_newline_cr is_newline_nl by blast+
  then have cr: "cr \<notin> set (e @ [nl])" and ne: "e \<noteq> [] \<Longrightarrow> hd e \<noteq> nl" by (simp, metis hd_in_set)
  obtain d ds where hd: "e = d # ds" "d \<noteq> nl" using p(1) ne by (metis list.exhaust_sel)
  show ?thesis
  proof (cases "ends_with [nl] ex \<or> ex = []")
    case True
    have "universal_newlines (t @ e @ [nl]) = ex @ e @ [nl]"
      unfolding ex by (rule universal_newlines_append [OF _ cr]) (use hd in simp)
    moreover have "parse_children_conf (ex @ e @ [nl]) = parse_children_conf ex @ [e]"
    proof (cases "ex = []")
      case True
      with e' show ?thesis by simp
    next
      case False
      then obtain u where u: "ex = u @ [nl]" using True by (metis ends_with_single append_butlast_last_id)
      show ?thesis using parse_conf_nl_append [of u "e @ [nl]"] parse_conf_nl_append [of u "[]"] e' by (simp add: u)
    qed
    ultimately show ?thesis using True by simp
  next
    case False
    then have "\<not> (t \<noteq> [] \<and> last t = cr)"
      using universal_newlines_snoc_cr [of "butlast t"] unfolding ex ends_with_single
      by (metis append_butlast_last_id last_snoc snoc_eq_iff_butlast)
    then have "universal_newlines (t @ nl # e @ [nl]) = ex @ nl # e @ [nl]"
      unfolding ex by (intro universal_newlines_append) (use cr in auto)
    then show ?thesis using False parse_conf_nl_append [of ex "e @ [nl]"] e' by simp
  qed
qed

lemma in_conf_lines: "e \<noteq> [] \<Longrightarrow> e \<in> set (map conf_line (splitlines t)) \<longleftrightarrow> e \<in> set (parse_children_conf t)"
  by (auto simp: parse_children_conf_def)

lemma add_to_inventory_result:
  assumes e: "plain_entry e" and ok: "\<not> fw_denied w p"
  shows "\<exists>s v. add_to_inventory p e w = (Inr s, v) \<and> sr_ok s \<and> fw_calls v = fw_calls w
     \<and> (\<forall>q. q \<noteq> p \<longrightarrow> fw_files v q = fw_files w q)
     \<and> inventory_of v p = (if e \<in> set (inventory_of w p) then inventory_of w p else inventory_of w p @ [e])
     \<and> (e \<in> set (inventory_of w p) \<longrightarrow> v = w)"
proof -
  define t where "t = (case fw_files w p of None \<Rightarrow> [] | Some t \<Rightarrow> t)"
  let ?ex = "universal_newlines t"
  have inv0: "inventory_of w p = parse_children_conf ?ex"
    by (cases "fw_files w p") (simp_all add: inventory_of_def t_def)
  have rd: "\<exists>f. read_file p w = (Inr f, w) \<and> (case f of None \<Rightarrow> [] | Some t \<Rightarrow> t) = ?ex"
    using ok by (cases "fw_files w p") (simp_all add: read_file_def t_def)
  then obtain f where f: "read_file p w = (Inr f, w)" "(case f of None \<Rightarrow> [] | Some t \<Rightarrow> t) = ?ex" by blast
  have ne: "e \<noteq> []" using e by (simp add: plain_entry_def)
  show ?thesis
  proof (cases "e \<in> set (inventory_of w p)")
    case True
    then have "add_to_inventory p e w = (Inr (step_ok MsgInventory OutAlready), w)"
      using f in_conf_lines [OF ne, of ?ex]
      by (simp add: add_to_inventory_def guarded_def act_catch_def act_bind_def Let_def inv0 del: set_map)
    with True show ?thesis by simp
  next
    case False
    let ?s = "(if ends_with [nl] ?ex \<or> ?ex = [] then [] else [nl]) @ e @ [nl]"
    let ?v = "w\<lparr>fw_files := (fw_files w)(p \<mapsto> t @ ?s)\<rparr>"
    have "append_file p ?s w = (Inr (), ?v)" using ok by (simp add: append_file_def t_def)
    then have "add_to_inventory p e w = (Inr (step_ok MsgInventory (OutAdded e)), ?v)"
      using f False in_conf_lines [OF ne, of ?ex]
      by (simp add: add_to_inventory_def guarded_def act_catch_def act_bind_def Let_def inv0 del: set_map append_assoc)
    moreover have "inventory_of ?v p = inventory_of w p @ [e]"
      using appended_entry [OF e refl, of t] unfolding inv0 by (simp add: inventory_of_def)
    ultimately show ?thesis using False by simp
  qed
qed

text \<open>Adding an entry appends exactly that entry to the inventory and does nothing when it is there already; no
  other file changes and no command is run.
\<close>

theorem inventory_gains_the_entry_once:
  assumes "plain_entry e" and "\<not> fw_denied w p"
  shows "\<exists>s v. add_to_inventory p e w = (Inr s, v) \<and> sr_ok s \<and> fw_calls v = fw_calls w
     \<and> (\<forall>q. q \<noteq> p \<longrightarrow> fw_files v q = fw_files w q)
     \<and> inventory_of v p = (if e \<in> set (inventory_of w p) then inventory_of w p else inventory_of w p @ [e])
     \<and> (e \<in> set (inventory_of w p) \<longrightarrow> v = w)"
  by (rule add_to_inventory_result [OF assms])

lemma inventory_gains_the_entry_once_witness:
  "\<exists>s v. add_to_inventory ''children.conf'' ''zero2''
       \<lparr>fw_calls = [], fw_files = [''children.conf'' \<mapsto> ''zero1''], fw_denied = (\<lambda>_. False), fw_slept = 0\<rparr> = (Inr s, v)
     \<and> inventory_of v ''children.conf'' = [''zero1'', ''zero2'']"
proof -
  let ?w = "\<lparr>fw_calls = [], fw_files = [''children.conf'' \<mapsto> ''zero1''], fw_denied = (\<lambda>_. False), fw_slept = 0\<rparr> :: fleet_world"
  have e: "plain_entry ''zero2''" by code_simp
  have "inventory_of ?w ''children.conf'' = [''zero1'']" by (simp add: inventory_of_def) code_simp
  with inventory_gains_the_entry_once [OF e, of ?w "''children.conf''"] show ?thesis by auto
qed


lemma splitlines_Nil [simp]: "splitlines [] = []"
  by (simp add: splitlines_def)

lemma add_to_inventory_denied: "fw_denied w p \<Longrightarrow> add_to_inventory p e w = (Inr s, v) \<Longrightarrow> \<not> sr_ok s"
  by (auto simp: add_to_inventory_def guarded_def act_catch_def act_bind_def read_file_def append_file_def Let_def
      split: option.splits if_splits)

lemma add_to_inventory_ok:
  assumes "plain_entry e" and "add_to_inventory p e w = (Inr s, v)" and "sr_ok s"
  shows "inventory_of v p = (if e \<in> set (inventory_of w p) then inventory_of w p else inventory_of w p @ [e])"
    and "fw_calls v = fw_calls w"
proof -
  have "\<not> fw_denied w p" using add_to_inventory_denied [OF _ assms(2)] assms(3) by blast
  from add_to_inventory_result [OF assms(1) this] assms(2)
  show "inventory_of v p = (if e \<in> set (inventory_of w p) then inventory_of w p else inventory_of w p @ [e])"
    and "fw_calls v = fw_calls w" by auto
qed

section \<open>What is run\<close>

text \<open>A step that is one command leaves that command behind, whatever it answers.\<close>

lemma guarded_ssh:
  "guarded (captured (ssh_new r ip s)) m w = (x, v) \<Longrightarrow> v = w\<lparr>fw_calls := fw_calls w @ [Ssh 8 True ip (Sh s) None]\<rparr>"
  by (auto simp: guarded_def captured_def ssh_new_def call_def act_catch_def act_bind_def split: sum.splits)

lemma looks_try_gw [act_looks]: "looks (try_gw repo)"
  unfolding try_gw_def load_ap_gw_ip_def by (intro act_looks)

lemma try_gw_world: "try_gw repo w = (x, v) \<Longrightarrow> v = w"
  by (rule looksD [OF looks_try_gw])

lemma try_gw_Some: "try_gw repo w = (Inr (Some gw), v) \<Longrightarrow> check_ipv4 gw = Inr gw"
proof -
  assume "try_gw repo w = (Inr (Some gw), v)"
  then obtain f where "ap_gw_ip_of f = Inr gw"
    by (auto simp: try_gw_def load_ap_gw_ip_def act_catch_def act_bind_def
        split: sum.splits option.splits if_splits prod.splits)
  moreover have "check_ipv4 DEFAULT_GW = Inr DEFAULT_GW" by code_simp
  ultimately show ?thesis
    by (auto simp: ap_gw_ip_of_def Let_def check_ipv4_def split: option.splits if_splits)
qed

lemma align_ok_call:
  assumes "align_send_target r host gw w = (Inr s, v)" and "sr_ok s"
  shows "fw_calls v = fw_calls w @ [Ssh 8 True host (Align_script gw) None]"
  using assms by (auto simp: align_send_target_def act_bind_def call_def split: sum.splits if_splits prod.splits)

lemma align_after_join_ok_call:
  assumes "align_after_join r host n gw w = (Inr s, v)" and "sr_ok s"
  shows "fw_calls v = fw_calls w @ [Ssh 8 True host (Align_script gw) None]"
proof -
  from assms obtain a where "align_send_target r host gw w = (Inr a, v)" "sr_ok a"
    by (auto simp: align_after_join_def act_bind_def split: sum.splits if_splits prod.splits)
  then show ?thesis by (rule align_ok_call)
qed

lemma plain_local_name: "valid_label n \<Longrightarrow> plain_entry (n @ dot_local)"
proof -
  assume v: "valid_label n"
  have d: "\<forall>c \<in> set dot_local. \<not> is_newline c \<and> c \<noteq> CHR ''#''" by (simp add: dot_local_def is_newline_def)
  have c: "\<forall>c \<in> set n. \<not> is_newline c \<and> c \<noteq> CHR ''#'' \<and> \<not> is_space c"
  proof
    fix c assume "c \<in> set n"
    then have "label_char c" by (rule valid_label_chars [OF v])
    moreover have "\<not> label_char CHR ''#''" by code_simp
    ultimately show "\<not> is_newline c \<and> c \<noteq> CHR ''#'' \<and> \<not> is_space c"
      using label_char_not_newline label_char_not_space by blast
  qed
  have ne: "n \<noteq> []" using v by (auto simp: valid_label_def)
  moreover have "\<not> is_space (hd (n @ dot_local))" using ne c by simp
  moreover have "\<not> is_space (last (n @ dot_local))" by (simp add: dot_local_def is_space_def)
  then have "strip (n @ dot_local) = n @ dot_local" using calculation by (intro strip_noop) blast
  moreover have "\<forall>c \<in> set (n @ dot_local). \<not> is_newline c \<and> c \<noteq> CHR ''#''" using c d by (simp add: ball_Un)
  ultimately show ?thesis using ne unfolding plain_entry_def by simp
qed

lemma validate_None: "validate_hostname n ex = None \<Longrightarrow> valid_label n \<and> n \<notin> set (map short ex)"
  by (auto simp: validate_hostname_def split: if_splits)

lemma short_local: "short (n @ dot_local) = n"
  by (simp add: short_def ends_with_def)

section \<open>The wait for a child\<close>

text \<open>What the callers of a wait rely on: it changes no file of the hub and takes no command back.\<close>

locale return_waiter =
  fixes wait :: "string \<Rightarrow> step_result act"
  assumes wait_keeps: "keeps {} (wait mac)"
begin

lemma wait_files: "wait mac w = (x, v) \<Longrightarrow> fw_files v = fw_files w"
  using keepsD [OF wait_keeps] by blast

lemma wait_calls: "wait mac w = (x, v) \<Longrightarrow> \<exists>cs. fw_calls v = fw_calls w @ cs"
  using keeps_extends [OF wait_keeps] by (simp add: extends_def)

lemma on_ok_wait: "on_ok (ran_more w cs P) (wait mac) (\<lambda>_. ran_more w cs P)"
  by (rule on_ok_ran_more, rule keeps_mono [OF wait_keeps]) simp

end

lemma on_ok_ssh:
  "on_ok (ran w cs P) (guarded (captured (ssh_new r ip s)) m) (\<lambda>_. ran w (cs @ [Ssh 8 True ip (Sh s) None]) P)"
  by (rule on_okI) (auto dest!: guarded_ssh intro: keeps_call_ran)

lemma on_ok_stop: "on_ok (ran w cs P) (stop_publisher r ip) (\<lambda>_. ran w (cs @ [Ssh 8 True ip (Sh STOP_REMOTE) None]) P)"
  unfolding stop_publisher_def by (rule on_ok_ssh)

lemma on_ok_blank: "on_ok (ran w cs P) (blank_sta_no r ip) (\<lambda>_. ran w (cs @ [Ssh 8 True ip (Sh BLANK_REMOTE) None]) P)"
  unfolding blank_sta_no_def by (rule on_ok_ssh)

lemma on_ok_rename:
  "on_ok (ran w cs P) (rename_and_reboot r ip new)
     (\<lambda>_. ran_more w (cs @ [Ssh 8 True ip (Sh (rename_remote new)) None]) P)"
  unfolding rename_and_reboot_def
  by (rule on_ok_if, rule on_ok_fail) (rule on_okI, drule (2) on_okD [OF on_ok_ssh], rule ran_moreI)

text \<open>The commands of a registration: the first three, whatever the other steps run, and the alignment.\<close>

definition joined :: "fleet_world \<Rightarrow> fleet_call list \<Rightarrow> string \<Rightarrow> string list \<Rightarrow> fleet_world \<Rightarrow> bool" where
  "joined w cs p es u \<longleftrightarrow> (\<exists>ds. fw_calls u = fw_calls w @ cs @ ds) \<and> inventory_of u p = es"

lemma ran_more_joined: "ran_more w cs P u \<Longrightarrow> p \<notin> P \<Longrightarrow> joined w cs p (inventory_of w p) u"
  unfolding ran_more_def ran_def joined_def inventory_of_def by force

lemma on_ok_add:
  assumes "plain_entry e" and "e \<notin> set es"
  shows "on_ok (joined w cs p es) (add_to_inventory p e) (\<lambda>_. joined w cs p (es @ [e]))"
proof (rule on_okI)
  fix u s v assume "joined w cs p es u" "add_to_inventory p e u = (Inr s, v)" "sr_ok s"
  with add_to_inventory_ok [OF assms(1) this(2,3)] assms(2) show "joined w cs p (es @ [e]) v"
    unfolding joined_def by auto
qed

lemma on_ok_align_join:
  "on_ok (joined w cs p es) (align_after_join r host n gw)
     (\<lambda>_. joined w cs p es)"
proof (rule on_okI)
  fix u s v assume u: "joined w cs p es u" and a: "align_after_join r host n gw u = (Inr s, v)" "sr_ok s"
  have "fw_files v p = fw_files u p" using keepsD [OF keeps_steps(7) a(1), of p "{}"] by simp
  with u align_after_join_ok_call [OF a] show "joined w cs p es v" unfolding joined_def inventory_of_def by auto
qed

context return_waiter
begin

lemma registers:
  assumes p: "hp_known_hosts hp \<noteq> hp_inventory hp" and ex: "inventory_of w (hp_inventory hp) = ex"
  shows "on_ok (\<lambda>u. u = w) (register_new_child r wait hp ex ip mac new)
    (\<lambda>_. joined w [Ssh 8 True ip (Sh STOP_REMOTE) None, Ssh 8 True ip (Sh BLANK_REMOTE) None,
       Ssh 8 True ip (Sh (rename_remote new)) None] (hp_inventory hp) (ex @ [new @ dot_local]))"
proof -
  let ?p = "hp_inventory hp"
  let ?cs = "[Ssh 8 True ip (Sh STOP_REMOTE) None, Ssh 8 True ip (Sh BLANK_REMOTE) None,
       Ssh 8 True ip (Sh (rename_remote new)) None]"
  let ?K = "{hp_known_hosts hp}"
  let ?e = "new @ dot_local"
  have steps: "on_ok (ran w [] ?K) (register_steps r wait hp ex ip mac' new gw) (\<lambda>_. joined w ?cs ?p (ex @ [?e]))"
    (is "on_ok _ _ ?Q") if label: "valid_label new" and fresh: "?e \<notin> set ex" for mac' gw
    unfolding register_steps_def Let_def
  proof (intro on_ok_then)
    show "on_ok (ran w [] ?K) (stop_publisher r ip) (\<lambda>_. ran w [?cs ! 0] ?K)" using on_ok_stop [of w "[]"] by simp
    show "on_ok (ran w [?cs ! 0] ?K) (blank_sta_no r ip) (\<lambda>_. ran w [?cs ! 0, ?cs ! 1] ?K)"
      using on_ok_blank [of w "[?cs ! 0]"] by simp
    show "on_ok (ran w [?cs ! 0, ?cs ! 1] ?K) (rename_and_reboot r ip new) (\<lambda>_. ran_more w ?cs ?K)"
      using on_ok_rename [of w "[?cs ! 0, ?cs ! 1]"] by simp
    show "on_ok (ran_more w ?cs ?K) (wait mac') (\<lambda>_. ran_more w ?cs ?K)" by (rule on_ok_wait)
    show "on_ok (ran_more w ?cs ?K) (restart_mdns r hs) (\<lambda>_. ran_more w ?cs ?K)" for hs
      by (rule on_ok_ran_more) (rule act_keeps)
    show "on_ok (ran_more w ?cs ?K) (register_host_key r (hp_known_hosts hp) ?e) (\<lambda>_. ran_more w ?cs ?K)"
      by (rule on_ok_ran_more) (rule act_keeps, simp)
    show "on_ok (ran_more w ?cs ?K) (add_to_inventory ?p ?e) (\<lambda>_. joined w ?cs ?p (ex @ [?e]))"
      by (rule on_ok_pre [OF on_ok_add [OF plain_local_name [OF label] fresh]]) (use ran_more_joined p ex in fastforce)
    show "on_ok (joined w ?cs ?p (ex @ [?e])) (align_after_join r host ?e gw) (\<lambda>_. joined w ?cs ?p (ex @ [?e]))" for host
      by (rule on_ok_align_join)
    show "on_ok (joined w ?cs ?p (ex @ [?e])) (act_return (step_ok (MsgRegistered new) (Out host))) ?Q" for host
      by (rule on_ok_return)
  qed
  show ?thesis
  proof (cases "validate_hostname new ex")
    case (Some err)
    then show ?thesis by (simp add: register_new_child_def Let_def on_ok_def)
  next
    case None
    have label: "valid_label new" using validate_None [OF None] by simp
    have "new \<notin> set (map short ex)" using validate_None [OF None] by simp
    then have fresh: "?e \<notin> set ex" using short_local by (metis image_eqI list.set_map)
    have "on_ok (\<lambda>u. u = w) (case g of None \<Rightarrow> act_return (step_fail MsgSiteEnv (Out []))
        | Some gw \<Rightarrow> register_steps r wait hp ex ip (lower (strip mac)) new gw) (\<lambda>_. joined w ?cs ?p (ex @ [?e]))" for g
    proof (cases g)
      case (Some gw)
      show ?thesis unfolding Some option.case by (rule on_ok_pre [OF steps [OF label fresh]]) simp
    qed (simp only: option.case on_ok_fail)
    then have "on_ok (\<lambda>u. u = w) (act_bind (try_gw (hp_repo hp)) (\<lambda>g. case g of None \<Rightarrow> act_return (step_fail MsgSiteEnv (Out []))
        | Some gw \<Rightarrow> register_steps r wait hp ex ip (lower (strip mac)) new gw)) (\<lambda>_. joined w ?cs ?p (ex @ [?e]))"
      by (intro on_ok_bind [where R = "\<lambda>_ u. u = w"]) (use try_gw_world in blast)
    then show ?thesis unfolding register_new_child_def Let_def None option.case by (intro on_ok_if on_ok_fail)
  qed
qed

end


interpretation hub_wait: return_waiter "wait_for_return r dev (ssh_alive r) timeout" for r dev timeout
  by unfold_locales (intro act_keeps)

text \<open>C20: a registration that reports success ran the stop, the blanking and the renaming of the child in that
  order before anything else, and the inventory holds the new name at its end and what it held before.
\<close>

theorem registration_lists_the_renamed_child:
  assumes "register_new_child r (wait_for_return r dev (ssh_alive r) WAIT_TIMEOUT) hp
      (inventory_of w (hp_inventory hp)) ip mac new w = (Inr s, v)"
    and "sr_ok s" and "hp_known_hosts hp \<noteq> hp_inventory hp"
  shows "(\<exists>ds. fw_calls v = fw_calls w @ [Ssh 8 True ip (Sh STOP_REMOTE) None, Ssh 8 True ip (Sh BLANK_REMOTE) None,
       Ssh 8 True ip (Sh (rename_remote new)) None] @ ds)
    \<and> inventory_of v (hp_inventory hp) = inventory_of w (hp_inventory hp) @ [new @ dot_local]"
  using on_okD [OF hub_wait.registers [OF assms(3) refl] refl assms(1,2)] unfolding joined_def by simp

definition ex_paths :: hub_paths where
  "ex_paths = \<lparr>hp_known_hosts = ''known_hosts'', hp_inventory = ''children.conf'', hp_repo = ''repo''\<rparr>"

definition ex_hub :: fleet_world where
  "ex_hub = \<lparr>fw_calls = [], fw_files = [''children.conf'' \<mapsto> ''tpc1-001.local'' @ [nl],
     ''repo/site.env'' \<mapsto> ''AP_GW_IP=10.42.1.1'' @ [nl]], fw_denied = (\<lambda>_. False), fw_slept = 0\<rparr>"

text \<open>A network in which the child comes back at another address after the reboot.\<close>

definition ex_network :: runner where
  "ex_network h c = (case c of
      Neigh_show d \<Rightarrow> Inr (''10.42.1.8 lladdr b8:27:eb:00:00:01 REACHABLE'' @ [nl])
    | Ssh t n host (Align_script gw) i \<Rightarrow> ex_answer h c
    | Ssh t n host (Sh s) i \<Rightarrow> Inr (if s = ''hostname'' then ''zero2'' @ [nl] else [])
    | Keyscan n \<Rightarrow> Inr (''|1| ssh-ed25519 AAAA'' @ [nl])
    | _ \<Rightarrow> Inr [])"

lemma registration_lists_the_renamed_child_witness:
  "\<exists>s v. register_new_child ex_network (wait_for_return ex_network ''wlan1'' (ssh_alive ex_network) WAIT_TIMEOUT) ex_paths
      (inventory_of ex_hub (hp_inventory ex_paths)) ''10.42.1.7'' ''B8:27:EB:00:00:01'' ''tpc1-002'' ex_hub = (Inr s, v)
    \<and> inventory_of v (hp_inventory ex_paths) = inventory_of ex_hub (hp_inventory ex_paths) @ [''tpc1-002'' @ dot_local]"
proof -
  let ?run = "register_new_child ex_network (wait_for_return ex_network ''wlan1'' (ssh_alive ex_network) WAIT_TIMEOUT) ex_paths
      (inventory_of ex_hub (hp_inventory ex_paths)) ''10.42.1.7'' ''B8:27:EB:00:00:01'' ''tpc1-002'' ex_hub"
  have "case ?run of (Inr s, v) \<Rightarrow> sr_ok s | _ \<Rightarrow> False" by code_simp
  then obtain s v where "?run = (Inr s, v)" "sr_ok s" by (auto split: prod.splits sum.splits)
  moreover have "hp_known_hosts ex_paths \<noteq> hp_inventory ex_paths" by (simp add: ex_paths_def)
  ultimately show ?thesis using registration_lists_the_renamed_child by blast
qed


section \<open>The wait is bounded\<close>

lemma ssh_alive_world: "ssh_alive r ip w = (x, v) \<Longrightarrow> v = w\<lparr>fw_calls := fw_calls w @ [Ssh 5 True ip (Sh ''true'') None]\<rparr>
    \<and> x = Inr (isl_ok (r (fw_calls w) (Ssh 5 True ip (Sh ''true'') None)))"
  by (auto simp: ssh_alive_def act_catch_def act_bind_def call_def isl_ok_def split: sum.splits)

text \<open>An answer that lets the wait end: a neighbour of this MAC in some table, and a probe that returned.\<close>

definition seen_answering :: "runner \<Rightarrow> string \<Rightarrow> string \<Rightarrow> string \<Rightarrow> bool" where
  "seen_answering r dev mac ip \<longleftrightarrow>
    (\<exists>h t n h'. r h (Neigh_show dev) = Inr t \<and> n \<in> set (parse_neigh t) \<and> nb_mac n = mac \<and> nb_ip n = ip
       \<and> isl_ok (r h' (Ssh 5 True ip (Sh ''true'') None)))"

lemma wait_rounds_result:
  assumes "wait_rounds r dev (ssh_alive r) timeout mac k seen w = (Inr s, v)"
  shows "fw_slept v \<le> fw_slept w + 5 * k
    \<and> (if sr_ok s then \<exists>ip. sr_output s = Out ip \<and> seen_answering r dev mac ip
       else fw_slept v = fw_slept w + 5 * k)"
  using assms
proof (induction k arbitrary: seen w)
  case 0
  then show ?case by auto
next
  case (Suc k)
  obtain t where t: "r (fw_calls w) (Neigh_show dev) = Inr t"
    using Suc.prems by (auto simp: act_bind_def call_def split: sum.splits)
  define u where "u = w\<lparr>fw_calls := fw_calls w @ [Neigh_show dev]\<rparr>"
  have c: "call r (Neigh_show dev) w = (Inr t, u)" by (simp add: call_def t u_def)
  have later: ?case if "wait_rounds r dev (ssh_alive r) timeout mac k sn (snd (sleep 5 x)) = (Inr s, v)" and "fw_slept x = fw_slept w" for sn x
    using Suc.IH [OF that(1)] that(2) by (auto simp: sleep_def)
  show ?case
  proof (cases "find (\<lambda>n. nb_mac n = mac) (parse_neigh t)")
    case None
    have "wait_rounds r dev (ssh_alive r) timeout mac k seen (snd (sleep 5 u)) = (Inr s, v)"
      using Suc.prems None by (simp add: act_bind_def c sleep_def)
    then show ?thesis by (rule later) (simp add: u_def)
  next
    case (Some n)
    then have n: "n \<in> set (parse_neigh t)" "nb_mac n = mac" by (auto simp: find_Some_iff)
    obtain b x where a: "ssh_alive r (nb_ip n) u = (b, x)" by (cases "ssh_alive r (nb_ip n) u")
    note aw = ssh_alive_world [OF a]
    have xs: "fw_slept x = fw_slept w" using aw by (simp add: u_def)
    show ?thesis
    proof (cases "isl_ok (r (fw_calls u) (Ssh 5 True (nb_ip n) (Sh ''true'') None))")
      case True
      with aw Suc.prems Some have "s = step_ok (MsgReturned (nb_ip n)) (Out (nb_ip n))" "v = x"
        by (simp_all add: act_bind_def c a)
      moreover have "seen_answering r dev mac (nb_ip n)" unfolding seen_answering_def using t n True by blast
      ultimately show ?thesis using xs by simp
    next
      case False
      have "wait_rounds r dev (ssh_alive r) timeout mac k (nb_ip n) (snd (sleep 5 x)) = (Inr s, v)"
        using Suc.prems Some aw False by (simp add: act_bind_def c a sleep_def)
      then show ?thesis using xs by (rule later)
    qed
  qed
qed

text \<open>C32: the wait for a rebooted child sleeps at most the time-out, rounded up to five seconds, and gives up only
  after all of it; when it succeeds it names the address of a neighbour with the child's MAC at which the probe
  returned.
\<close>

theorem wait_is_bounded_and_names_the_child:
  assumes "wait_for_return r dev (ssh_alive r) timeout mac w = (Inr s, v)"
  shows "fw_slept v \<le> fw_slept w + 5 * ((timeout + 4) div 5)
    \<and> (if sr_ok s then \<exists>ip. sr_output s = Out ip \<and> seen_answering r dev (lower mac) ip
       else fw_slept v = fw_slept w + 5 * ((timeout + 4) div 5))"
  using wait_rounds_result [of r dev timeout "lower mac" _ "[]" w s v] assms unfolding wait_for_return_def by blast

lemma wait_is_bounded_and_names_the_child_witness:
  "\<exists>s v. wait_for_return ex_network ''wlan1'' (ssh_alive ex_network) 180 ''B8:27:EB:00:00:01'' ex_hub = (Inr s, v)
     \<and> fw_slept v \<le> fw_slept ex_hub + 180"
proof -
  let ?run = "wait_for_return ex_network ''wlan1'' (ssh_alive ex_network) 180 ''B8:27:EB:00:00:01'' ex_hub"
  have "isl_ok (fst ?run)" by code_simp
  then obtain s v where r: "?run = (Inr s, v)" by (cases ?run) (auto simp: isl_ok_def split: sum.splits)
  with wait_is_bounded_and_names_the_child [OF r] show ?thesis by simp
qed

section \<open>What the commands of the hub hide\<close>

text \<open>An address at which nothing answers: every command sent there times out, cannot be started, or is ended by
  \<open>ssh\<close> itself, which exits with 255.\<close>

definition silent :: "network \<Rightarrow> string \<Rightarrow> bool" where
  "silent os ip \<longleftrightarrow> (\<forall>h t new remote inp. os h (Ssh t new ip remote inp) \<in> {Timed_out, Not_started, Exited 255 []})"

lemma call_silent:
  assumes "silent os ip"
  shows "call (run_cmd os) (Ssh t new ip remote inp) w = (Inr [], w\<lparr>fw_calls := fw_calls w @ [Ssh t new ip remote inp]\<rparr>)"
proof -
  have "os (fw_calls w) (Ssh t new ip remote inp) \<in> {Timed_out, Not_started, Exited 255 []}"
    using assms unfolding silent_def by blast
  then show ?thesis by (auto simp: call_def run_cmd_def)
qed

text \<open>C35: a child that answers nothing passes the wizard up to the last step. \<open>run_cmd\<close> gives an empty text for every
  command that failed or timed out, so the steps that stop the sender, blank the stations, rename the child and
  announce the names again each report success with an empty output, and the wait for the child's return, as long as
  the neighbour table still has its MAC, reports it as back at once, after one probe that nobody answered. Only the
  step that sets the send target, which reads back what it wrote, reports a failure.
\<close>

theorem silent_child_passes_the_wait:
  assumes dead: "silent os ip" and "valid_label new" and "0 < timeout" and gw: "check_ipv4 gw = Inr gw"
    and table: "os (fw_calls w) (Neigh_show dev) = Exited rc t"
      "find (\<lambda>n. nb_mac n = lower mac) (parse_neigh (universal_newlines t)) = Some n" "nb_ip n = ip"
  shows "fst (stop_publisher (run_cmd os) ip w) = Inr (step_ok MsgStopped (Out []))
    \<and> fst (blank_sta_no (run_cmd os) ip w) = Inr (step_ok MsgBlanked (Out []))
    \<and> fst (rename_and_reboot (run_cmd os) ip new w) = Inr (step_ok (MsgRenamed new) (Out []))
    \<and> fst (restart_mdns (run_cmd os) [ip] w) = Inr (step_ok (MsgMdns 1) (Out []))
    \<and> wait_for_return (run_cmd os) dev (ssh_alive (run_cmd os)) timeout mac w
        = (Inr (step_ok (MsgReturned ip) (Out ip)),
           w\<lparr>fw_calls := fw_calls w @ [Neigh_show dev, Ssh 5 True ip (Sh ''true'') None]\<rparr>)
    \<and> (\<exists>s v. align_send_target (run_cmd os) ip gw w = (Inr s, v) \<and> \<not> sr_ok s)"
proof (intro conjI)
  obtain k where k: "(timeout + 4) div 5 = Suc k" using assms(3) by (cases "(timeout + 4) div 5") auto
  note steps = guarded_def captured_def ssh_new_def act_catch_def act_bind_def call_silent [OF dead]
  show "fst (stop_publisher (run_cmd os) ip w) = Inr (step_ok MsgStopped (Out []))" by (simp add: stop_publisher_def steps)
  show "fst (blank_sta_no (run_cmd os) ip w) = Inr (step_ok MsgBlanked (Out []))" by (simp add: blank_sta_no_def steps)
  show "fst (rename_and_reboot (run_cmd os) ip new w) = Inr (step_ok (MsgRenamed new) (Out []))"
    using assms(2) by (simp add: rename_and_reboot_def steps)
  show "fst (restart_mdns (run_cmd os) [ip] w) = Inr (step_ok (MsgMdns 1) (Out []))" by (simp add: restart_mdns_def steps)
  have c: "call (run_cmd os) (Neigh_show dev) w = (Inr (universal_newlines t), w\<lparr>fw_calls := fw_calls w @ [Neigh_show dev]\<rparr>)"
    by (simp add: call_def run_cmd_def table(1))
  show "wait_for_return (run_cmd os) dev (ssh_alive (run_cmd os)) timeout mac w
      = (Inr (step_ok (MsgReturned ip) (Out ip)),
         w\<lparr>fw_calls := fw_calls w @ [Neigh_show dev, Ssh 5 True ip (Sh ''true'') None]\<rparr>)"
    unfolding wait_for_return_def k by (simp add: c table(2,3) ssh_alive_def steps)
  have "align_problems gw (parse_align_output []) = Inr [Not_read_back]"
    by (simp add: align_problems_def parse_align_output_def rb_def READBACK_KEYS_def dict_get_def)
  then show "\<exists>s v. align_send_target (run_cmd os) ip gw w = (Inr s, v) \<and> \<not> sr_ok s"
    using gw by (cases "safe_host ip") (simp_all add: align_send_target_def steps)
qed

definition ex_dead_network :: network where
  "ex_dead_network h c = (case c of
      Neigh_show d \<Rightarrow> Exited 0 (''10.42.0.7 lladdr b8:27:eb:00:00:01 STALE'' @ [nl])
    | _ \<Rightarrow> Timed_out)"

lemma silent_child_passes_the_wait_witness:
  "fst (wait_for_return (run_cmd ex_dead_network) ''wlan1'' (ssh_alive (run_cmd ex_dead_network)) 180 ''b8:27:eb:00:00:01'' ex_hub)
     = Inr (step_ok (MsgReturned ''10.42.0.7'') (Out ''10.42.0.7''))
   \<and> fst (rename_and_reboot (run_cmd ex_dead_network) ''10.42.0.7'' ''tpc1-002'' ex_hub) = Inr (step_ok (MsgRenamed ''tpc1-002'') (Out []))"
proof -
  let ?t = "''10.42.0.7 lladdr b8:27:eb:00:00:01 STALE'' @ [nl]"
  let ?n = "\<lparr>nb_ip = ''10.42.0.7'', nb_mac = ''b8:27:eb:00:00:01'', nb_state = ''STALE''\<rparr>"
  have dead: "silent ex_dead_network ''10.42.0.7''" by (simp add: silent_def ex_dead_network_def)
  have new: "valid_label ''tpc1-002''" by code_simp
  have gw: "check_ipv4 ''10.42.0.1'' = Inr ''10.42.0.1''" by code_simp
  have t: "ex_dead_network (fw_calls ex_hub) (Neigh_show ''wlan1'') = Exited 0 ?t" by (simp add: ex_dead_network_def)
  have n: "find (\<lambda>n. nb_mac n = lower ''b8:27:eb:00:00:01'') (parse_neigh (universal_newlines ?t)) = Some ?n" by code_simp
  have ip: "nb_ip ?n = ''10.42.0.7''" by simp
  have pos: "(0 :: nat) < 180" by simp
  from silent_child_passes_the_wait [OF dead new pos gw t n ip] show ?thesis by simp
qed

section \<open>Adoption\<close>

definition adopt_call :: "string \<Rightarrow> fleet_call \<Rightarrow> bool" where
  "adopt_call ip c \<longleftrightarrow> c = Ssh 3 True ip (Sh ''hostname'') None \<or> (\<exists>h. c = Keyscan h)
     \<or> (\<exists>gw. c = Ssh 8 True ip (Align_script gw) None)"

lemma issues_adopt_steps [act_issues]:
  "issues (adopt_call ip) (try_gw repo)" "issues (adopt_call ip) (probe_hostname r ip)"
  "issues (adopt_call ip) (register_host_key r k h)" "issues (adopt_call ip) (add_to_inventory p e)"
  "issues (adopt_call ip) (align_after_join r ip n gw)"
  unfolding try_gw_def load_ap_gw_ip_def probe_hostname_def register_host_key_def add_to_inventory_def Let_def
    align_after_join_def align_send_target_def adopt_call_def
  by (intro act_issues; simp)+

text \<open>Adopting a child never runs anything that would change its name or its stations: the only commands are
  the question for its host name, the key scan and the script that sets the send target.
\<close>

theorem adoption_keeps_name_and_stations:
  assumes "adopt_keeping_identity r hp existing ip w = (x, v)"
  shows "\<exists>cs. fw_calls v = fw_calls w @ cs \<and> list_all (adopt_call ip) cs"
proof -
  have "issues (adopt_call ip) (adopt_keeping_identity r hp existing ip)"
    unfolding adopt_keeping_identity_def Let_def by (intro act_issues)
  from issuesD [OF this assms] show ?thesis .
qed

lemma adoption_keeps_name_and_stations_witness:
  "\<exists>cs. fw_calls (snd (adopt_keeping_identity ex_network ex_paths [''tpc1-001.local''] ''10.42.1.7'' ex_hub)) = fw_calls ex_hub @ cs
     \<and> list_all (adopt_call ''10.42.1.7'') cs"
  by (rule adoption_keeps_name_and_stations [OF prod.collapse [symmetric]])

end
