(* ===== verification/Fleet_Migrate.thy ===== *)
theory Fleet_Migrate
  imports Fleet_Provision Sha1
begin

text \<open>
  \<open>fleet_ui/migrate.py\<close>: a child is taken over from the hub it hangs on. The new hub reaches it through the old
  parent: it asks for the MAC, installs its key, hands over the Wi-Fi profile, waits for the child at its own
  access point, lists it, sets its send target and takes it out of the old parent's inventory.
\<close>

section \<open>Checks of what is passed on\<close>

text \<open>\<open>_IPV4_RE\<close>, \<open>_HOST_RE\<close>, \<open>_PUBKEY_RE\<close>, \<open>_PRINTABLE\<close> and \<open>_HEX64\<close>; those that end in \<open>$\<close> allow a final line feed.\<close>

definition ipv4_num :: "string \<Rightarrow> bool" where
  "ipv4_num p \<longleftrightarrow> digits_1_3 p \<and> digits_value p \<le> 255"

definition ipv4_re :: "string \<Rightarrow> bool" where
  "ipv4_re = dollar (\<lambda>s. length (split_on CHR ''.'' s) = 4 \<and> list_all ipv4_num (split_on CHR ''.'' s))"

definition alnum :: "char \<Rightarrow> bool" where
  "alnum c \<longleftrightarrow> is_lower_az c \<or> is_upper_az c \<or> is_digit c"

definition host_re :: "string \<Rightarrow> bool" where
  "host_re = dollar (\<lambda>s. case s of [] \<Rightarrow> False
     | c # cs \<Rightarrow> alnum c \<and> (cs = [] \<or> length cs \<le> 252 \<and> alnum (last cs)
         \<and> list_all (\<lambda>d. alnum d \<or> d = CHR ''.'' \<or> d = CHR ''-'') (butlast cs)))"

definition shell_char :: "char \<Rightarrow> bool" where
  "shell_char c \<longleftrightarrow> c \<in> set '';|&$()`<>'' \<or> c = dq \<or> c = sq \<or> c = bsl"

definition validate_old_host :: "string \<Rightarrow> old_host_error option" where
  "validate_old_host host0 =
    (let host = strip host0 in
     if host = [] then Some OldHostEmpty
     else if starts_with ''-'' host \<or> list_ex (\<lambda>c. c \<in> set ''@/ '') host then Some OldHostChars
     else if list_ex shell_char host then Some OldHostChars
     else if ipv4_re host then None
     else if host_re host \<and> \<not> is_infix ''..'' host then None
     else Some OldHostForm)"

definition KEY_TYPES :: "string list" where
  "KEY_TYPES = [''ssh-ed25519'', ''ssh-rsa'', ''ecdsa-sha2-nistp256'']"

definition key_char :: "char \<Rightarrow> bool" where
  "key_char c \<longleftrightarrow> alnum c \<or> c \<in> set ''+/=''"

definition pubkey_re :: "string \<Rightarrow> bool" where
  "pubkey_re line = (case partition_on CHR '' '' line of (kind, sep, body) \<Rightarrow>
     kind \<in> set KEY_TYPES \<and> sep \<and> takeWhile key_char body \<noteq> []
     \<and> (dropWhile key_char body = [] \<or> hd (dropWhile key_char body) = CHR '' ''))"

definition printable_re :: "string \<Rightarrow> bool" where
  "printable_re = dollar (\<lambda>s. s \<noteq> [] \<and> list_all (\<lambda>c. between 32 c 126) s)"

definition hex64_re :: "string \<Rightarrow> bool" where
  "hex64_re = dollar (\<lambda>s. length s = 64 \<and> list_all (\<lambda>c. is_digit c \<or> between 65 c 70 \<or> between 97 c 102) s)"

definition psk_valid :: "string \<Rightarrow> bool" where
  "psk_valid psk \<longleftrightarrow> hex64_re psk \<or> (8 \<le> length psk \<and> length psk \<le> 63 \<and> printable_re psk)"

section \<open>The hub's own Wi-Fi and key\<close>

definition env_value :: "string \<Rightarrow> string \<Rightarrow> string act" where
  "env_value path key = act_bind (read_file path) (\<lambda>f. act_return (env_file_value f key))"

definition load_ap_join :: "string \<Rightarrow> (string \<times> string) act" where
  "load_ap_join repo =
    act_bind (env_value (repo @ ''/.kit/ap-join.env'') ''AP_SSID'') (\<lambda>ssid0.
    act_bind (env_value (repo @ ''/.kit/ap-join.env'') ''WIFI_AP_PSK'') (\<lambda>psk0.
    act_bind (if ssid0 = [] then env_value (repo @ ''/site.env'') ''AP_SSID'' else act_return ssid0) (\<lambda>ssid.
    act_bind (if psk0 = [] then env_value (repo @ ''/.kit/secrets.env'') ''WIFI_AP_PSK'' else act_return psk0) (\<lambda>psk.
      act_return (ssid, psk)))))"

definition read_pubkey :: "string \<Rightarrow> string act" where
  "read_pubkey path = act_bind (read_file path) (\<lambda>f. act_return (case f of None \<Rightarrow> [] | Some t \<Rightarrow> strip t))"

record migrate_status =
  ms_pubkey :: string
  ms_ap_ssid :: string
  ms_has_psk :: bool

definition migrate_status_of :: "string \<Rightarrow> string \<Rightarrow> migrate_status act" where
  "migrate_status_of repo pubkey_path =
    act_bind (load_ap_join repo) (\<lambda>(ssid, psk). act_bind (read_pubkey pubkey_path) (\<lambda>k.
      act_return \<lparr>ms_pubkey = k, ms_ap_ssid = ssid, ms_has_psk = (psk \<noteq> [])\<rparr>))"

section \<open>The connection file\<close>

text \<open>\<open>nm_escape_psk\<close>: backslashes doubled, every leading space as \<open>\s\<close>.\<close>

definition double_bsl :: "string \<Rightarrow> string" where
  "double_bsl s = concat (map (\<lambda>c. if c = bsl then [bsl, bsl] else [c]) s)"

definition nm_escape_psk :: "string \<Rightarrow> string" where
  "nm_escape_psk psk =
    (let v = double_bsl psk;
         stripped = dropWhile (\<lambda>c. c = CHR '' '') v in
     concat (replicate (length v - length stripped) [bsl, CHR ''s'']) @ stripped)"

definition nm_ssid :: "string \<Rightarrow> string py" where
  "nm_ssid ssid =
    (let raw = utf8 ssid in
     if \<not> (1 \<le> length raw \<and> length raw \<le> 32) then Inl ValueError
     else if 0 \<in> set raw then Inl ValueError
     else if printable_re ssid \<and> bsl \<notin> set ssid \<and> hd ssid \<noteq> CHR '' '' \<and> last ssid \<noteq> CHR '' ''
       then Inr (concat (map (\<lambda>c. if c = CHR '';'' then [bsl, bsl, c] else [c]) ssid))
     else Inr (concat (map (\<lambda>b. nat_text b @ '';'') raw)))"

text \<open>The text of \<open>uuid.uuid4()\<close> is a parameter.\<close>

definition nm_join_keyfile :: "string \<Rightarrow> string \<Rightarrow> string \<Rightarrow> string py" where
  "nm_join_keyfile uuid ssid psk = py_bind (nm_ssid ssid) (\<lambda>s. Inr (concat (map (\<lambda>l. l @ [nl])
    [''[connection]'', ''id=presence-hub-join'', ''uuid='' @ uuid, ''type=wifi'', ''autoconnect=true'',
     ''autoconnect-priority=200'', ''autoconnect-retries=0'', '''',
     ''[wifi]'', ''mode=infrastructure'', ''ssid='' @ s, '''',
     ''[wifi-security]'', ''key-mgmt=wpa-psk'', ''psk='' @ nm_escape_psk psk, '''',
     ''[ipv4]'', ''method=auto'', '''', ''[ipv6]'', ''method=ignore''])))"

section \<open>Commands through the old parent\<close>

definition ssh_pi :: "runner \<Rightarrow> string \<Rightarrow> string \<Rightarrow> string option \<Rightarrow> string act" where
  "ssh_pi r host remote inp = call r (Ssh 8 True host (Sh remote) inp)"

definition nested_ssh :: "string \<Rightarrow> string \<Rightarrow> string" where
  "nested_ssh entry inner =
    ''ssh -o ConnectTimeout=8 -o BatchMode=yes -o StrictHostKeyChecking=accept-new pi@'' @ shlex_quote entry
     @ '' '' @ shlex_quote inner"

definition CAT_OK :: string where "CAT_OK = ''__PRESENCE_CAT_OK__''"
definition MISSING :: string where "MISSING = ''__PRESENCE_MISSING__''"
definition KEY_OK :: string where "KEY_OK = ''KEY_OK''"

definition DEFAULT_REMOTE_INVENTORY :: string where
  "DEFAULT_REMOTE_INVENTORY = ''~/projects/presence-logger/fleet/children.conf''"

text \<open>\<open>out[: out.rfind(p)]\<close> for a \<open>p\<close> that occurs.\<close>

fun before_last :: "string \<Rightarrow> string \<Rightarrow> string option" where
  "before_last p [] = (if p = [] then Some [] else None)"
| "before_last p (c # cs) = (case before_last p cs of
      Some t \<Rightarrow> Some (c # t)
    | None \<Rightarrow> if starts_with p (c # cs) then Some [] else None)"

datatype remote_read = Remote_ok string | Remote_missing | Remote_fail

definition read_inventory_remote :: "string \<Rightarrow> string" where
  "read_inventory_remote path = ''if test -f '' @ path @ ''; then cat '' @ path @ ''; printf ''
     @ quoted sq (bsl # ''n'' @ CAT_OK @ bsl # ''n'') @ ''; else echo '' @ MISSING @ ''; fi''"

definition remote_inventory_of :: "string \<Rightarrow> remote_read" where
  "remote_inventory_of out =
    (let lines = filter (\<lambda>l. l \<noteq> []) (splitlines out) in
     if lines \<noteq> [] \<and> last lines = MISSING \<and> \<not> is_infix CAT_OK out then Remote_missing
     else case before_last CAT_OK out of None \<Rightarrow> Remote_fail | Some t \<Rightarrow> Remote_ok t)"

definition read_remote_inventory :: "runner \<Rightarrow> string \<Rightarrow> string \<Rightarrow> remote_read act" where
  "read_remote_inventory r old_host path =
    act_bind (ssh_pi r old_host (read_inventory_remote path) None) (\<lambda>out. act_return (remote_inventory_of out))"

definition list_remote_children :: "runner \<Rightarrow> string \<Rightarrow> string \<Rightarrow> string \<Rightarrow> step_result act" where
  "list_remote_children r pubkey_path path old_host =
    (case validate_old_host old_host of
        Some err \<Rightarrow> act_return (step_fail (MsgOldHost err) (Out []))
      | None \<Rightarrow> act_bind (read_remote_inventory r old_host path) (\<lambda>m. case m of
            Remote_ok t \<Rightarrow> (let entries = parse_children_conf t in
              act_return (step_ok (MsgCount (length entries)) (Out (join_with [nl] entries))))
          | _ \<Rightarrow> act_bind (read_pubkey pubkey_path) (\<lambda>k.
              act_return (step_fail (MsgNoRemoteList (if k = [] then None else Some old_host)) (Out [])))))"

text \<open>\<open>_extract_mac\<close>: the first word that is a MAC.\<close>

definition extract_mac :: "string \<Rightarrow> string" where
  "extract_mac t = (case find (\<lambda>w. mac_form w) (map lower (words t)) of None \<Rightarrow> [] | Some m \<Rightarrow> m)"

definition MAC_INNER :: string where
  "MAC_INNER = ''cat /sys/class/net/wlan0/address 2>/dev/null || cat /sys/class/net/wlan1/address 2>/dev/null''"

definition key_inner :: "string \<Rightarrow> string" where
  "key_inner pubkey =
     ''umask 077; mkdir -p ~/.ssh; touch ~/.ssh/authorized_keys; grep -qxF '' @ shlex_quote pubkey
     @ '' ~/.ssh/authorized_keys || printf '' @ quoted sq (''%s'' @ bsl # ''n'') @ '' '' @ shlex_quote pubkey
     @ '' >> ~/.ssh/authorized_keys; grep -qxF '' @ shlex_quote pubkey
     @ '' ~/.ssh/authorized_keys && echo '' @ KEY_OK"

definition WIFI_INSTALL :: string where
  \<open>WIFI_INSTALL = join_with [nl]
    [''umask 077'',
     ''tmp=$(mktemp)'',
     ''cat > "$tmp" || exit 1'',
     ''sudo install -m 600 "$tmp" /etc/NetworkManager/system-connections/presence-hub-join.nmconnection'',
     ''rm -f "$tmp"'',
     ''sudo nmcli connection reload'',
     ''sw=$(mktemp)'',
     ''cat > "$sw" <<'' @ quoted sq ''SWITCH'',
     ''prev=$(nmcli -t -f NAME,TYPE connection show --active 2>/dev/null | while IFS=: read -r n t; do'',
     ''  [ "$t" = "802-11-wireless" ] || [ "$t" = "wifi" ] || continue'',
     ''  [ "$n" = "presence-hub-join" ] && continue'',
     ''  echo "$n"; break'',
     '')'',
     ''if nmcli -w 15 connection up presence-hub-join; then'',
     ''  nmcli -t -f NAME,TYPE connection show 2>/dev/null | while IFS=: read -r n t; do'',
     ''    [ "$t" = "802-11-wireless" ] || [ "$t" = "wifi" ] || continue'',
     ''    [ "$n" = "presence-hub-join" ] && continue'',
     ''    nmcli connection modify "$n" connection.autoconnect no 2>/dev/null || true'',
     ''  done'',
     ''  echo WIFI_OK'',
     ''else'',
     ''  nmcli connection modify presence-hub-join connection.autoconnect no 2>/dev/null || true'',
     ''  [ -z "$prev" ] || nmcli -w 15 connection up "$prev"'',
     ''  echo WIFI_FAILED'',
     ''fi'',
     ''rm -f "$0"'',
     ''SWITCH'',
     ''sudo systemd-run --unit=presence-hub-join-switch --collect bash "$sw"'']\<close>


section \<open>Taking a child over\<close>

record take_env =
  te_hub :: hub_paths
  te_pubkey_path :: string
  te_remote_inventory :: string
  te_uuid :: string

definition bad_entry :: "string \<Rightarrow> bool" where
  "bad_entry e \<longleftrightarrow> e = [] \<or> list_ex (\<lambda>c. shell_char c \<or> c = CHR '' '' \<or> c = CHR 0x09) e"

text \<open>The checks on this side: the key to install, the name and password of the access point, the gateway.\<close>

definition take_checks :: "take_env \<Rightarrow> string \<Rightarrow> string \<Rightarrow> (step_result + (string \<times> string \<times> string \<times> string)) act" where
  "take_checks env entry pubkey0 =
    (let hp = te_hub env; no = (\<lambda>m. act_return (Inl (step_fail m (Out [])))) in
     act_bind (read_file (hp_inventory hp)) (\<lambda>f.
       let existing = (case f of None \<Rightarrow> [] | Some t \<Rightarrow> t) in
       case validate_hostname (short entry) (parse_children_conf existing) of Some err \<Rightarrow> no (MsgHost err)
       | None \<Rightarrow> act_bind (if pubkey0 = [] then read_pubkey (te_pubkey_path env) else act_return pubkey0) (\<lambda>pubkey.
           if pubkey = [] \<or> \<not> pubkey_re (takeWhile (\<lambda>c. c \<noteq> nl) pubkey) then no MsgNoPubkey
           else act_bind (load_ap_join (hp_repo hp)) (\<lambda>(ssid, psk).
             if ssid = [] \<or> psk = [] then no MsgNoApJoin
             else if \<not> psk_valid psk then no MsgBadPsk
             else if \<not> (1 \<le> length (utf8 ssid) \<and> length (utf8 ssid) \<le> 32) \<or> char_of (0 :: nat) \<in> set ssid then no MsgBadSsid
             else act_bind (try_gw (hp_repo hp)) (\<lambda>g. case g of
                 None \<Rightarrow> no MsgSiteEnv
               | Some gw \<Rightarrow> act_return (Inr (pubkey, ssid, psk, gw)))))))"

definition write_remote :: "string \<Rightarrow> string \<Rightarrow> string" where
  "write_remote t path = ''printf %s '' @ shlex_quote t @ '' > '' @ path"

text \<open>The last part: the old parent's inventory, read again, loses the child; a failed read changes nothing there.\<close>

definition take_cleanup :: "runner \<Rightarrow> take_env \<Rightarrow> string \<Rightarrow> string \<Rightarrow> fleet_out \<Rightarrow> step_result act" where
  "take_cleanup r env old_host entry out =
    act_bind (read_remote_inventory r old_host (te_remote_inventory env)) (\<lambda>m. case m of
        Remote_ok t \<Rightarrow>
          act_bind (ssh_pi r old_host (write_remote (strip_inventory_entry t entry) (te_remote_inventory env)) None) (\<lambda>_.
            act_return (step_ok (MsgMoved entry) out))
      | _ \<Rightarrow> act_return (step_ok (MsgMovedStale entry) out))"

text \<open>The part after the child has appeared here.\<close>

definition take_join :: "runner \<Rightarrow> take_env \<Rightarrow> string \<Rightarrow> string \<Rightarrow> string \<Rightarrow> step_result \<Rightarrow> step_result act" where
  "take_join r env old_host entry gw waited =
    (let inv_name = inventory_name entry; ip = strip (out_text (sr_output waited)); kh_path = hp_known_hosts (te_hub env) in
     act_bind (register_host_key r kh_path inv_name) (\<lambda>kh1.
     then_step (if strip (out_text (sr_output kh1)) = [] \<and> ipv4_re ip then register_host_key r kh_path ip else act_return kh1) (\<lambda>_.
     then_step (add_to_inventory (hp_inventory (te_hub env)) inv_name) (\<lambda>_.
       if ipv4_re ip \<and> \<not> ip_in_subnet ip gw 24 then act_return (step_fail (MsgWrongSubnet entry ip gw) (sr_output waited))
       else act_bind (align_send_target r (if ipv4_re ip then ip else inv_name) gw) (\<lambda>a.
         if \<not> sr_ok a then act_return (step_fail (MsgMovedNotAligned entry gw inv_name (sr_message a)) (sr_output a))
         else take_cleanup r env old_host entry (sr_output waited))))))"

text \<open>The switch of the Wi-Fi; the answer is cut off when it succeeds, so only the wait decides.\<close>

definition take_switch ::
  "runner \<Rightarrow> (string \<Rightarrow> step_result act) \<Rightarrow> take_env \<Rightarrow> string \<Rightarrow> string \<Rightarrow> string \<Rightarrow> string \<Rightarrow> string \<Rightarrow> string \<Rightarrow> step_result act" where
  "take_switch r wait_fn env old_host entry ssid gw mac keyfile =
    act_bind (ssh_pi r old_host (nested_ssh entry WIFI_INSTALL) (Some keyfile)) (\<lambda>wifi_out.
    act_bind (wait_fn mac) (\<lambda>waited.
      if \<not> sr_ok waited then
        act_return (step_fail (MsgNotOnAp entry ssid (sr_message waited)) (Out (wifi_out @ out_text (sr_output waited))))
      else take_join r env old_host entry gw waited))"

definition take_over ::
  "runner \<Rightarrow> (string \<Rightarrow> step_result act) \<Rightarrow> take_env \<Rightarrow> string \<Rightarrow> string \<Rightarrow> string \<times> string \<times> string \<times> string \<Rightarrow> step_result act" where
  "take_over r wait_fn env old_host entry = (\<lambda>(pubkey, ssid, psk, gw).
    act_bind (ssh_pi r old_host (nested_ssh entry MAC_INNER) None) (\<lambda>mac_out.
      if extract_mac mac_out = [] then act_return (step_fail (MsgNoMac entry) (Out mac_out))
      else act_bind (ssh_pi r old_host (nested_ssh entry (key_inner pubkey)) None) (\<lambda>key_out.
        if \<not> is_infix KEY_OK key_out then act_return (step_fail (MsgNoKey entry) (Out key_out))
        else act_bind (act_lift (nm_join_keyfile (te_uuid env) ssid psk)) (\<lambda>keyfile.
          take_switch r wait_fn env old_host entry ssid gw (extract_mac mac_out) keyfile))))"

definition take_child ::
  "runner \<Rightarrow> (string \<Rightarrow> step_result act) \<Rightarrow> take_env \<Rightarrow> string \<Rightarrow> string \<Rightarrow> string \<Rightarrow> step_result act" where
  "take_child r wait_fn env old_host entry0 pubkey0 =
    (case validate_old_host old_host of
        Some err \<Rightarrow> act_return (step_fail (MsgOldHost err) (Out []))
      | None \<Rightarrow> let entry = strip entry0 in
          if bad_entry entry then act_return (step_fail MsgBadEntry (Out []))
          else act_bind (take_checks env entry pubkey0) (\<lambda>c. case c of
              Inl f \<Rightarrow> act_return f
            | Inr vals \<Rightarrow> take_over r wait_fn env old_host entry vals))"

text \<open>The payloads of the HTTP interface and of the command line.\<close>

record list_payload =
  lp_ok :: bool
  lp_message :: fleet_msg
  lp_children :: "(string \<times> string) list"
  lp_pubkey :: string

definition list_children_payload :: "runner \<Rightarrow> string \<Rightarrow> string \<Rightarrow> string \<Rightarrow> list_payload act" where
  "list_children_payload r pubkey_path path old_host =
    act_bind (list_remote_children r pubkey_path path old_host) (\<lambda>s.
      let entries = (if sr_ok s then parse_children_conf (out_text (sr_output s)) else []) in
      act_bind (read_pubkey pubkey_path) (\<lambda>k.
        act_return \<lparr>lp_ok = sr_ok s, lp_message = sr_message s, lp_children = map (\<lambda>e. (e, inventory_name e)) entries,
          lp_pubkey = k\<rparr>))"

section \<open>Facts on the texts\<close>

text \<open>What the old parent's shell makes of the nested command: the entry and the inner script, each one word.\<close>

lemma sh_split_word:
  assumes "list_all shell_safe w" "w \<noteq> []"
  shows "sh_split Sh_Bare None (w @ CHR '' '' # s) = map_option (Cons w) (sh_split Sh_Bare None s)"
  using sh_split_safe [OF assms, of None "CHR '' '' # s"] by simp

definition SSH_WORDS :: "string list" where
  "SSH_WORDS = [''ssh'', ''-o'', ''ConnectTimeout=8'', ''-o'', ''BatchMode=yes'', ''-o'', ''StrictHostKeyChecking=accept-new'']"

lemma ssh_words_split:
  "list_all (\<lambda>w. w \<noteq> [] \<and> list_all shell_safe w) ws \<Longrightarrow>
   sh_split Sh_Bare None (concat (map (\<lambda>w. w @ '' '') ws) @ s) = map_option (\<lambda>r. ws @ r) (sh_split Sh_Bare None s)"
proof (induction ws)
  case (Cons w ws)
  then show ?case using sh_split_word [of w "concat (map (\<lambda>w. w @ '' '') ws) @ s"]
    by (simp add: option.map_comp comp_def)
qed (cases "sh_split Sh_Bare None s", simp_all)

lemma nested_ssh_words: "sh_words (nested_ssh entry inner) = Some (SSH_WORDS @ [''pi@'' @ entry, inner])"
proof -
  have safe: "list_all (\<lambda>w. w \<noteq> [] \<and> list_all shell_safe w) SSH_WORDS" by code_simp
  have pi: "list_all shell_safe ''pi@''" by code_simp
  have wr: "nested_ssh entry inner = concat (map (\<lambda>w. w @ '' '') SSH_WORDS) @ ''pi@'' @ shlex_quote entry @ '' '' @ shlex_quote inner"
    by (simp add: nested_ssh_def SSH_WORDS_def)
  have "sh_split Sh_Bare None (''pi@'' @ shlex_quote entry @ '' '' @ shlex_quote inner)
      = sh_split Sh_Bare (Some (rev ''pi@'')) (shlex_quote entry @ '' '' @ shlex_quote inner)"
    using sh_split_safe [OF pi, of None "shlex_quote entry @ '' '' @ shlex_quote inner"] by simp
  also have "\<dots> = sh_split Sh_Bare (Some (rev entry @ rev ''pi@'')) ('' '' @ shlex_quote inner)"
    using sh_split_quote [of "Some (rev ''pi@'')" entry "'' '' @ shlex_quote inner"] by simp
  also have "\<dots> = Some [''pi@'' @ entry, inner]" using sh_words_quote [of inner] by (simp add: sh_words_def)
  finally show ?thesis unfolding sh_words_def wr using ssh_words_split [OF safe] by simp
qed

lemma before_last_append: "before_last p s = Some t \<Longrightarrow> \<exists>u. s = t @ p @ u"
proof (induction s arbitrary: t)
  case (Cons c cs)
  show ?case
  proof (cases "before_last p cs")
    case None
    with Cons.prems have "t = []" "starts_with p (c # cs)" by (auto split: if_splits)
    then show ?thesis by (auto simp: starts_with_iff)
  next
    case (Some t')
    with Cons show ?thesis by fastforce
  qed
qed (auto split: if_splits)

text \<open>The reading of a key file: \<open>\s\<close> is a space, a doubled backslash one backslash.\<close>

fun nm_unescape :: "string \<Rightarrow> string" where
  "nm_unescape [] = []"
| "nm_unescape [c] = [c]"
| "nm_unescape (c # d # cs) =
     (if c = bsl then (if d = CHR ''s'' then CHR '' '' # nm_unescape cs else if d = bsl then bsl # nm_unescape cs
        else c # nm_unescape (d # cs))
      else c # nm_unescape (d # cs))"

lemma nm_unescape_plain: "c \<noteq> bsl \<Longrightarrow> nm_unescape (c # s) = c # nm_unescape s"
  by (cases s) simp_all

lemma nm_unescape_doubled: "nm_unescape (double_bsl p) = p"
  unfolding double_bsl_def by (induction p) (simp_all add: nm_unescape_plain)

lemma nm_unescape_spaces: "nm_unescape (concat (replicate n [bsl, CHR ''s'']) @ s) = replicate n (CHR '' '') @ nm_unescape s"
  by (induction n) simp_all

lemma nm_unescape_blanks: "nm_unescape (replicate n (CHR '' '') @ u) = replicate n (CHR '' '') @ nm_unescape u"
  by (induction n) (simp_all add: nm_unescape_plain)

lemma drop_spaces: "replicate (length v - length (dropWhile (\<lambda>c. c = x) v)) x @ dropWhile (\<lambda>c. c = x) v = v"
proof (induction v)
  case (Cons c v)
  have "length (dropWhile (\<lambda>c. c = x) v) \<le> length v" by (rule length_dropWhile_le)
  with Cons show ?case by (simp add: Suc_diff_le)
qed simp

lemma nm_unescape_escape: "nm_unescape (nm_escape_psk psk) = psk"
proof -
  define v where "v = double_bsl psk"
  define st where "st = dropWhile (\<lambda>c. c = CHR '' '') v"
  define n where "n = length v - length st"
  have "nm_escape_psk psk = concat (replicate n [bsl, CHR ''s'']) @ st"
    by (simp add: nm_escape_psk_def Let_def v_def st_def n_def)
  then have "nm_unescape (nm_escape_psk psk) = nm_unescape (replicate n (CHR '' '') @ st)"
    by (simp only: nm_unescape_spaces nm_unescape_blanks)
  also have "replicate n (CHR '' '') @ st = v" unfolding n_def st_def by (rule drop_spaces)
  finally show ?thesis by (simp only: v_def nm_unescape_doubled)
qed

lemma nm_escape_no_space: "nm_escape_psk psk = [] \<or> hd (nm_escape_psk psk) \<noteq> CHR '' ''"
proof -
  define v where "v = double_bsl psk"
  define st where "st = dropWhile (\<lambda>c. c = CHR '' '') v"
  define n where "n = length v - length st"
  have e: "nm_escape_psk psk = concat (replicate n [bsl, CHR ''s'']) @ st"
    by (simp add: nm_escape_psk_def Let_def v_def st_def n_def)
  have "st = [] \<or> hd st \<noteq> CHR '' ''" unfolding st_def using hd_dropWhile [of "\<lambda>c. c = CHR '' ''" v] by blast
  then show ?thesis unfolding e by (cases n) simp_all
qed

text \<open>The pattern of the password ends in \<open>$\<close>: a final line feed passes.\<close>

lemma psk_with_line_feed_is_valid: "psk_valid (''12345678'' @ [nl])"
  by code_simp


section \<open>Before the child is touched\<close>

lemma take_checks_world: "take_checks env entry k w = (x, v) \<Longrightarrow> v = w"
proof (rule looksD)
  show "looks (take_checks env entry k)"
    unfolding take_checks_def Let_def read_pubkey_def load_ap_join_def env_value_def by (intro act_looks)
qed

lemma read_file_Inr: "read_file p w = (Inr f, v) \<Longrightarrow> v = w \<and> f = map_option universal_newlines (fw_files w p)"
  by (auto simp: read_file_def split: option.splits if_splits)

lemma take_checks_Inr:
  assumes "take_checks env entry k w = (Inr (Inr (pubkey, ssid, psk, gw)), v)"
  shows "validate_hostname (short entry) (inventory_of w (hp_inventory (te_hub env))) = None" and "psk_valid psk"
    and "pubkey_re (takeWhile (\<lambda>c. c \<noteq> nl) pubkey)" and "check_ipv4 gw = Inr gw"
proof -
  from assms obtain f u where f: "read_file (hp_inventory (te_hub env)) w = (Inr f, u)"
    and rest: "validate_hostname (short entry) (parse_children_conf (case f of None \<Rightarrow> [] | Some t \<Rightarrow> t)) = None"
    unfolding take_checks_def Let_def by (elim act_bind_InrE) (simp split: option.splits)
  have "parse_children_conf (case f of None \<Rightarrow> [] | Some t \<Rightarrow> t) = inventory_of w (hp_inventory (te_hub env))"
    using read_file_Inr [OF f] by (cases "fw_files w (hp_inventory (te_hub env))") (simp_all add: inventory_of_def)
  with rest show "validate_hostname (short entry) (inventory_of w (hp_inventory (te_hub env))) = None" by simp
  show "psk_valid psk" and "pubkey_re (takeWhile (\<lambda>c. c \<noteq> nl) pubkey)"
    using assms unfolding take_checks_def Let_def
    by (auto elim!: act_bind_InrE split: option.splits if_splits prod.splits)
  have "\<exists>u. try_gw (hp_repo (te_hub env)) u = (Inr (Some gw), v)"
    using assms unfolding take_checks_def Let_def
    by (auto elim!: act_bind_InrE split: option.splits if_splits prod.splits) blast+
  then show "check_ipv4 gw = Inr gw" using try_gw_Some by blast
qed

text \<open>The key and the access point the checks let through: the key given or, without one, the text of this hub's own
  public-key file, in the form of an SSH public key; the name and the password this hub's files give.\<close>

definition hub_key :: "take_env \<Rightarrow> string \<Rightarrow> fleet_world \<Rightarrow> string" where
  "hub_key env given w =
    (if given \<noteq> [] then given
     else case fw_files w (te_pubkey_path env) of None \<Rightarrow> [] | Some t \<Rightarrow> strip (universal_newlines t))"

definition usable_key :: "string \<Rightarrow> bool" where
  "usable_key k \<longleftrightarrow> k \<noteq> [] \<and> pubkey_re (takeWhile (\<lambda>c. c \<noteq> nl) k)"

lemma read_pubkey_Inr:
  "read_pubkey path w = (Inr k, v) \<Longrightarrow>
    v = w \<and> k = (case fw_files w path of None \<Rightarrow> [] | Some t \<Rightarrow> strip (universal_newlines t))"
  unfolding read_pubkey_def by (erule act_bind_InrE) (auto dest!: read_file_Inr split: option.splits)

lemma given_key_Inr:
  "(if given = [] then read_pubkey (te_pubkey_path env) else act_return given) w = (Inr k, v) \<Longrightarrow> v = w \<and> k = hub_key env given w"
  by (auto simp: hub_key_def dest: read_pubkey_Inr split: if_splits)

text \<open>Every check only looks, so each of its steps starts in the world the checks were started in.\<close>

lemma looks_bindE:
  assumes "act_bind m f w = (Inr y, v)" and "looks m"
  obtains x where "m w = (Inr x, w)" and "f x w = (Inr y, v)"
  using act_bind_InrE [OF assms(1)] looksD [OF assms(2)] by metis

lemma looks_given_key: "looks (if given = [] then read_pubkey (te_pubkey_path env) else act_return given)"
  unfolding read_pubkey_def by (intro act_looks)

lemma looks_load_ap_join: "looks (load_ap_join repo)"
  unfolding load_ap_join_def env_value_def by (intro act_looks)

lemma take_checks_values:
  assumes "take_checks env entry given w = (Inr (Inr (pubkey, ssid, psk, gw)), v)"
  shows "pubkey = hub_key env given w \<and> usable_key pubkey \<and> load_ap_join (hp_repo (te_hub env)) w = (Inr (ssid, psk), w)
    \<and> ssid \<noteq> [] \<and> psk_valid psk"
  using assms unfolding take_checks_def Let_def
  apply (elim looks_bindE [OF _ looks_basic(4)])
  subgoal for f
    apply (cases "validate_hostname (short entry) (parse_children_conf (case f of None \<Rightarrow> [] | Some t \<Rightarrow> t))")
     apply (simp only: option.case)
     apply (elim looks_bindE [OF _ looks_given_key])
     apply (drule given_key_Inr)
     apply (simp only: if_distribR split: if_split_asm)
      apply simp
     apply (elim looks_bindE [OF _ looks_load_ap_join])
     apply (simp split: prod.split_asm if_split_asm)
     apply (elim looks_bindE [OF _ looks_try_gw])
     apply (auto simp: usable_key_def split: option.split_asm)
    done
  done

text \<open>The commands of the first three steps on the old parent.\<close>

definition mac_call :: "string \<Rightarrow> string \<Rightarrow> fleet_call" where
  "mac_call old_host entry = Ssh 8 True old_host (Sh (nested_ssh entry MAC_INNER)) None"

definition key_call :: "string \<Rightarrow> string \<Rightarrow> string \<Rightarrow> fleet_call" where
  "key_call old_host entry pubkey = Ssh 8 True old_host (Sh (nested_ssh entry (key_inner pubkey))) None"

definition wifi_call :: "string \<Rightarrow> string \<Rightarrow> string \<Rightarrow> fleet_call" where
  "wifi_call old_host entry keyfile = Ssh 8 True old_host (Sh (nested_ssh entry WIFI_INSTALL)) (Some keyfile)"

lemma call_cases:
  assumes "act_bind (call r c) f w = (x, v)"
  obtains (raised) e where "r (fw_calls w) c = Inl e" "x = Inl e" "fw_calls v = fw_calls w @ [c]"
    | (answered) t u where "r (fw_calls w) c = Inr t" "f t u = (x, v)" "fw_calls u = fw_calls w @ [c]" "fw_files u = fw_files w"
proof (cases "r (fw_calls w) c")
  case (Inl e)
  with assms raised show ?thesis by (auto simp: act_bind_def call_def)
next
  case (Inr t)
  with assms answered [of t "w\<lparr>fw_calls := fw_calls w @ [c]\<rparr>"] show ?thesis by (simp add: act_bind_def call_def)
qed

text \<open>How far a take-over gets, by the commands it ran.\<close>

definition key_accepted :: "runner \<Rightarrow> string \<Rightarrow> string \<Rightarrow> string \<Rightarrow> fleet_world \<Rightarrow> bool" where
  "key_accepted r old_host entry pubkey w \<longleftrightarrow> (\<exists>mac_out key_out.
     r (fw_calls w) (mac_call old_host entry) = Inr mac_out \<and> extract_mac mac_out \<noteq> []
     \<and> r (fw_calls w @ [mac_call old_host entry]) (key_call old_host entry pubkey) = Inr key_out \<and> is_infix KEY_OK key_out)"

context return_waiter
begin

lemma take_switch_first:
  assumes "take_switch r wait env old_host entry ssid gw mac keyfile w = (x, v)"
  shows "\<exists>cs. fw_calls v = fw_calls w @ [wifi_call old_host entry keyfile] @ cs"
proof -
  note run = assms [unfolded take_switch_def ssh_pi_def, folded wifi_call_def]
  have k: "keeps UNIV (act_bind (wait mac) (\<lambda>waited. if \<not> sr_ok waited then
      act_return (step_fail (MsgNotOnAp entry ssid (sr_message waited)) (Out (t @ out_text (sr_output waited))))
      else take_join r env old_host entry gw waited))" for t
    unfolding take_join_def Let_def take_cleanup_def read_remote_inventory_def ssh_pi_def
    by (intro act_keeps keeps_mono [OF wait_keeps]) (auto intro!: act_keeps split: remote_read.split)
  from run show ?thesis
  proof (cases rule: call_cases)
    case (answered t u)
    from keeps_extends [OF k answered(2)] answered(3) show ?thesis by (auto simp: extends_def)
  qed simp
qed

lemma take_over_commands:
  assumes "take_over r wait env old_host entry (pubkey, ssid, psk, gw) w = (x, v)"
  shows "fw_calls v = fw_calls w @ [mac_call old_host entry]
    \<or> fw_calls v = fw_calls w @ [mac_call old_host entry, key_call old_host entry pubkey]
    \<or> key_accepted r old_host entry pubkey w \<and> (\<exists>keyfile cs. nm_join_keyfile (te_uuid env) ssid psk = Inr keyfile
        \<and> fw_calls v = fw_calls w @ [mac_call old_host entry, key_call old_host entry pubkey, wifi_call old_host entry keyfile] @ cs)"
    (is "?mac \<or> ?key \<or> ?wifi")
proof -
  note run = assms [unfolded take_over_def prod.case ssh_pi_def, folded mac_call_def key_call_def]
  from run show ?thesis
  proof (cases rule: call_cases)
    case raised
    then show ?thesis by simp
  next
    case mac: (answered mac_out u)
    show ?thesis
    proof (cases "extract_mac mac_out = []")
      case True
      with mac show ?thesis by simp
    next
      case m: False
      from mac(2) m have "act_bind (call r (key_call old_host entry pubkey)) (\<lambda>key_out.
        if \<not> is_infix KEY_OK key_out then act_return (step_fail (MsgNoKey entry) (Out key_out))
        else act_bind (act_lift (nm_join_keyfile (te_uuid env) ssid psk))
          (take_switch r wait env old_host entry ssid gw (extract_mac mac_out))) u = (x, v)" by simp
      then show ?thesis
      proof (cases rule: call_cases)
        case raised
        then show ?thesis using mac by simp
      next
        case key: (answered key_out u2)
        show ?thesis
        proof (cases "is_infix KEY_OK key_out \<and> (\<exists>kf. nm_join_keyfile (te_uuid env) ssid psk = Inr kf)")
          case False
          then have "fw_calls v = fw_calls u2" using key(2)
            by (cases "nm_join_keyfile (te_uuid env) ssid psk") (auto split: if_splits)
          then show ?thesis using mac key by simp
        next
          case True
          then obtain kf where kf: "is_infix KEY_OK key_out" "nm_join_keyfile (te_uuid env) ssid psk = Inr kf" by blast
          with key(2) have "take_switch r wait env old_host entry ssid gw (extract_mac mac_out) kf u2 = (x, v)" by simp
          from take_switch_first [OF this] have ?wifi using mac key kf m by (auto simp: key_accepted_def)
          then show ?thesis by blast
        qed
      qed
    qed
  qed
qed

end


section \<open>A take-over that went well\<close>

lemma take_checks_Inl: "take_checks env entry k w = (Inr (Inl f), v) \<Longrightarrow> \<not> sr_ok f"
  unfolding take_checks_def Let_def by (auto elim!: act_bind_InrE split: option.splits if_splits prod.splits)

lemma inventory_name_short: "strip e = e \<Longrightarrow> inventory_name e = short e @ dot_local"
proof -
  assume s: "strip e = e"
  show ?thesis
  proof (cases "ends_with dot_local e")
    case True
    then obtain b where b: "e = b @ dot_local" unfolding ends_with_def starts_with_iff by (metis rev_append rev_rev_ident)
    show ?thesis using s True unfolding b by (simp add: inventory_name_def short_local)
  next
    case False
    then show ?thesis using s by (simp add: inventory_name_def short_def)
  qed
qed

definition read_call :: "take_env \<Rightarrow> string \<Rightarrow> fleet_call" where
  "read_call env old_host = Ssh 8 True old_host (Sh (read_inventory_remote (te_remote_inventory env))) None"

definition write_call :: "take_env \<Rightarrow> string \<Rightarrow> string \<Rightarrow> fleet_call" where
  "write_call env old_host t = Ssh 8 True old_host (Sh (write_remote t (te_remote_inventory env))) None"

text \<open>
  What the end of a take-over did to the old parent: it wrote the text it had read before, less the child's
  lines, or, when the text could not be read in full, nothing.
\<close>

definition cleaned :: "runner \<Rightarrow> take_env \<Rightarrow> string \<Rightarrow> string \<Rightarrow> step_result \<Rightarrow> fleet_world \<Rightarrow> bool" where
  "cleaned r env old_host entry s v \<longleftrightarrow>
    (\<exists>h out. r h (read_call env old_host) = Inr out \<and>
       (case remote_inventory_of out of
          Remote_ok t \<Rightarrow> sr_message s = MsgMoved entry
            \<and> fw_calls v = h @ [read_call env old_host, write_call env old_host (strip_inventory_entry t entry)]
        | _ \<Rightarrow> sr_message s = MsgMovedStale entry \<and> fw_calls v = h @ [read_call env old_host]))"

lemma on_ok_cleanup:
  "on_ok (joined w cs p es) (take_cleanup r env old_host entry out)
     (\<lambda>s v. joined w cs p es v \<and> cleaned r env old_host entry s v)"
proof (rule on_okI)
  fix u s v
  assume u: "joined w cs p es u" and run: "take_cleanup r env old_host entry out u = (Inr s, v)" and ok: "sr_ok s"
  have "keeps {} (take_cleanup r env old_host entry out)"
    unfolding take_cleanup_def read_remote_inventory_def ssh_pi_def
    by (intro act_keeps) (auto intro!: act_keeps split: remote_read.split)
  from keeps_extends [OF this run] keepsD [OF this run] u have j: "joined w cs p es v"
    unfolding joined_def inventory_of_def extends_def by auto
  from run obtain t where t: "r (fw_calls u) (read_call env old_host) = Inr t"
    by (auto simp: take_cleanup_def read_remote_inventory_def ssh_pi_def act_bind_def call_def read_call_def split: sum.splits)
  have "cleaned r env old_host entry s v"
    unfolding cleaned_def using run t
    by (intro exI [of _ "fw_calls u"] exI [of _ t])
      (auto simp: take_cleanup_def read_remote_inventory_def ssh_pi_def act_bind_def call_def read_call_def [symmetric]
        write_call_def [symmetric] split: remote_read.splits sum.splits)
  with j show "joined w cs p es v \<and> cleaned r env old_host entry s v" by simp
qed

lemma on_ok_take_join:
  assumes p: "hp_known_hosts (te_hub env) \<noteq> hp_inventory (te_hub env)" and ex: "inventory_of w (hp_inventory (te_hub env)) = es"
    and e: "plain_entry (inventory_name entry)" "inventory_name entry \<notin> set es"
  shows "on_ok (ran_more w [] {hp_known_hosts (te_hub env)}) (take_join r env old_host entry gw waited)
    (\<lambda>s v. joined w [] (hp_inventory (te_hub env)) (es @ [inventory_name entry]) v \<and> cleaned r env old_host entry s v)"
  (is "on_ok ?R _ ?Q")
proof -
  let ?p = "hp_inventory (te_hub env)" and ?n = "inventory_name entry" and ?K = "{hp_known_hosts (te_hub env)}"
  have key: "keeps ?K (register_host_key r (hp_known_hosts (te_hub env)) h)" for h by (rule act_keeps) simp
  have bind: "on_ok ?R (act_bind (register_host_key r (hp_known_hosts (te_hub env)) h) f) Q"
    if "\<And>x. on_ok ?R (f x) Q" for h f Q
    by (rule on_ok_bind [where R = "\<lambda>_. ?R"]) (use ran_more_keeps [OF _ key] that in auto)
  have align: "on_ok (joined w [] ?p (es @ [?n])) (act_bind (align_send_target r h gw) (\<lambda>a.
         if \<not> sr_ok a then act_return (step_fail (m a) (sr_output a)) else take_cleanup r env old_host entry out)) ?Q" for h m out
  proof (rule on_ok_bind [where R = "\<lambda>_. joined w [] ?p (es @ [?n])"])
    fix u x v assume "joined w [] ?p (es @ [?n]) u" and a: "align_send_target r h gw u = (Inr x, v)"
    then show "joined w [] ?p (es @ [?n]) v"
      using keepsD [OF keeps_align [of "{}"] a] keeps_extends [OF keeps_align [of "{}"] a]
      unfolding joined_def inventory_of_def extends_def by auto
  qed (intro on_ok_if on_ok_fail on_ok_cleanup)
  show ?thesis unfolding take_join_def Let_def
  proof (rule bind, rule on_ok_then [where R = "\<lambda>_. ?R"], goal_cases)
    case (1 kh)
    show ?case
    proof (rule on_ok_if)
      show "on_ok ?R (act_return kh) (\<lambda>_. ?R)" by (simp add: on_ok_def)
    qed (rule on_ok_ran_more [OF key])
  next
    case (2 kh rr)
    have add: "on_ok ?R (add_to_inventory ?p ?n) (\<lambda>_. joined w [] ?p (es @ [?n]))"
      by (rule on_ok_pre [OF on_ok_add [OF e]]) (use ran_more_joined p ex in fastforce)
    show ?case by (rule on_ok_then [OF add]) (intro on_ok_if on_ok_fail align)
  qed
qed

context return_waiter
begin

lemma take_over_ok:
  assumes p: "hp_known_hosts (te_hub env) \<noteq> hp_inventory (te_hub env)"
    and e: "plain_entry (inventory_name entry)" "inventory_name entry \<notin> set (inventory_of w (hp_inventory (te_hub env)))"
  shows "on_ok (ran_more w [] {hp_known_hosts (te_hub env)}) (take_over r wait env old_host entry vals)
    (\<lambda>s v. joined w [] (hp_inventory (te_hub env)) (inventory_of w (hp_inventory (te_hub env)) @ [inventory_name entry]) v
       \<and> cleaned r env old_host entry s v)"
  (is "on_ok ?R _ ?Q")
proof -
  obtain pubkey ssid psk gw where v: "vals = (pubkey, ssid, psk, gw)" by (metis prod_cases4)
  have ssh: "on_ok ?R (act_bind (ssh_pi r h c i) f) Q" if "\<And>x. on_ok ?R (f x) Q" for h c i f Q
    by (rule on_ok_bind [where R = "\<lambda>_. ?R"])
      (use that ran_more_keeps [OF _ keeps_basic(4)] in \<open>auto simp: ssh_pi_def\<close>)
  have lift: "on_ok ?R (act_bind (act_lift m) f) Q" if "\<And>x. on_ok ?R (f x) Q" for m :: "string py" and f Q
    by (rule on_ok_bind [where R = "\<lambda>_. ?R"]) (use that in auto)
  have waits: "on_ok ?R (act_bind (wait m) f) Q" if "\<And>x. on_ok ?R (f x) Q" for m f Q
    by (rule on_ok_bind [where R = "\<lambda>_. ?R"])
      (use that ran_more_keeps [OF _ keeps_mono [OF wait_keeps]] in auto)
  show ?thesis unfolding v take_over_def take_switch_def prod.case
    by (intro ssh lift waits on_ok_if on_ok_fail on_ok_take_join [OF p refl e])
qed

lemma take_child_ok:
  assumes run: "take_child r wait env old_host entry0 pubkey0 w = (Inr s, v)" "sr_ok s"
    and p: "hp_known_hosts (te_hub env) \<noteq> hp_inventory (te_hub env)"
  shows "inventory_of v (hp_inventory (te_hub env))
      = inventory_of w (hp_inventory (te_hub env)) @ [inventory_name (strip entry0)]"
    and "cleaned r env old_host (strip entry0) s v"
proof -
  let ?e = "strip entry0"
  obtain c u where c: "take_checks env ?e pubkey0 w = (Inr c, u)"
    and rest: "(case c of Inl f \<Rightarrow> act_return f | Inr vals \<Rightarrow> take_over r wait env old_host ?e vals) u = (Inr s, v)"
    using run unfolding take_child_def Let_def by (auto elim!: act_bind_InrE split: option.splits if_splits)
  obtain vals where vals: "c = Inr vals" using rest run(2) c by (cases c) (auto dest: take_checks_Inl)
  obtain pubkey ssid psk gw where v4: "vals = (pubkey, ssid, psk, gw)" by (metis prod_cases4)
  have val: "validate_hostname (short ?e) (inventory_of w (hp_inventory (te_hub env))) = None"
    using take_checks_Inr(1) c unfolding vals v4 by blast
  have n: "inventory_name ?e = short ?e @ dot_local" by (rule inventory_name_short) simp
  have label: "valid_label (short ?e)" and free: "short ?e \<notin> set (map short (inventory_of w (hp_inventory (te_hub env))))"
    using validate_None [OF val] by simp_all
  have e: "plain_entry (inventory_name ?e)" unfolding n by (rule plain_local_name [OF label])
  have fresh: "inventory_name ?e \<notin> set (inventory_of w (hp_inventory (te_hub env)))"
    unfolding n using free short_local by (metis image_eqI list.set_map)
  have u: "ran_more w [] {hp_known_hosts (te_hub env)} u"
    using take_checks_world [OF c] by (intro ran_moreI) simp
  have run': "take_over r wait env old_host ?e vals u = (Inr s, v)" using rest vals by simp
  from on_okD [OF take_over_ok [OF p e fresh] u run' run(2)]
  show "inventory_of v (hp_inventory (te_hub env)) = inventory_of w (hp_inventory (te_hub env)) @ [inventory_name ?e]"
    and "cleaned r env old_host ?e s v" by (simp_all add: joined_def)
qed

end


definition ex_take_env :: take_env where
  "ex_take_env = \<lparr>te_hub = ex_paths, te_pubkey_path = ''id.pub'', te_remote_inventory = ''children.conf'', te_uuid = ''u-1''\<rparr>"

definition ex_take_hub :: fleet_world where
  "ex_take_hub = \<lparr>fw_calls = [], fw_files = [''children.conf'' \<mapsto> ''tpc1-001.local'' @ [nl],
     ''repo/site.env'' \<mapsto> ''AP_GW_IP=10.42.1.1'' @ [nl],
     ''repo/.kit/ap-join.env'' \<mapsto> ''AP_SSID=hub1'' @ [nl] @ ''WIFI_AP_PSK=12345678'' @ [nl]],
     fw_denied = (\<lambda>_. False), fw_slept = 0\<rparr>"

text \<open>The old parent answers with the MAC, with the confirmation of the key, and then with its inventory.\<close>

definition ex_old_parent :: runner where
  "ex_old_parent h c = (case c of
      Ssh t n host (Sh s) i \<Rightarrow>
        if host = ''10.0.0.5''
        then Inr (if length h = 0 then ''B8:27:EB:00:00:01'' @ [nl]
                  else if length h = 1 then KEY_OK @ [nl]
                  else ''zero2.local'' @ [nl] @ ''zero3.local'' @ [nl, nl] @ CAT_OK @ [nl])
        else ex_network h c
    | _ \<Rightarrow> ex_network h c)"

abbreviation ex_take :: "step_result py \<times> fleet_world" where
  "ex_take \<equiv> take_child ex_old_parent (wait_for_return ex_network ''wlan1'' (ssh_alive ex_network) WAIT_TIMEOUT) ex_take_env
     ''10.0.0.5'' ''zero2.local'' ''ssh-ed25519 AAAA'' ex_take_hub"

text \<open>The evaluation of that take-over, with the texts of the three commands on the old parent left as they are.\<close>

definition ex_after_wifi :: "string \<Rightarrow> fleet_call list \<Rightarrow> step_result py \<times> fleet_world" where
  "ex_after_wifi t cs = act_bind (wait_for_return ex_network ''wlan1'' (ssh_alive ex_network) WAIT_TIMEOUT ''b8:27:eb:00:00:01'') (\<lambda>waited.
      if \<not> sr_ok waited then
        act_return (step_fail (MsgNotOnAp ''zero2.local'' ''hub1'' (sr_message waited)) (Out (t @ out_text (sr_output waited))))
      else take_join ex_old_parent ex_take_env ''10.0.0.5'' ''zero2.local'' ''10.42.1.1'' waited) (ex_take_hub\<lparr>fw_calls := cs\<rparr>)"

lemma ex_take_run:
  "\<exists>t kf. ex_take = ex_after_wifi t [mac_call ''10.0.0.5'' ''zero2.local'',
     key_call ''10.0.0.5'' ''zero2.local'' ''ssh-ed25519 AAAA'', wifi_call ''10.0.0.5'' ''zero2.local'' kf]"
proof -
  let ?e = "''zero2.local''" and ?k = "''ssh-ed25519 AAAA''"
  let ?mac = "mac_call ''10.0.0.5'' ?e" and ?key = "key_call ''10.0.0.5'' ?e ?k"
  have "fst (take_checks ex_take_env ?e ?k ex_take_hub) = Inr (Inr (?k, ''hub1'', ''12345678'', ''10.42.1.1''))" by code_simp
  then have checks: "take_checks ex_take_env ?e ?k ex_take_hub = (Inr (Inr (?k, ''hub1'', ''12345678'', ''10.42.1.1'')), ex_take_hub)"
    using take_checks_world by (metis prod.collapse)
  have m: "extract_mac (''B8:27:EB:00:00:01'' @ [nl]) = ''b8:27:eb:00:00:01''" by code_simp
  have k: "is_infix KEY_OK (KEY_OK @ [nl])" by code_simp
  have "case nm_join_keyfile ''u-1'' ''hub1'' ''12345678'' of Inr _ \<Rightarrow> True | _ \<Rightarrow> False" by code_simp
  then obtain kf where kf: "nm_join_keyfile ''u-1'' ''hub1'' ''12345678'' = Inr kf" by (auto split: sum.splits)
  have start: "fw_calls ex_take_hub = []" by (simp add: ex_take_hub_def)
  have c1: "call ex_old_parent ?mac ex_take_hub = (Inr (''B8:27:EB:00:00:01'' @ [nl]), ex_take_hub\<lparr>fw_calls := [?mac]\<rparr>)"
    by (simp add: call_def start mac_call_def ex_old_parent_def)
  have c2: "call ex_old_parent ?key (ex_take_hub\<lparr>fw_calls := [?mac]\<rparr>) = (Inr (KEY_OK @ [nl]), ex_take_hub\<lparr>fw_calls := [?mac, ?key]\<rparr>)"
    by (simp add: call_def key_call_def ex_old_parent_def)
  obtain t where c3: "call ex_old_parent (wifi_call ''10.0.0.5'' ?e kf) (ex_take_hub\<lparr>fw_calls := [?mac, ?key]\<rparr>)
      = (Inr t, ex_take_hub\<lparr>fw_calls := [?mac, ?key, wifi_call ''10.0.0.5'' ?e kf]\<rparr>)"
    by (simp add: call_def wifi_call_def ex_old_parent_def)
  have e: "validate_old_host ''10.0.0.5'' = None" "strip ?e = ?e" "\<not> bad_entry ?e" by (code_simp, code_simp, code_simp)
  have u: "te_uuid ex_take_env = ''u-1''" by (simp add: ex_take_env_def)
  have "ex_take = take_over ex_old_parent (wait_for_return ex_network ''wlan1'' (ssh_alive ex_network) WAIT_TIMEOUT) ex_take_env
      ''10.0.0.5'' ?e (?k, ''hub1'', ''12345678'', ''10.42.1.1'') ex_take_hub"
    unfolding take_child_def e Let_def using e(3) by (simp add: act_bind_def checks)
  also have "\<dots> = ex_after_wifi t [?mac, ?key, wifi_call ''10.0.0.5'' ?e kf]"
    unfolding take_over_def take_switch_def prod.case ssh_pi_def mac_call_def [symmetric] key_call_def [symmetric]
      wifi_call_def [symmetric] ex_after_wifi_def u
    by (simp add: act_bind_def c1 c2 c3 m [simplified] k [simplified] kf)
  finally show ?thesis by (intro exI)
qed

lemma ex_take_ok: "case ex_take of (Inr s, v) \<Rightarrow> sr_ok s | _ \<Rightarrow> False"
proof -
  have "case ex_after_wifi t [a, b, c] of (Inr s, v) \<Rightarrow> sr_ok s | _ \<Rightarrow> False" for t a b c by code_simp
  with ex_take_run show ?thesis by metis
qed

lemma ex_take_calls: "2 < length (fw_calls (snd ex_take))"
proof -
  have "2 < length (fw_calls (snd (ex_after_wifi t [a, b, c])))" for t a b c by code_simp
  with ex_take_run show ?thesis by metis
qed

text \<open>C15: a take-over runs no command at all unless this hub has a key of the form of an SSH public key, given or read
  from its file, and a readable access point name and password; its first command asks the child's MAC, its second
  installs exactly that key, and the Wi-Fi is switched only after the old parent answered the first with a MAC and
  the child confirmed that key, with a profile made of the name and the password of this hub's files, the password
  one the child can use. Every other end of a take-over has run at most the first two commands.
\<close>

theorem wifi_is_switched_after_the_key:
  assumes "take_child r (wait_for_return r' dev (ssh_alive r') WAIT_TIMEOUT) env old_host entry0 given w = (x, v)"
  shows "fw_calls v = fw_calls w
    \<or> (\<exists>ssid psk. usable_key (hub_key env given w) \<and> load_ap_join (hp_repo (te_hub env)) w = (Inr (ssid, psk), w)
        \<and> ssid \<noteq> [] \<and> psk_valid psk
        \<and> (fw_calls v = fw_calls w @ [mac_call old_host (strip entry0)]
         \<or> fw_calls v = fw_calls w @ [mac_call old_host (strip entry0), key_call old_host (strip entry0) (hub_key env given w)]
         \<or> key_accepted r old_host (strip entry0) (hub_key env given w) w
           \<and> (\<exists>keyfile cs. nm_join_keyfile (te_uuid env) ssid psk = Inr keyfile
              \<and> fw_calls v = fw_calls w @ [mac_call old_host (strip entry0),
                   key_call old_host (strip entry0) (hub_key env given w), wifi_call old_host (strip entry0) keyfile] @ cs)))"
proof -
  let ?e = "strip entry0" and ?wait = "wait_for_return r' dev (ssh_alive r') WAIT_TIMEOUT"
  show ?thesis
  proof (cases "validate_old_host old_host \<noteq> None \<or> bad_entry ?e")
    case True
    with assms have "v = w" by (auto simp: take_child_def Let_def split: option.splits)
    then show ?thesis by simp
  next
    case False
    then have run: "act_bind (take_checks env ?e given) (\<lambda>c. case c of Inl f \<Rightarrow> act_return f
        | Inr vals \<Rightarrow> take_over r ?wait env old_host ?e vals) w = (x, v)"
      using assms by (simp add: take_child_def Let_def)
    obtain c u where c: "take_checks env ?e given w = (c, u)" by (cases "take_checks env ?e given w")
    have cu: "fw_calls u = fw_calls w" using take_checks_world [OF c] by simp
    show ?thesis
    proof (cases "\<exists>pubkey ssid psk gw. c = Inr (Inr (pubkey, ssid, psk, gw))")
      case False
      then have "v = u" using run c
        by (cases c) (auto simp: act_bind_def split: sum.splits)
      with cu show ?thesis by simp
    next
      case True
      then obtain pubkey ssid psk gw where q: "c = Inr (Inr (pubkey, ssid, psk, gw))" by blast
      note vals = take_checks_values [OF c [unfolded q]]
      have "take_over r ?wait env old_host ?e (pubkey, ssid, psk, gw) u = (x, v)" using run c by (simp add: act_bind_def q)
      from hub_wait.take_over_commands [OF this] vals show ?thesis unfolding cu key_accepted_def by blast
    qed
  qed
qed

lemma wifi_is_switched_after_the_key_witness:
  "\<exists>keyfile cs. nm_join_keyfile (te_uuid ex_take_env) ''hub1'' ''12345678'' = Inr keyfile
     \<and> fw_calls (snd ex_take) = [mac_call ''10.0.0.5'' (strip ''zero2.local''),
          key_call ''10.0.0.5'' (strip ''zero2.local'') ''ssh-ed25519 AAAA'', wifi_call ''10.0.0.5'' (strip ''zero2.local'') keyfile] @ cs"
proof -
  have k: "hub_key ex_take_env ''ssh-ed25519 AAAA'' ex_take_hub = ''ssh-ed25519 AAAA''" by (simp add: hub_key_def)
  have start: "fw_calls ex_take_hub = []" by (simp add: ex_take_hub_def)
  have join: "fst (load_ap_join (hp_repo (te_hub ex_take_env)) ex_take_hub) = Inr (''hub1'', ''12345678'')" by code_simp
  from wifi_is_switched_after_the_key [OF prod.collapse [symmetric], of ex_old_parent ex_network "''wlan1''" ex_take_env
      "''10.0.0.5''" "''zero2.local''" "''ssh-ed25519 AAAA''" ex_take_hub]
  obtain ssid psk keyfile cs where sp: "load_ap_join (hp_repo (te_hub ex_take_env)) ex_take_hub = (Inr (ssid, psk), ex_take_hub)"
    and r: "nm_join_keyfile (te_uuid ex_take_env) ssid psk = Inr keyfile"
      "fw_calls (snd ex_take) = [mac_call ''10.0.0.5'' (strip ''zero2.local''),
         key_call ''10.0.0.5'' (strip ''zero2.local'') ''ssh-ed25519 AAAA'', wifi_call ''10.0.0.5'' (strip ''zero2.local'') keyfile] @ cs"
    unfolding k start using ex_take_calls by (elim disjE exE conjE) simp_all
  have "ssid = ''hub1''" "psk = ''12345678''" using join unfolding sp by simp_all
  with r show ?thesis by (intro exI conjI) (simp_all only:)
qed

text \<open>C16: a take-over that reports success lists the child here, and takes from the old parent's inventory exactly
  that child: what is written there is the text that was read, and its entries are the old ones less the child;
  when the old inventory could not be read in full it is not written at all.
\<close>

theorem old_parent_loses_only_the_child:
  assumes "take_child r (wait_for_return r' dev (ssh_alive r') WAIT_TIMEOUT) env old_host entry0 pubkey0 w = (Inr s, v)"
    and "sr_ok s" and "hp_known_hosts (te_hub env) \<noteq> hp_inventory (te_hub env)"
  shows "inventory_of v (hp_inventory (te_hub env))
      = inventory_of w (hp_inventory (te_hub env)) @ [inventory_name (strip entry0)]
    \<and> (\<exists>h out. r h (read_call env old_host) = Inr out \<and>
        (case remote_inventory_of out of
           Remote_ok t \<Rightarrow> \<exists>t'. fw_calls v = h @ [read_call env old_host, write_call env old_host t']
             \<and> parse_children_conf t' = filter (\<lambda>e. e \<noteq> strip entry0) (parse_children_conf t)
         | _ \<Rightarrow> fw_calls v = h @ [read_call env old_host]))"
proof -
  from hub_wait.take_child_ok(2) [OF assms] obtain h out where h: "r h (read_call env old_host) = Inr out"
    and c: "case remote_inventory_of out of
        Remote_ok t \<Rightarrow> sr_message s = MsgMoved (strip entry0)
          \<and> fw_calls v = h @ [read_call env old_host, write_call env old_host (strip_inventory_entry t (strip entry0))]
      | _ \<Rightarrow> sr_message s = MsgMovedStale (strip entry0) \<and> fw_calls v = h @ [read_call env old_host]"
    unfolding cleaned_def by blast
  have "case remote_inventory_of out of
       Remote_ok t \<Rightarrow> \<exists>t'. fw_calls v = h @ [read_call env old_host, write_call env old_host t']
         \<and> parse_children_conf t' = filter (\<lambda>e. e \<noteq> strip entry0) (parse_children_conf t)
     | _ \<Rightarrow> fw_calls v = h @ [read_call env old_host]"
    using c parse_strip_entry by (cases "remote_inventory_of out") auto
  with h hub_wait.take_child_ok(1) [OF assms] show ?thesis by blast
qed


lemma old_parent_loses_only_the_child_witness:
  "\<exists>s v. ex_take = (Inr s, v) \<and> inventory_of v ''children.conf'' = inventory_of ex_take_hub ''children.conf'' @ [''zero2.local'']"
proof -
  from ex_take_ok obtain s v where r: "ex_take = (Inr s, v)" "sr_ok s" by (auto split: prod.splits sum.splits)
  have p: "hp_known_hosts (te_hub ex_take_env) \<noteq> hp_inventory (te_hub ex_take_env)"
    by (simp add: ex_take_env_def ex_paths_def)
  have n: "inventory_name (strip ''zero2.local'') = ''zero2.local''" by code_simp
  have h: "hp_inventory (te_hub ex_take_env) = ''children.conf''" by (simp add: ex_take_env_def ex_paths_def)
  from old_parent_loses_only_the_child [OF r p] show ?thesis unfolding n h using r by blast
qed

end
