(* ===== verification/Fleet_Server.thy ===== *)
theory Fleet_Server
  imports Fleet_Status Fleet_Migrate
begin

text \<open>
  The fleet server (\<open>server.py\<close>): what the screen shows, the steps of the registration wizard, adoption, and the
  requests. It runs as the process whose state is \<open>fleet_world\<close>; \<open>r\<close> stands for \<open>run_cmd\<close> and \<open>rl\<close> for
  \<open>run_cmd_long\<close>, which the migration uses.
\<close>

section \<open>The view\<close>

record fleet_child =
  fc_row :: fleet_row
  fc_hostname :: "string option"
  fc_picamera :: "string option"
  fc_web_server :: "string option"
  fc_model :: pyval
  fc_ready :: pyval
  fc_id_names :: "pyval dict"
  fc_unreachable :: bool

record fleet_view =
  fv_children :: "fleet_child list"
  fv_candidates :: "(string option \<times> string option) list"
  fv_blocked :: "string list"
  fv_duplicates :: "(triple \<times> string list) list"
  fv_suggested :: string
  fv_newly_trusted :: "string dict"

definition status_of_row :: "child_status dict \<Rightarrow> fleet_row \<Rightarrow> child_status option" where
  "status_of_row statuses r = (case fr_ip r of None \<Rightarrow> None | Some ip \<Rightarrow> if ip = [] then None else dict_get statuses ip)"

definition child_of_row :: "child_status dict \<Rightarrow> fleet_row \<Rightarrow> fleet_child" where
  "child_of_row statuses r = (case status_of_row statuses r of
      None \<Rightarrow> \<lparr>fc_row = r, fc_hostname = None, fc_picamera = None, fc_web_server = None, fc_model = PNone,
        fc_ready = PNone, fc_id_names = [], fc_unreachable = False\<rparr>
    | Some st \<Rightarrow> \<lparr>fc_row = r, fc_hostname = cs_hostname st, fc_picamera = cs_picamera st,
        fc_web_server = cs_web_server st, fc_model = cs_model st, fc_ready = cs_ready st,
        fc_id_names = cs_id_names st, fc_unreachable = cs_unreachable st\<rparr>)"

text \<open>\<open>a or b\<close> of two names that may be missing.\<close>

definition or_name :: "string option \<Rightarrow> string option \<Rightarrow> string option" where
  "or_name a b = (case a of Some s \<Rightarrow> if s = [] then b else a | None \<Rightarrow> b)"

definition host_key_of :: "child_status option \<Rightarrow> fleet_row \<Rightarrow> string" where
  "host_key_of st r = or_else (or_name (case st of Some s \<Rightarrow> cs_hostname s | None \<Rightarrow> None) (fr_entry r)) (or_else (fr_ip r) ''?'')"

text \<open>The stations of the rows, under the name each child reports.\<close>

definition add_host :: "child_status dict \<Rightarrow> fleet_row \<Rightarrow> pyval dict \<Rightarrow> pyval dict" where
  "add_host statuses r d = (case status_of_row statuses r of
      Some st \<Rightarrow> if cs_id_names st = [] then d else dict_set (host_key_of (Some st) r) (PDict (cs_id_names st)) d
    | None \<Rightarrow> d)"

definition per_host_of :: "child_status dict \<Rightarrow> fleet_row list \<Rightarrow> pyval dict" where
  "per_host_of statuses rows = fold (add_host statuses) rows []"

definition known_name :: "fleet_child \<Rightarrow> string" where
  "known_name c = or_else (or_name (fc_hostname c) (fr_entry (fc_row c))) []"

definition build_fleet_view ::
  "(pyval \<Rightarrow> string) \<Rightarrow> neighbor list \<Rightarrow> string option dict \<Rightarrow> child_status dict \<Rightarrow> string dict \<Rightarrow> string \<Rightarrow> fleet_view" where
  "build_fleet_view rp ns iips statuses macs hub =
    (let rows = classify ns iips macs;
         shown = filter (\<lambda>r. fr_kind r \<noteq> Row_new) rows;
         children = map (child_of_row statuses) shown in
     \<lparr>fv_children = children,
      fv_candidates = map (\<lambda>r. (fr_mac r, fr_ip r)) (filter (\<lambda>r. fr_kind r = Row_new) rows),
      fv_blocked = map (\<lambda>r. case fr_entry r of Some e \<Rightarrow> e | None \<Rightarrow> ''None'') (filter (\<lambda>r. fr_kind r = Row_unresolved) rows),
      fv_duplicates = find_duplicate_stations rp (per_host_of statuses shown),
      fv_suggested = suggest_hostname (filter (\<lambda>n. n \<noteq> []) (map known_name children)) hub,
      fv_newly_trusted = learned_macs rows macs\<rparr>)"

text \<open>\<open>enrich_candidates\<close>: the host name a candidate answers with, empty when the key of this hub does not get in.\<close>

record candidate =
  ca_mac :: "string option"
  ca_ip :: "string option"
  ca_ssh_ok :: bool
  ca_hostname :: "string option"

definition enrich_candidate :: "runner \<Rightarrow> string option \<times> string option \<Rightarrow> candidate act" where
  "enrich_candidate r = (\<lambda>(mac, ip).
    act_bind (if or_else ip [] = [] then act_return [] else probe_hostname r (or_else ip [])) (\<lambda>host.
      act_return \<lparr>ca_mac = mac, ca_ip = ip, ca_ssh_ok = (host \<noteq> []),
        ca_hostname = (if host = [] then None else Some host)\<rparr>))"

section \<open>Gathering\<close>

record server_env =
  se_take :: take_env
  se_known_macs :: string
  se_ap_dev :: string

definition env_inventory :: "server_env \<Rightarrow> string" where
  "env_inventory env = hp_inventory (te_hub (se_take env))"

definition server_inventory :: "server_env \<Rightarrow> string list act" where
  "server_inventory env =
    act_bind (read_file (env_inventory env)) (\<lambda>f. act_return (case f of None \<Rightarrow> [] | Some t \<Rightarrow> parse_children_conf t))"

text \<open>\<open>[v for v in inv.values() if v]\<close>.\<close>

definition known_addresses :: "string option dict \<Rightarrow> string list" where
  "known_addresses iips = List.map_filter (\<lambda>(_, v). case v of Some ip \<Rightarrow> if ip = [] then None else Some ip | None \<Rightarrow> None) iips"

fun collect_into :: "runner \<Rightarrow> string list \<Rightarrow> child_status dict \<Rightarrow> child_status dict act" where
  "collect_into r [] d = act_return d"
| "collect_into r (ip # ips) d = act_bind (collect_status r ip) (\<lambda>s. collect_into r ips (dict_set ip s d))"

record fleet_screen =
  sc_view :: fleet_view
  sc_candidates :: "candidate list"
  sc_migrate :: migrate_status

definition gather :: "(pyval \<Rightarrow> string) \<Rightarrow> runner \<Rightarrow> server_env \<Rightarrow> fleet_screen act" where
  "gather rp r env =
    act_bind (server_inventory env) (\<lambda>entries.
    act_bind (resolve_inventory_ips r entries) (\<lambda>inv.
    act_bind (read_neighbors r (se_ap_dev env)) (\<lambda>ns.
    act_bind (collect_into r (known_addresses inv) []) (\<lambda>statuses.
    act_bind (load_known_macs (se_known_macs env)) (\<lambda>known.
    act_bind (read_file (hp_repo (te_hub (se_take env)) @ ''/site.env'')) (\<lambda>site.
      let view = build_fleet_view rp ns inv statuses known (read_hub_hostname site); newly = fv_newly_trusted view in
      act_bind (if newly = [] then act_return () else save_known_macs (se_known_macs env) (merge_macs known newly)) (\<lambda>_.
      act_bind (migrate_status_of (hp_repo (te_hub (se_take env))) (te_pubkey_path (se_take env))) (\<lambda>m.
      act_bind (act_map (enrich_candidate r) (fv_candidates view)) (\<lambda>cs.
        act_return \<lparr>sc_view = view, sc_candidates = cs, sc_migrate = m\<rparr>)))))))))"

section \<open>The wizard\<close>

text \<open>\<open>req.get(k) or ""\<close> where a text is expected.\<close>

definition field :: "pyval \<Rightarrow> string \<Rightarrow> string py" where
  "field req k = py_bind (py_get req k) (\<lambda>v. if py_truthy v then as_str v else Inr [])"

definition run_provision ::
  "(pyval \<Rightarrow> string) \<Rightarrow> runner \<Rightarrow> server_env \<Rightarrow> pyval \<Rightarrow> string \<Rightarrow> string \<Rightarrow> string \<Rightarrow> string list \<Rightarrow> step_result act" where
  "run_provision rp r env step ip mac new known =
    (if step = PStr ''stop'' then stop_publisher r ip
     else if step = PStr ''blank'' then blank_sta_no r ip
     else if step = PStr ''rename'' then
       act_bind (rename_and_reboot r ip new) (\<lambda>s.
         if \<not> sr_ok s then act_return s
         else act_bind (wait_for_return r (se_ap_dev env) (ssh_alive r) WAIT_TIMEOUT mac) (\<lambda>w.
           act_return \<lparr>sr_ok = sr_ok w, sr_message = MsgBoth (sr_message s) (sr_message w), sr_output = sr_output w\<rparr>))
     else if step = PStr ''mdns'' then restart_mdns r (known @ (if ip = [] then [] else [ip]))
     else if step = PStr ''hostkey'' then register_host_key r (hp_known_hosts (te_hub (se_take env))) (new @ dot_local)
     else if step = PStr ''inventory'' then add_to_inventory (env_inventory env) (new @ dot_local)
     else act_return (step_fail (MsgUnknownStep (py_str rp step)) (Out [])))"

definition wizard_step ::
  "(pyval \<Rightarrow> string) \<Rightarrow> runner \<Rightarrow> server_env \<Rightarrow> pyval \<Rightarrow> string \<Rightarrow> string \<Rightarrow> string \<Rightarrow> step_result act" where
  "wizard_step rp r env step ip mac new =
    act_bind (server_inventory env) (\<lambda>entries.
    act_bind (resolve_inventory_ips r entries) (\<lambda>inv.
      if ip \<in> set (known_addresses inv) then act_return (step_fail MsgAlreadyRegistered (Out []))
      else run_provision rp r env step ip mac new (known_addresses inv)))"

definition run_step :: "(pyval \<Rightarrow> string) \<Rightarrow> runner \<Rightarrow> server_env \<Rightarrow> pyval \<Rightarrow> step_result act" where
  "run_step rp r env req =
    act_bind (act_lift (py_get req ''step'')) (\<lambda>step.
    act_bind (act_lift (field req ''ip'')) (\<lambda>ip.
    act_bind (act_lift (field req ''mac'')) (\<lambda>mac.
    act_bind (act_lift (field req ''hostname'')) (\<lambda>new.
    act_bind (if step = PStr ''rename'' \<or> step = PStr ''hostkey'' \<or> step = PStr ''inventory''
              then act_bind (server_inventory env) (\<lambda>es. act_return (validate_hostname new es))
              else act_return None) (\<lambda>err.
      case err of
        Some e \<Rightarrow> act_return (step_fail (MsgHost e) (Out []))
      | None \<Rightarrow> wizard_step rp r env step ip mac new)))))"

definition run_adopt :: "runner \<Rightarrow> server_env \<Rightarrow> pyval \<Rightarrow> step_result act" where
  "run_adopt r env req =
    act_bind (act_lift (field req ''ip'')) (\<lambda>ip.
    act_bind (server_inventory env) (\<lambda>entries.
    act_bind (resolve_inventory_ips r entries) (\<lambda>inv.
      if ip \<in> set (known_addresses inv) then act_return (step_fail MsgAlreadyRegistered (Out []))
      else act_bind (server_inventory env) (\<lambda>existing. adopt_keeping_identity r (te_hub (se_take env)) existing ip))))"

section \<open>Requests\<close>

text \<open>A request: its path, the headers the handler reads, and what \<open>rfile.read(n)\<close> gives.\<close>

record request =
  rq_path :: string
  rq_host :: "string option"
  rq_csrf :: "string option"
  rq_length :: "string option"
  rq_read :: "int \<Rightarrow> raw_bytes"

datatype http_body =
    Body_bad_host
  | Body_no_header
  | Body_unreadable
  | Body_not_found
  | Body_page
  | Body_screen fleet_screen
  | Body_step step_result
  | Body_list list_payload

definition host_allowed :: "nat \<Rightarrow> request \<Rightarrow> bool" where
  "host_allowed port rq \<longleftrightarrow> strip (or_else (rq_host rq) []) \<in>
     {''127.0.0.1:'' @ nat_text port, ''localhost:'' @ nat_text port, ''127.0.0.1'', ''localhost''}"

definition do_GET :: "(pyval \<Rightarrow> string) \<Rightarrow> nat \<Rightarrow> runner \<Rightarrow> server_env \<Rightarrow> request \<Rightarrow> (nat \<times> http_body) act" where
  "do_GET rp port r env rq =
    (if \<not> host_allowed port rq then act_return (403, Body_bad_host)
     else if rq_path rq \<in> {''/'', ''/index.html''} then act_return (200, Body_page)
     else if rq_path rq = ''/api/fleet'' then act_bind (gather rp r env) (\<lambda>s. act_return (200, Body_screen s))
     else act_return (404, Body_not_found))"

text \<open>\<open>int(header or 0)\<close>, and an empty body read as an empty object.\<close>

definition content_length :: "request \<Rightarrow> int py" where
  "content_length rq = (let s = or_else (rq_length rq) ''0'' in
     case int_of_text s of None \<Rightarrow> Inl ValueError | Some n \<Rightarrow> Inr n)"

definition request_value :: "raw_bytes \<Rightarrow> pyval py" where
  "request_value b = decode_json (if b = Utf8 [] then Utf8 ''{}'' else b)"

definition route ::
  "(pyval \<Rightarrow> string) \<Rightarrow> runner \<Rightarrow> runner \<Rightarrow> server_env \<Rightarrow> string \<Rightarrow> pyval \<Rightarrow> (nat \<times> http_body) act" where
  "route rp r rl env path req =
    (let take = se_take env in
     if path = ''/api/step'' then act_bind (run_step rp r env req) (\<lambda>s. act_return (200, Body_step s))
     else if path = ''/api/migrate/list'' then
       act_bind (act_lift (field req ''old_host'')) (\<lambda>h.
       act_bind (list_children_payload rl (te_pubkey_path take) (te_remote_inventory take) h) (\<lambda>p.
         act_return (200, Body_list p)))
     else if path = ''/api/migrate/take'' then
       act_bind (act_lift (field req ''old_host'')) (\<lambda>h.
       act_bind (act_lift (field req ''entry'')) (\<lambda>e.
       act_bind (take_child rl (wait_for_return r (se_ap_dev env) (ssh_alive r) WAIT_TIMEOUT) take h e []) (\<lambda>s.
         act_return (200, Body_step s))))
     else if path = ''/api/adopt'' then act_bind (run_adopt r env req) (\<lambda>s. act_return (200, Body_step s))
     else act_return (404, Body_not_found))"

definition do_POST ::
  "(pyval \<Rightarrow> string) \<Rightarrow> nat \<Rightarrow> runner \<Rightarrow> runner \<Rightarrow> server_env \<Rightarrow> request \<Rightarrow> (nat \<times> http_body) act" where
  "do_POST rp port r rl env rq =
    (if \<not> host_allowed port rq then act_return (403, Body_bad_host)
     else if rq_csrf rq \<noteq> Some ''1'' then act_return (403, Body_no_header)
     else act_bind (act_lift (content_length rq)) (\<lambda>n.
       case request_value (rq_read rq n) of
         Inl e \<Rightarrow> if e = ValueError then act_return (400, Body_unreadable) else act_raise e
       | Inr req \<Rightarrow> route rp r rl env (rq_path rq) req))"

section \<open>What a wizard step may run\<close>

definition is_lookup :: "fleet_call \<Rightarrow> bool" where
  "is_lookup c \<longleftrightarrow> (case c of Getent _ \<Rightarrow> True | Ssh_config _ \<Rightarrow> True | _ \<Rightarrow> False)"

definition wizard_call :: "string \<Rightarrow> string list \<Rightarrow> fleet_call \<Rightarrow> bool" where
  "wizard_call ip known c \<longleftrightarrow>
    (case c of
       Ssh t _ h m i \<Rightarrow> h = ip \<or> h \<in> set known \<and> m = Sh MDNS_REMOTE \<or> t = 5 \<and> m = Sh ''true''
     | Keyscan _ \<Rightarrow> True | Neigh_show _ \<Rightarrow> True | _ \<Rightarrow> False)"

lemma wizard_calls [act_issues]:
  "wizard_call ip known (Ssh t n ip m i)" "wizard_call ip known (Ssh 5 n h (Sh ''true'') i)"
  "wizard_call ip known (Keyscan h)" "wizard_call ip known (Neigh_show d)"
  by (simp_all add: wizard_call_def)

lemma lookups [act_issues]: "is_lookup (Getent e)" "is_lookup (Ssh_config e)"
  by (simp_all add: is_lookup_def)

lemma issues_words [act_issues]:
  "issues C m \<Longrightarrow> (\<And>w ws. issues C (f w ws)) \<Longrightarrow> issues C (case xs of [] \<Rightarrow> m | w # ws \<Rightarrow> f w ws)"
  by (cases xs) simp_all

lemma issues_resolve: "issues is_lookup (resolve_inventory_ips r es)"
proof -
  have "issues is_lookup (resolve_into r es out)" for out
    by (induction es arbitrary: out) (auto simp: resolve_entry_def intro!: act_issues)
  then show ?thesis unfolding resolve_inventory_ips_def .
qed

lemma issues_alive [act_issues]: "issues (wizard_call ip known) (ssh_alive r h)"
  unfolding ssh_alive_def by (intro act_issues)

lemma issues_wait [act_issues]: "issues (wizard_call ip known) (wait_for_return r dev (ssh_alive r) timeout mac)"
proof -
  have "issues (wizard_call ip known) (wait_rounds r dev (ssh_alive r) timeout m k seen)" for m k seen
  proof (induction k arbitrary: seen)
    case 0
    show ?case unfolding wait_rounds.simps by (intro act_issues)
  next
    case (Suc k)
    show ?case unfolding wait_rounds.simps
      by (intro act_issues) (auto split: option.split intro!: act_issues Suc)
  qed
  then show ?thesis unfolding wait_for_return_def Let_def by blast
qed

lemma issues_ssh_step [act_issues]: "issues (wizard_call ip known) (ssh_new r ip s)"
  unfolding ssh_new_def by (intro act_issues)

lemma issues_map_on: "(\<And>x. x \<in> set xs \<Longrightarrow> issues C (f x)) \<Longrightarrow> issues C (act_map f xs)"
proof (induction xs)
  case Nil
  show ?case unfolding act_map.simps by (intro act_issues)
next
  case (Cons x xs)
  have a: "issues C (f x)" and b: "issues C (act_map f xs)" using Cons by simp_all
  show ?case unfolding act_map.simps
    by (rule issues_bind [OF a], rule issues_bind [OF b], rule issues_basic)
qed

lemma issues_mdns [act_issues]:
  assumes "\<And>h. h \<in> set hs \<Longrightarrow> h = ip \<or> h \<in> set known"
  shows "issues (wizard_call ip known) (restart_mdns r hs)"
proof -
  have one: "issues (wizard_call ip known) (ssh_new r h MDNS_REMOTE)" if "h \<in> set hs" for h
    unfolding ssh_new_def by (rule issues_call) (use assms [OF that] in \<open>simp add: wizard_call_def\<close>)
  have all: "issues (wizard_call ip known) (act_map (\<lambda>h. ssh_new r h MDNS_REMOTE) hs)"
    by (rule issues_map_on) (rule one)
  show ?thesis unfolding restart_mdns_def captured_def
    by (rule issues_guarded, (rule issues_bind)+, rule all) (rule issues_basic)+
qed

lemma issues_provision: "issues (wizard_call ip known) (run_provision rp r env step ip mac new known)"
  unfolding run_provision_def stop_publisher_def blank_sta_no_def rename_and_reboot_def register_host_key_def
    add_to_inventory_def captured_def Let_def
  by (intro act_issues) (auto split: if_splits)

lemma server_inventory_result:
  "server_inventory env w = (Inl OSError, w) \<or> server_inventory env w = (Inr (inventory_of w (env_inventory env)), w)"
proof -
  have "splitlines [] = []" by code_simp
  then show ?thesis
    by (auto simp: server_inventory_def act_bind_def read_file_def inventory_of_def parse_children_conf_def split: option.split)
qed

definition wizard_ran :: "runner \<Rightarrow> server_env \<Rightarrow> string \<Rightarrow> fleet_world \<Rightarrow> fleet_world \<Rightarrow> bool" where
  "wizard_ran r env ip w v \<longleftrightarrow> (\<exists>qs cs. fw_calls v = fw_calls w @ qs @ cs \<and> list_all is_lookup qs
     \<and> (cs = [] \<or> (\<exists>iv u. resolve_inventory_ips r (inventory_of w (env_inventory env)) w = (Inr iv, u)
          \<and> ip \<notin> set (known_addresses iv) \<and> list_all (wizard_call ip (known_addresses iv)) cs)))"

lemma wizard_ran_refl [simp]: "wizard_ran r env ip w w"
  unfolding wizard_ran_def by (intro exI [of _ "[]"]) simp

lemma wizard_step_ran:
  assumes "wizard_step rp r env step ip mac new w = (x, v)"
  shows "wizard_ran r env ip w v"
proof (cases "server_inventory env w = (Inl OSError, w)")
  case True
  with assms show ?thesis by (simp add: wizard_step_def act_bind_def)
next
  case False
  let ?es = "inventory_of w (env_inventory env)"
  obtain y u where y: "resolve_inventory_ips r ?es w = (y, u)" by (cases "resolve_inventory_ips r ?es w")
  obtain qs where qs: "fw_calls u = fw_calls w @ qs" "list_all is_lookup qs" using issuesD [OF issues_resolve y] by blast
  from False server_inventory_result have "server_inventory env w = (Inr ?es, w)" by blast
  with assms y have next_step: "(case y of Inl e \<Rightarrow> (Inl e, u)
      | Inr iv \<Rightarrow> (if ip \<in> set (known_addresses iv) then act_return (step_fail MsgAlreadyRegistered (Out []))
          else run_provision rp r env step ip mac new (known_addresses iv)) u) = (x, v)"
    by (cases y) (simp_all add: wizard_step_def act_bind_def)
  have idle: "wizard_ran r env ip w u" unfolding wizard_ran_def using qs by (intro exI [of _ qs] exI [of _ "[]"]) simp
  show ?thesis
  proof (cases y)
    case (Inr iv)
    show ?thesis
    proof (cases "ip \<in> set (known_addresses iv)")
      case True
      with next_step Inr have "v = u" by simp
      with idle show ?thesis by simp
    next
      case False
      with next_step Inr have "run_provision rp r env step ip mac new (known_addresses iv) u = (x, v)" by simp
      from issuesD [OF issues_provision this] obtain cs where
        "fw_calls v = fw_calls u @ cs" "list_all (wizard_call ip (known_addresses iv)) cs" by blast
      with qs False y Inr show ?thesis unfolding wizard_ran_def by (intro exI [of _ qs] exI [of _ cs]) simp
    qed
  next
    case (Inl e)
    with next_step have "v = u" by simp
    with idle show ?thesis by simp
  qed
qed

lemma run_step_cases:
  assumes "run_step rp r env req w = (x, v)"
  shows "v = w \<or> (\<exists>step ip mac new. field req ''ip'' = Inr ip \<and> wizard_step rp r env step ip mac new w = (x, v))"
proof (cases "(\<exists>step. py_get req ''step'' = Inr step) \<and> (\<exists>ip. field req ''ip'' = Inr ip)
    \<and> (\<exists>mac. field req ''mac'' = Inr mac) \<and> (\<exists>new. field req ''hostname'' = Inr new)")
  case True
  then obtain step ip mac new where f: "py_get req ''step'' = Inr step" "field req ''ip'' = Inr ip"
    "field req ''mac'' = Inr mac" "field req ''hostname'' = Inr new" by blast
  let ?named = "step = PStr ''rename'' \<or> step = PStr ''hostkey'' \<or> step = PStr ''inventory''"
  let ?check = "if ?named then act_bind (server_inventory env) (\<lambda>es. act_return (validate_hostname new es)) else act_return None"
  let ?go = "\<lambda>err. case err of Some e \<Rightarrow> act_return (step_fail (MsgHost e) (Out [])) | None \<Rightarrow> wizard_step rp r env step ip mac new"
  have run: "act_bind ?check ?go w = (x, v)" using assms unfolding run_step_def f act_simps .
  have check: "(\<exists>e. ?check w = (Inl e, w)) \<or> (\<exists>err. ?check w = (Inr err, w))"
    using server_inventory_result [of env w] by (auto simp: act_bind_def)
  then show ?thesis
  proof (elim disjE exE)
    fix e assume "?check w = (Inl e, w)"
    with run show ?thesis by (simp add: act_bind_def)
  next
    fix err assume "?check w = (Inr err, w)"
    with run have "?go err w = (x, v)" by (simp add: act_bind_def)
    then show ?thesis using f(2) by (cases err) auto
  qed
next
  case False
  then have "v = w" using assms unfolding run_step_def
    by (cases "py_get req ''step''"; cases "field req ''ip''"; cases "field req ''mac''"; cases "field req ''hostname''") simp_all
  then show ?thesis ..
qed

text \<open>C18: whatever a wizard request asks for, after the look-ups of the inventory it either runs nothing, or the
  address it names is none of those the inventory resolves to, and every command it then runs goes to that address,
  re-announces a known child, scans a host key, reads the neighbour table or asks a host for a sign of life.
\<close>

theorem wizard_spares_registered_addresses:
  assumes "run_step rp r env req w = (x, v)"
  shows "v = w \<or> (\<exists>ip qs cs. field req ''ip'' = Inr ip \<and> fw_calls v = fw_calls w @ qs @ cs \<and> list_all is_lookup qs
     \<and> (cs = [] \<or> (\<exists>iv u. resolve_inventory_ips r (inventory_of w (env_inventory env)) w = (Inr iv, u)
          \<and> ip \<notin> set (known_addresses iv) \<and> list_all (wizard_call ip (known_addresses iv)) cs)))"
  using run_step_cases [OF assms] wizard_step_ran unfolding wizard_ran_def by blast

definition ex_server :: server_env where
  "ex_server = \<lparr>se_take = ex_take_env, se_known_macs = ''known_macs.json'', se_ap_dev = ''wlan1''\<rparr>"

definition ex_step :: "string \<Rightarrow> string \<Rightarrow> pyval" where
  "ex_step step ip = PDict [(''step'', PStr step), (''ip'', PStr ip)]"

lemma wizard_spares_registered_addresses_witness:
  "\<exists>v. snd (run_step (\<lambda>_. []) ex_network ex_server (ex_step ''stop'' ''10.42.1.7'') ex_hub) = v
     \<and> (v = ex_hub \<or> (\<exists>qs cs. fw_calls v = fw_calls ex_hub @ qs @ cs \<and> list_all is_lookup qs))"
  using wizard_spares_registered_addresses [OF prod.collapse [symmetric],
      of "\<lambda>_. []" ex_network ex_server "ex_step ''stop'' ''10.42.1.7''" ex_hub] by blast


section \<open>The guard compares addresses only\<close>

lemma resolved_addresses: "resolve_entry r e w = (Inr (Some ip), v) \<Longrightarrow> looks_ipv4 ip"
proof -
  have "ssh_config_ip ls = Inr (Some ip) \<Longrightarrow> looks_ipv4 ip" for ls
    by (induction ls) (auto simp: Let_def split: if_splits)
  then show "resolve_entry r e w = (Inr (Some ip), v) \<Longrightarrow> looks_ipv4 ip"
    by (auto simp: resolve_entry_def act_bind_def split: prod.splits sum.splits list.splits if_splits)
qed

lemma set_dict_set: "x \<in> set (dict_set k v d) \<Longrightarrow> x \<in> set d \<or> snd x = v"
  by (induction d) (auto split: if_splits)

lemma known_addresses_ipv4:
  assumes "resolve_inventory_ips r es w = (Inr iv, u)" and "a \<in> set (known_addresses iv)"
  shows "looks_ipv4 a"
proof -
  have "\<forall>x \<in> set iv. \<forall>ip. snd x = Some ip \<longrightarrow> looks_ipv4 ip"
    if "resolve_into r es out w = (Inr iv, u)" "\<forall>x \<in> set out. \<forall>ip. snd x = Some ip \<longrightarrow> looks_ipv4 ip" for out
    using that
  proof (induction es arbitrary: out w)
    case (Cons e es)
    obtain y w' where y: "resolve_entry r e w = (Inr y, w')" "resolve_into r es (dict_set e y out) w' = (Inr iv, u)"
      using Cons.prems(1) by (auto elim: act_bind_InrE)
    have "\<forall>x \<in> set (dict_set e y out). \<forall>ip. snd x = Some ip \<longrightarrow> looks_ipv4 ip"
    proof (intro ballI allI impI)
      fix x ip assume x: "x \<in> set (dict_set e y out)" "snd x = Some ip"
      from set_dict_set [OF x(1)] show "looks_ipv4 ip"
        using x(2) Cons.prems(2) resolved_addresses [of r e w ip w'] y(1) by auto
    qed
    from Cons.IH [OF y(2) this] show ?case .
  qed simp
  with assms show ?thesis unfolding resolve_inventory_ips_def known_addresses_def
    by (force simp: map_filter_def split: option.splits if_splits)
qed

lemma server_inventory_readable:
  "\<not> fw_denied w (env_inventory env) \<Longrightarrow> server_inventory env w = (Inr (inventory_of w (env_inventory env)), w)"
proof -
  have "splitlines [] = []" by code_simp
  then show "\<not> fw_denied w (env_inventory env) \<Longrightarrow> ?thesis"
    by (auto simp: server_inventory_def act_bind_def read_file_def inventory_of_def parse_children_conf_def split: option.split)
qed

lemma blank_request:
  assumes "\<not> fw_denied w (env_inventory env)"
    and "resolve_inventory_ips r (inventory_of w (env_inventory env)) w = (Inr iv, u)" and "a \<noteq> []"
  shows "run_step rp r env (PDict [(''step'', PStr ''blank''), (''ip'', PStr a)]) w
    = (if a \<in> set (known_addresses iv) then (Inr (step_fail MsgAlreadyRegistered (Out [])), u) else blank_sta_no r a u)"
proof -
  have f: "py_get (PDict [(''step'', PStr ''blank''), (''ip'', PStr a)]) ''step'' = Inr (PStr ''blank'')"
    "field (PDict [(''step'', PStr ''blank''), (''ip'', PStr a)]) ''ip'' = Inr a"
    "field (PDict [(''step'', PStr ''blank''), (''ip'', PStr a)]) ''mac'' = Inr []"
    "field (PDict [(''step'', PStr ''blank''), (''ip'', PStr a)]) ''hostname'' = Inr []"
    using assms(3) by (simp_all add: field_def py_get_def dict_get_def py_truthy_def as_str_def)
  show ?thesis unfolding run_step_def f
    by (simp add: act_bind_def wizard_step_def server_inventory_readable [OF assms(1)] assms(2) run_provision_def)
qed

text \<open>C34: the guard of the wizard compares texts of addresses: a request to blank the stations that names a child of
  the inventory by its resolved address is refused without a command, and the same request with the child's own host
  name, which is no IPv4 address, runs the blanking on it.
\<close>

theorem registered_child_is_reached_by_name:
  assumes "\<not> fw_denied w (env_inventory env)"
    and "resolve_inventory_ips r (inventory_of w (env_inventory env)) w = (Inr iv, u)"
    and "a \<in> set (known_addresses iv)" and "e \<in> set (inventory_of w (env_inventory env))" and "\<not> looks_ipv4 e" "e \<noteq> []"
  shows "run_step rp r env (PDict [(''step'', PStr ''blank''), (''ip'', PStr a)]) w
      = (Inr (step_fail MsgAlreadyRegistered (Out [])), u)
    \<and> fw_calls (snd (run_step rp r env (PDict [(''step'', PStr ''blank''), (''ip'', PStr e)]) w))
      = fw_calls u @ [Ssh 8 True e (Sh BLANK_REMOTE) None]"
proof -
  have "looks_ipv4 a" by (rule known_addresses_ipv4 [OF assms(2,3)])
  moreover have "\<not> looks_ipv4 []" by code_simp
  ultimately have "a \<noteq> []" by auto
  moreover have "e \<notin> set (known_addresses iv)" using known_addresses_ipv4 [OF assms(2)] assms(5) by blast
  moreover have "fw_calls (snd (blank_sta_no r e u)) = fw_calls u @ [Ssh 8 True e (Sh BLANK_REMOTE) None]"
    by (simp add: blank_sta_no_def guarded_def captured_def ssh_new_def call_def act_catch_def act_bind_def split: sum.split)
  ultimately show ?thesis using blank_request [OF assms(1,2)] assms(3,6) by simp
qed

text \<open>A hub with one child, whose host name resolves.\<close>

definition ex_lookup :: runner where
  "ex_lookup h c = (case c of Getent _ \<Rightarrow> Inr ''10.42.1.7 zero2.local'' | _ \<Rightarrow> Inr [])"

definition ex_listed :: fleet_world where
  "ex_listed = \<lparr>fw_calls = [], fw_files = [''children.conf'' \<mapsto> ''zero2.local''], fw_denied = (\<lambda>_. False), fw_slept = 0\<rparr>"

lemma registered_child_is_reached_by_name_witness:
  "fw_calls (snd (run_step (\<lambda>_. []) ex_lookup ex_server (ex_step ''blank'' ''zero2.local'') ex_listed))
   = [Getent ''zero2.local'', Ssh 8 True ''zero2.local'' (Sh BLANK_REMOTE) None]"
proof -
  have i: "inventory_of ex_listed (env_inventory ex_server) = [''zero2.local'']" by code_simp
  have w: "words ''10.42.1.7 zero2.local'' = [''10.42.1.7'', ''zero2.local'']" "looks_ipv4 ''10.42.1.7''"
    "\<not> looks_ipv4 ''zero2.local''" "\<not> fw_denied ex_listed (env_inventory ex_server)" by (code_simp, code_simp, code_simp, code_simp)
  have rs: "resolve_inventory_ips ex_lookup (inventory_of ex_listed (env_inventory ex_server)) ex_listed
      = (Inr [(''zero2.local'', Some ''10.42.1.7'')], ex_listed\<lparr>fw_calls := [Getent ''zero2.local'']\<rparr>)"
    unfolding i resolve_inventory_ips_def
    by (simp add: resolve_entry_def call_def ex_lookup_def act_bind_def w ex_listed_def)
  have k: "''10.42.1.7'' \<in> set (known_addresses [(''zero2.local'', Some ''10.42.1.7'')])" by (simp add: known_addresses_def map_filter_def)
  from registered_child_is_reached_by_name [OF w(4) rs k _ w(3), of "\<lambda>_. []"] show ?thesis
    unfolding i ex_step_def by simp
qed

text \<open>A request body that is JSON but no object is not answered at all.\<close>

lemma list_request_escapes: "run_step rp r env (PList xs) w = (Inl AttributeError, w)"
  by (simp add: run_step_def py_get_def)

section \<open>The guards of a request\<close>

definition POST_PATHS :: "string set" where
  "POST_PATHS = {''/api/step'', ''/api/migrate/list'', ''/api/migrate/take'', ''/api/adopt''}"

text \<open>A POST runs a command, changes a file or waits only when its \<open>Host\<close> header is one of this server's own
  names, it carries the header no simple request can carry, its body is a JSON value, and its path is one of the four.
\<close>

theorem only_guarded_posts_act:
  assumes "do_POST rp port r rl env rq w = (x, v)"
  shows "v = w \<or> host_allowed port rq \<and> rq_csrf rq = Some ''1'' \<and> rq_path rq \<in> POST_PATHS
     \<and> (\<exists>n req. content_length rq = Inr n \<and> request_value (rq_read rq n) = Inr req)"
proof (cases "host_allowed port rq \<and> rq_csrf rq = Some ''1''")
  case True
  show ?thesis
  proof (cases "content_length rq")
    case (Inr n)
    show ?thesis
    proof (cases "request_value (rq_read rq n)")
      case req: (Inr req)
      show ?thesis
      proof (cases "rq_path rq \<in> POST_PATHS")
        case False
        with assms True Inr req have "v = w" by (auto simp: do_POST_def route_def Let_def POST_PATHS_def)
        then show ?thesis ..
      qed (use True Inr req in blast)
    next
      case (Inl e)
      with assms True Inr have "v = w" by (auto simp: do_POST_def split: if_splits)
      then show ?thesis ..
    qed
  next
    case (Inl e)
    with assms True have "v = w" by (auto simp: do_POST_def)
    then show ?thesis ..
  qed
next
  case False
  with assms have "v = w" by (auto simp: do_POST_def split: if_splits)
  then show ?thesis ..
qed

definition ex_post :: request where
  "ex_post = \<lparr>rq_path = ''/api/step'', rq_host = Some ''localhost:8090'', rq_csrf = None, rq_length = None,
     rq_read = (\<lambda>_. Utf8 [])\<rparr>"

lemma only_guarded_posts_act_witness:
  "snd (do_POST (\<lambda>_. []) 8090 ex_network ex_network ex_server ex_post ex_hub) = ex_hub"
proof -
  have h: "(rq_csrf ex_post = Some ''1'') = False" by (simp add: ex_post_def)
  from only_guarded_posts_act [OF prod.collapse [symmetric], of "\<lambda>_. []" 8090 ex_network ex_network ex_server ex_post ex_hub]
  show ?thesis unfolding h simp_thms .
qed

section \<open>The screen\<close>

text \<open>While an entry of the inventory is not found, nothing is offered for registration, and the reason is shown.\<close>

lemma blocked_offers_nothing:
  "fv_blocked (build_fleet_view rp ns iips st macs hub) \<noteq> [] \<Longrightarrow> fv_candidates (build_fleet_view rp ns iips st macs hub) = []"
proof -
  assume "fv_blocked (build_fleet_view rp ns iips st macs hub) \<noteq> []"
  then obtain r where r: "r \<in> set (classify ns iips macs)" "fr_kind r = Row_unresolved"
    by (auto simp: build_fleet_view_def Let_def filter_empty_conv)
  then obtain p where p: "p \<in> set iips" "fr_kind (classify_entry ns macs p) = Row_unresolved"
    by (auto simp: classify_def Let_def split: if_splits)
  have "fr_kind q \<noteq> Row_new" if q: "q \<in> set (classify ns iips macs)" for q
  proof
    assume "fr_kind q = Row_new"
    from classify_new_row [OF q this] have "\<And>e. e \<in> set iips \<Longrightarrow> fr_kind (classify_entry ns macs e) = Row_known" by blast
    from this [OF p(1)] p(2) show False by simp
  qed
  then show ?thesis by (simp add: build_fleet_view_def Let_def filter_empty_conv)
qed

text \<open>
  The stations are collected under the name each child reports. Two children that report one name, as a copied card
  leaves them, count as one host: the stations of the first are overwritten and no clash between the two is shown.
\<close>

lemma add_host_again:
  assumes "status_of_row st r1 = Some s1" and "status_of_row st r2 = Some s2"
    and "cs_id_names s1 \<noteq> []" and "cs_id_names s2 \<noteq> []"
    and "cs_hostname s1 = Some h" and "cs_hostname s2 = Some h" and "h \<noteq> []"
  shows "per_host_of st [r1, r2] = [(h, PDict (cs_id_names s2))]"
  using assms by (simp add: per_host_of_def add_host_def host_key_of_def or_name_def or_else_def)

lemma one_name_hides_a_clash:
  assumes "status_of_row st r1 = Some s1" and "status_of_row st r2 = Some s2"
    and "cs_id_names s1 = [(g, v)]" and "cs_id_names s2 = [(g', v)]"
    and "cs_hostname s1 = Some h" and "cs_hostname s2 = Some h" and "h \<noteq> []"
  shows "find_duplicate_stations rp (per_host_of st [r1, r2]) = []"
proof -
  have p: "per_host_of st [r1, r2] = [(h, PDict [(g', v)])]" using add_host_again [OF assms(1,2) _ _ assms(5-7)] assms(3,4) by simp
  have "station_labels rp [(h, PDict [(g', v)])]
      = filter (\<lambda>(t, _). t \<noteq> unassigned) [(triple_of rp v, h @ CHR '':'' # g')]"
    by (simp add: station_labels_def dict_keys_def host_value_def dict_get_def region_labels_def region_order_def region_value_def)
  then show ?thesis unfolding p by (simp add: find_duplicate_stations_def)
qed

section \<open>What gathering changes\<close>

lemma keeps_words [act_keeps]:
  "keeps P m \<Longrightarrow> (\<And>w ws. keeps P (f w ws)) \<Longrightarrow> keeps P (case xs of [] \<Rightarrow> m | w # ws \<Rightarrow> f w ws)"
  by (cases xs) simp_all

lemma keeps_pair [act_keeps]: "(\<And>x y. keeps P (f x y)) \<Longrightarrow> keeps P (case p of (x, y) \<Rightarrow> f x y)"
  by (cases p) simp

lemma keeps_save [act_keeps]: "f \<in> P \<Longrightarrow> keeps P (save_known_macs f d)"
  by (auto simp: keeps_def extends_def save_known_macs_def)

lemma keeps_collect [act_keeps]: "keeps P (collect_into r ips d)"
proof (induction ips arbitrary: d)
  case Nil
  show ?case unfolding collect_into.simps by (intro act_keeps)
next
  case (Cons ip ips)
  show ?case unfolding collect_into.simps collect_status_def ssh_known_def read_id_names_def by (intro act_keeps Cons)
qed

lemma keeps_resolve [act_keeps]: "keeps P (resolve_inventory_ips r es)"
proof -
  have "keeps P (resolve_into r es out)" for out
  proof (induction es arbitrary: out)
    case Nil
    show ?case unfolding resolve_into.simps by (intro act_keeps)
  next
    case (Cons e es)
    show ?case unfolding resolve_into.simps resolve_entry_def by (intro act_keeps Cons)
  qed
  then show ?thesis unfolding resolve_inventory_ips_def .
qed

lemma gather_writes_trusted_macs_only: "keeps {se_known_macs env} (gather rp r env)"
  unfolding gather_def server_inventory_def read_neighbors_def load_known_macs_def migrate_status_of_def load_ap_join_def
    env_value_def read_pubkey_def enrich_candidate_def Let_def
  by (intro act_keeps insertI1)

end
