(* ===== verification/Fleet_Cli.thy ===== *)
theory Fleet_Cli
  imports Fleet_Server
begin

text \<open>
  The command line of the fleet tools (\<open>child_cli.py\<close>): each command with what it prints as JSON and the exit code.
  The lines \<open>align\<close> writes to the standard error are left out.
\<close>

section \<open>Outputs\<close>

record align_row =
  al_entry :: string
  al_ok :: bool
  al_host :: string
  al_env :: string
  al_active :: string
  al_join_profile :: string
  al_message :: fleet_msg

text \<open>The summary of \<open>align\<close>; the message is made from the two lists, or from the number of rows when both are empty.\<close>

record align_summary =
  as_gw :: string
  as_rows :: "align_row list"
  as_failed :: "string list"
  as_quoted :: "string list"

datatype cli_out =
    Cli_usage
  | Cli_unknown string
  | Cli_no_args
  | Cli_status migrate_status
  | Cli_pubkey string
  | Cli_list list_payload
  | Cli_step step_result
  | Cli_candidates "candidate list"
  | Cli_suggest string
  | Cli_site_env
  | Cli_no_children string
  | Cli_align align_summary

text \<open>\<open>_emit\<close>: 0 when \<open>ok\<close> is true or missing, 1 otherwise.\<close>

definition cli_ok :: "cli_out \<Rightarrow> bool" where
  "cli_ok x = (case x of
      Cli_status _ \<Rightarrow> True | Cli_pubkey k \<Rightarrow> k \<noteq> [] | Cli_list p \<Rightarrow> lp_ok p | Cli_step s \<Rightarrow> sr_ok s
    | Cli_candidates _ \<Rightarrow> True | Cli_suggest _ \<Rightarrow> True | Cli_align s \<Rightarrow> as_failed s = [] | _ \<Rightarrow> False)"

definition emit :: "cli_out \<Rightarrow> (nat \<times> cli_out) act" where
  "emit x = act_return (if cli_ok x then 0 else 1, x)"

section \<open>Commands\<close>

definition cli_repo :: "server_env \<Rightarrow> string" where
  "cli_repo env = hp_repo (te_hub (se_take env))"

definition cmd_status :: "server_env \<Rightarrow> (nat \<times> cli_out) act" where
  "cmd_status env = act_bind (migrate_status_of (cli_repo env) (te_pubkey_path (se_take env))) (\<lambda>m. emit (Cli_status m))"

definition cmd_pubkey :: "server_env \<Rightarrow> (nat \<times> cli_out) act" where
  "cmd_pubkey env = act_bind (read_pubkey (te_pubkey_path (se_take env))) (\<lambda>k. emit (Cli_pubkey k))"

definition cmd_list :: "runner \<Rightarrow> server_env \<Rightarrow> string list \<Rightarrow> (nat \<times> cli_out) act" where
  "cmd_list rl env args = (case args of
      [] \<Rightarrow> emit Cli_no_args
    | h # _ \<Rightarrow> act_bind (list_children_payload rl (te_pubkey_path (se_take env)) (te_remote_inventory (se_take env)) h)
        (\<lambda>p. emit (Cli_list p)))"

definition hub_wait_fn :: "runner \<Rightarrow> server_env \<Rightarrow> string \<Rightarrow> step_result act" where
  "hub_wait_fn r env = wait_for_return r (se_ap_dev env) (ssh_alive r) WAIT_TIMEOUT"

definition cmd_take :: "runner \<Rightarrow> runner \<Rightarrow> server_env \<Rightarrow> string list \<Rightarrow> (nat \<times> cli_out) act" where
  "cmd_take r rl env args = (case args of
      h # e # _ \<Rightarrow> act_bind (take_child rl (hub_wait_fn r env) (se_take env) h e []) (\<lambda>s. emit (Cli_step s))
    | _ \<Rightarrow> emit Cli_no_args)"

definition cmd_candidates :: "runner \<Rightarrow> server_env \<Rightarrow> (nat \<times> cli_out) act" where
  "cmd_candidates r env =
    act_bind (server_inventory env) (\<lambda>entries.
    act_bind (resolve_inventory_ips r entries) (\<lambda>iv.
    act_bind (load_known_macs (se_known_macs env)) (\<lambda>known.
    act_bind (read_neighbors r (se_ap_dev env)) (\<lambda>ns.
    act_bind (act_map (enrich_candidate r)
        (map (\<lambda>row. (fr_mac row, fr_ip row)) (filter (\<lambda>row. fr_kind row = Row_new) (classify ns iv known)))) (\<lambda>cs.
      emit (Cli_candidates cs))))))"

definition hub_hostname :: "server_env \<Rightarrow> string act" where
  "hub_hostname env = act_bind (read_file (cli_repo env @ ''/site.env'')) (\<lambda>f. act_return (read_hub_hostname f))"

definition cmd_suggest :: "server_env \<Rightarrow> (nat \<times> cli_out) act" where
  "cmd_suggest env =
    act_bind (server_inventory env) (\<lambda>entries. act_bind (hub_hostname env) (\<lambda>hub.
      emit (Cli_suggest (suggest_hostname entries hub))))"

definition cmd_register :: "runner \<Rightarrow> server_env \<Rightarrow> string list \<Rightarrow> (nat \<times> cli_out) act" where
  "cmd_register r env args = (case args of
      ip # mac # new # _ \<Rightarrow>
        act_bind (server_inventory env) (\<lambda>es. case validate_hostname new es of
          Some err \<Rightarrow> emit (Cli_step (step_fail (MsgHost err) (Out [])))
        | None \<Rightarrow> act_bind (server_inventory env) (\<lambda>existing.
            act_bind (register_new_child r (hub_wait_fn r env) (te_hub (se_take env)) existing ip mac new) (\<lambda>s.
              emit (Cli_step s))))
    | _ \<Rightarrow> emit Cli_no_args)"

definition cmd_adopt :: "runner \<Rightarrow> server_env \<Rightarrow> string list \<Rightarrow> (nat \<times> cli_out) act" where
  "cmd_adopt r env args = (case args of
      [] \<Rightarrow> emit Cli_no_args
    | ip # _ \<Rightarrow> act_bind (server_inventory env) (\<lambda>existing.
        act_bind (adopt_keeping_identity r (te_hub (se_take env)) existing ip) (\<lambda>s. emit (Cli_step s))))"

definition align_row_of :: "string \<Rightarrow> step_result \<Rightarrow> align_row" where
  "align_row_of entry s = (let got = parse_align_output (out_text (sr_output s)) in
     \<lparr>al_entry = entry, al_ok = sr_ok s, al_host = rb got ''HOST_NOW'', al_env = rb got ''ENV_NOW'',
      al_active = rb got ''ACTIVE_NOW'', al_join_profile = rb got ''JOIN_PROFILE'', al_message = sr_message s\<rparr>)"

definition align_one :: "runner \<Rightarrow> string \<Rightarrow> string \<Rightarrow> align_row act" where
  "align_one rl gw entry = act_bind (align_send_target rl entry gw) (\<lambda>s. act_return (align_row_of entry s))"

definition align_all :: "runner \<Rightarrow> string \<Rightarrow> string list \<Rightarrow> (nat \<times> cli_out) act" where
  "align_all rl gw entries =
    act_bind (act_map (align_one rl gw) entries) (\<lambda>rows.
      emit (Cli_align \<lparr>as_gw = gw, as_rows = rows, as_failed = map al_entry (filter (\<lambda>a. \<not> al_ok a) rows),
        as_quoted = map al_entry (filter (\<lambda>a. al_join_profile a = ''quoted'') rows)\<rparr>))"

definition cmd_align :: "runner \<Rightarrow> server_env \<Rightarrow> string list \<Rightarrow> (nat \<times> cli_out) act" where
  "cmd_align rl env args =
    act_bind (try_gw (cli_repo env)) (\<lambda>g. case g of
        None \<Rightarrow> emit Cli_site_env
      | Some gw \<Rightarrow>
          act_bind (if args = [] then server_inventory env else act_return (map inventory_name args)) (\<lambda>entries.
            if entries = [] then emit (Cli_no_children gw) else align_all rl gw entries))"

definition cli_main :: "runner \<Rightarrow> runner \<Rightarrow> server_env \<Rightarrow> string list \<Rightarrow> (nat \<times> cli_out) act" where
  "cli_main r rl env argv = (case argv of
      [] \<Rightarrow> act_return (2, Cli_usage)
    | cmd # args \<Rightarrow>
        if cmd = ''-h'' \<or> cmd = ''--help'' then act_return (2, Cli_usage)
        else if cmd = ''status'' then cmd_status env
        else if cmd = ''pubkey'' then cmd_pubkey env
        else if cmd = ''list'' then cmd_list rl env args
        else if cmd = ''take'' then cmd_take r rl env args
        else if cmd = ''candidates'' then cmd_candidates r env
        else if cmd = ''suggest'' then cmd_suggest env
        else if cmd = ''register'' then cmd_register r env args
        else if cmd = ''adopt'' then cmd_adopt r env args
        else if cmd = ''align'' then cmd_align rl env args
        else emit (Cli_unknown cmd))"

section \<open>The exit code of \<open>align\<close>\<close>

lemma act_map_all:
  assumes "\<And>x w y v. f x w = (Inr y, v) \<Longrightarrow> P x y"
  shows "act_map f xs w = (Inr ys, v) \<Longrightarrow> list_all2 P xs ys"
proof (induction xs arbitrary: w ys)
  case (Cons x xs)
  obtain y u where y: "f x w = (Inr y, u)" and "act_bind (act_map f xs) (\<lambda>ys. act_return (y # ys)) u = (Inr ys, v)"
    using Cons.prems by (auto elim: act_bind_InrE)
  then obtain zs where "act_map f xs u = (Inr zs, v)" "ys = y # zs" by (auto elim!: act_bind_InrE)
  with Cons.IH assms [OF y] show ?case by simp
qed simp

text \<open>The verdicts of \<open>align_send_target\<close> on the children, one after the other; none when one of the calls raises.\<close>

fun align_verdicts :: "runner \<Rightarrow> string \<Rightarrow> string list \<Rightarrow> fleet_world \<Rightarrow> step_result list option" where
  "align_verdicts rl gw [] w = Some []"
| "align_verdicts rl gw (e # es) w = (case align_send_target rl e gw w of
      (Inr s, u) \<Rightarrow> map_option (Cons s) (align_verdicts rl gw es u)
    | _ \<Rightarrow> None)"

lemma align_rows_verdicts:
  "act_map (align_one rl gw) es w = (Inr rows, v) \<Longrightarrow>
   \<exists>ss. align_verdicts rl gw es w = Some ss \<and> length ss = length es \<and> rows = map2 align_row_of es ss"
proof (induction es arbitrary: w rows)
  case (Cons e es)
  obtain y u where y: "align_one rl gw e w = (Inr y, u)" and rest: "act_bind (act_map (align_one rl gw) es) (\<lambda>ys. act_return (y # ys)) u = (Inr rows, v)"
    using Cons.prems by (auto elim: act_bind_InrE)
  then obtain ys where ys: "act_map (align_one rl gw) es u = (Inr ys, v)" and rows: "rows = y # ys" by (auto elim!: act_bind_InrE)
  obtain s where s: "align_send_target rl e gw w = (Inr s, u)" and y: "y = align_row_of e s"
    using y unfolding align_one_def by (auto elim!: act_bind_InrE)
  from Cons.IH [OF ys] obtain ss where "align_verdicts rl gw es u = Some ss" "length ss = length es" "ys = map2 align_row_of es ss" by blast
  then show ?case unfolding rows y by (simp add: s)
qed simp

lemma align_rows_of:
  assumes "length ss = length es"
  shows "map al_entry (map2 align_row_of es ss) = es" and "map al_ok (map2 align_row_of es ss) = map sr_ok ss"
    and "map al_entry (filter (\<lambda>a. \<not> al_ok a) (map2 align_row_of es ss)) = map fst (filter (\<lambda>(_, s). \<not> sr_ok s) (zip es ss))"
    and "list_all al_ok (map2 align_row_of es ss) \<longleftrightarrow> list_all sr_ok ss"
  using assms by (induction es ss rule: list_induct2') (simp_all add: align_row_of_def Let_def)

text \<open>The children \<open>align\<close> works on.\<close>

definition align_targets :: "server_env \<Rightarrow> fleet_world \<Rightarrow> string list \<Rightarrow> string list" where
  "align_targets env w args = (if args = [] then inventory_of w (env_inventory env) else map inventory_name args)"

lemma try_gw_load: "try_gw repo w = (Inr g, v) \<Longrightarrow> v = w \<and> (case g of None \<Rightarrow> fst (load_ap_gw_ip repo w) = Inl ValueError
    | Some gw \<Rightarrow> fst (load_ap_gw_ip repo w) = Inr gw)"
  using try_gw_world [of repo w "Inr g" v]
  by (auto simp: try_gw_def act_catch_def act_bind_def split: prod.splits sum.splits if_splits)

text \<open>C33: \<open>align\<close> ends with exit code 0 exactly when this hub's address is readable, there are children to align, and
  \<open>align_send_target\<close>, run for every one of them in order with that address, said ok for each. What it prints lists
  all of them in that order, each with the verdict on it, and names exactly those that were not aligned as failed.
\<close>

theorem align_exits_zero_iff_all_aligned:
  assumes "cli_main r rl env (''align'' # args) w = (Inr (c, out), v)"
  shows "(c = 0 \<longleftrightarrow> (\<exists>gw ss. fst (load_ap_gw_ip (cli_repo env) w) = Inr gw \<and> align_targets env w args \<noteq> []
            \<and> align_verdicts rl gw (align_targets env w args) w = Some ss \<and> list_all sr_ok ss))
    \<and> (case out of
         Cli_align s \<Rightarrow> \<exists>ss. fst (load_ap_gw_ip (cli_repo env) w) = Inr (as_gw s)
             \<and> align_verdicts rl (as_gw s) (align_targets env w args) w = Some ss
             \<and> map al_entry (as_rows s) = align_targets env w args \<and> map al_ok (as_rows s) = map sr_ok ss
             \<and> as_failed s = map fst (filter (\<lambda>(_, s). \<not> sr_ok s) (zip (align_targets env w args) ss))
       | _ \<Rightarrow> c \<noteq> 0)"
proof -
  have run: "cmd_align rl env args w = (Inr (c, out), v)" using assms by (simp add: cli_main_def)
  then obtain g where g: "try_gw (cli_repo env) w = (Inr g, w)"
    unfolding cmd_align_def by (auto elim!: act_bind_InrE dest: try_gw_load)
  note load = conjunct2 [OF try_gw_load [OF g]]
  show ?thesis
  proof (cases g)
    case None
    with run g have "out = Cli_site_env" "c = 1" by (auto simp: cmd_align_def act_bind_def emit_def cli_ok_def)
    with load None show ?thesis by simp
  next
    case (Some gw)
    let ?es = "align_targets env w args"
    have "(if args = [] then server_inventory env else act_return (map inventory_name args)) w \<in> {(Inl OSError, w), (Inr ?es, w)}"
      using server_inventory_result [of env w] by (auto simp: align_targets_def)
    with run g Some have go: "(if ?es = [] then emit (Cli_no_children gw) else align_all rl gw ?es) w = (Inr (c, out), v)"
      by (auto simp: cmd_align_def act_bind_def)
    show ?thesis
    proof (cases "?es = []")
      case True
      with go have "out = Cli_no_children gw" "c = 1" by (auto simp: emit_def cli_ok_def)
      with True show ?thesis by simp
    next
      case False
      with go have "align_all rl gw ?es w = (Inr (c, out), v)" by simp
      then obtain rows u where rows: "act_map (align_one rl gw) ?es w = (Inr rows, u)"
        and out: "out = Cli_align \<lparr>as_gw = gw, as_rows = rows, as_failed = map al_entry (filter (\<lambda>a. \<not> al_ok a) rows),
          as_quoted = map al_entry (filter (\<lambda>a. al_join_profile a = ''quoted'') rows)\<rparr>" and c: "c = (if cli_ok out then 0 else 1)"
        unfolding align_all_def by (auto simp: emit_def elim!: act_bind_InrE)
      from align_rows_verdicts [OF rows] obtain ss where ss: "align_verdicts rl gw ?es w = Some ss"
        and l: "length ss = length ?es" and r: "rows = map2 align_row_of ?es ss" by blast
      have "cli_ok out \<longleftrightarrow> list_all al_ok rows"
        unfolding out by (simp add: cli_ok_def filter_empty_conv list_all_iff)
      then have ok: "cli_ok out \<longleftrightarrow> list_all sr_ok ss" unfolding r align_rows_of(4) [OF l] .
      have gw: "fst (load_ap_gw_ip (cli_repo env) w) = Inr gw" using load Some by simp
      note e = align_rows_of(1-3) [OF l, folded r]
      show ?thesis unfolding c using ok False ss gw by (simp add: out e del: map_map)
    qed
  qed
qed

definition ex_no_hub :: fleet_world where
  "ex_no_hub = \<lparr>fw_calls = [], fw_files = (\<lambda>_. None), fw_denied = (\<lambda>_. False), fw_slept = 0\<rparr>"

text \<open>A child that answers as the script makes it, and one that answers nothing.\<close>

definition ex_align_net :: runner where
  "ex_align_net h c = (case c of
      Ssh t n host s i \<Rightarrow> if host = ''zero2.local'' then ex_answer h c else Inr []
    | _ \<Rightarrow> Inr [])"

abbreviation ex_align :: "string list \<Rightarrow> (nat \<times> cli_out) py \<times> fleet_world" where
  "ex_align args \<equiv> cli_main ex_network ex_align_net ex_server (''align'' # args) ex_take_hub"

lemma ex_aligned_child:
  obtains s v where "align_send_target ex_align_net ''zero2.local'' ''10.42.1.1'' w = (Inr s, v)" and "sr_ok s"
proof -
  have "case align_send_target ex_align_net ''zero2.local'' ''10.42.1.1'' w of (Inr s, v) \<Rightarrow> sr_ok s | _ \<Rightarrow> False" by code_simp
  then show ?thesis using that by (auto split: prod.splits sum.splits)
qed

lemma ex_silent_child:
  obtains s v where "align_send_target ex_align_net ''zero3.local'' ''10.42.1.1'' w = (Inr s, v)" and "\<not> sr_ok s"
proof -
  have "case align_send_target ex_align_net ''zero3.local'' ''10.42.1.1'' w of (Inr s, v) \<Rightarrow> \<not> sr_ok s | _ \<Rightarrow> False" by code_simp
  then show ?thesis using that by (auto split: prod.splits sum.splits)
qed

lemma ex_align_run: "a # as = map inventory_name args \<Longrightarrow> ex_align args = align_all ex_align_net ''10.42.1.1'' (a # as) ex_take_hub"
proof -
  assume a: "a # as = map inventory_name args"
  have g: "try_gw (cli_repo ex_server) ex_take_hub = (Inr (Some ''10.42.1.1''), ex_take_hub)"
  proof -
    have "fst (try_gw (cli_repo ex_server) ex_take_hub) = Inr (Some ''10.42.1.1'')" by code_simp
    then show ?thesis using try_gw_world by (metis prod.collapse)
  qed
  from a have "args \<noteq> []" by auto
  then show ?thesis by (simp add: cli_main_def cmd_align_def act_bind_def g a [symmetric])
qed

lemma align_exits_zero_iff_all_aligned_witness:
  "(\<exists>out v. ex_align [''zero2''] = (Inr (0, out), v))
   \<and> (\<exists>c s v. ex_align [''zero2'', ''zero3''] = (Inr (c, Cli_align s), v) \<and> c \<noteq> 0 \<and> as_failed s = [''zero3.local''])"
proof
  have n: "inventory_name ''zero2'' = ''zero2.local''" "inventory_name ''zero3'' = ''zero3.local''" by (code_simp, code_simp)
  have gw: "fst (load_ap_gw_ip (cli_repo ex_server) ex_take_hub) = Inr ''10.42.1.1''" by code_simp
  obtain s v where s: "align_send_target ex_align_net ''zero2.local'' ''10.42.1.1'' ex_take_hub = (Inr s, v)" "sr_ok s"
    by (rule ex_aligned_child)
  obtain s' v' where s': "align_send_target ex_align_net ''zero3.local'' ''10.42.1.1'' v = (Inr s', v')" "\<not> sr_ok s'"
    by (rule ex_silent_child)
  have "\<exists>c out. ex_align [''zero2''] = (Inr (c, out), v)"
    using ex_align_run [of "''zero2.local''" "[]" "[''zero2'']"] n
    by (simp add: align_all_def align_one_def act_bind_def s(1) emit_def)
  then obtain c out where r: "ex_align [''zero2''] = (Inr (c, out), v)" by blast
  have "c = 0" using align_exits_zero_iff_all_aligned [OF r, THEN conjunct1] gw s by (simp add: align_targets_def n)
  with r show "\<exists>out v. ex_align [''zero2''] = (Inr (0, out), v)" by blast
  have "\<exists>c out. ex_align [''zero2'', ''zero3''] = (Inr (c, Cli_align out), v')"
    using ex_align_run [of "''zero2.local''" "[''zero3.local'']" "[''zero2'', ''zero3'']"] n
    by (simp add: align_all_def align_one_def act_bind_def s(1) s'(1) emit_def)
  then obtain c a where r: "ex_align [''zero2'', ''zero3''] = (Inr (c, Cli_align a), v')" by blast
  from align_exits_zero_iff_all_aligned [OF r] have "c \<noteq> 0" "as_failed a = [''zero3.local'']"
    using gw s s' by (simp_all add: align_targets_def n)
  with r show "\<exists>c s v. ex_align [''zero2'', ''zero3''] = (Inr (c, Cli_align s), v) \<and> c \<noteq> 0 \<and> as_failed s = [''zero3.local'']"
    by blast
qed

end
