(* ===== verification/Spec2Isabelle.thy ===== *)
theory Spec2Isabelle
  imports Bridge_Config Bridge_Main Detector_Steps Detector_Loop Child_Csv Monitor_Inbox Fleet_Cli
begin

text \<open>
  The presence logger: a detector with a camera publishes ENTER and EXIT events over MQTT, child
  devices publish finished rows of the table, a bridge stores both and merges them into Oracle, and a
  dashboard shows what goes through; the fleet tools register, adopt and migrate the child devices of a hub
  over SSH. This development models the logic of those programs in
  Isabelle/HOL, function by function, and proves what they promise each other.

  \<^bold>\<open>Parts and theories.\<close> Paths are under \<open>src/\<close>.

  \<^item> Python: \<open>Py_Prelude\<close> (exceptions as \<open>Inl\<close> of \<open>py_exc\<close>, sequencing with \<open>py_bind\<close>, lists), \<open>Py_Text\<close> (strings
    over the code points below 256), \<open>Py_Value\<close> (JSON and YAML values, dicts in insertion order), \<open>Py_Json\<close>
    (\<open>json.loads\<close> and \<open>json.dumps\<close> with their round trip), \<open>Py_Time\<close> (datetimes in microseconds, ISO texts and
    their order), \<open>Sha1\<close> (\<open>hashlib.sha1\<close> over 32-bit words).
  \<^item> SQL: \<open>Sql_Store\<close> (rows, \<open>INSERT OR IGNORE\<close>, \<open>UPDATE\<close>, \<open>ORDER BY\<close>, the loop of \<open>ring_evict\<close>; locale
    \<open>bounded_store\<close>) and \<open>Send_Loop\<close> (a loop over rows that an exception stops; locale \<open>send_loop\<close>).
  \<^item> Bridge, \<open>services/bridge/src\<close>: \<open>Inbox\<close> (\<open>inbox.py\<close>), \<open>Record_Inbox\<close> (\<open>record_inbox.py\<close>), \<open>Sender\<close> (\<open>sender.py\<close>),
    \<open>Record_Sender\<close> (\<open>record_sender.py\<close>), \<open>Retry_Policy\<close> (\<open>retry.py\<close>), \<open>Circuit_Breaker\<close>, \<open>Profile_Resolver\<close>,
    \<open>Network_Watcher\<close>, \<open>Time_Sync\<close> (\<open>time_watcher.py\<close>, \<open>time_correction.py\<close>), \<open>Bridge_Config\<close> (\<open>config.py\<close>),
    \<open>Oracle_Client\<close>, \<open>Oracle_Jdbc\<close> (with the adapter of \<open>main.py\<close>), \<open>Mqtt_Listener\<close> (with \<open>record.py\<close>), \<open>Liveness\<close>,
    \<open>Disk_Reclaim\<close>, \<open>Mqtt_File_Log\<close>, \<open>Bridge_Main\<close> (settings, callbacks and main loop of \<open>main.py\<close>).
  \<^item> Detector, \<open>services/detector/src\<close>: \<open>Presence_Fsm\<close> (\<open>fsm.py\<close>, \<open>inference.py\<close>), \<open>Detector_Buffer\<close> (\<open>buffer.py\<close>),
    \<open>Detector_Main\<close> (\<open>main.py\<close>, \<open>mqtt_client.py\<close>, \<open>time_source.py\<close>, \<open>config.py\<close>), \<open>Detector_Steps\<close> (the same
    statements one at a time, interleaved with ACKs and crashes), \<open>Detector_Loop\<close> (the settings, the frame loop and
    the end of \<open>main.py\<close>, \<open>camera.py\<close>). \<open>Config_Access\<close> holds what both main programs use to read their settings.
  \<^item> Child, \<open>child\<close>: \<open>Child_Ack\<close> (\<open>ack_delivery.py\<close>; locale \<open>transport\<close>), \<open>Child_Csv\<close> (\<open>child-csv-to-mqtt.py\<close>).
  \<^item> Dashboard, \<open>desktop/presence-tools/pipeline_monitor\<close>: \<open>Monitor\<close> (\<open>model.py\<close>, \<open>mqtt_tail.py\<close>, \<open>rollup.py\<close>,
    \<open>linker.py\<close>), \<open>Monitor_Inbox\<close> (\<open>inbox_reader.py\<close>, \<open>oracle_reader.py\<close>).
  \<^item> Fleet tools, \<open>fleet_ui\<close>: \<open>Fleet_Text\<close> (lines of inventories and settings, quoting for a shell and the words a
    shell makes of it), \<open>Fleet_Hostname\<close> (\<open>hostname.py\<close>), \<open>Fleet_Shell\<close> (the commands, the files, \<open>StepResult\<close>;
    \<open>run_cmd\<close>), \<open>Fleet_Discovery\<close> (\<open>discovery.py\<close>), \<open>Fleet_Send_Target\<close> (\<open>send_target.py\<close> and the script it runs on
    the child), \<open>Fleet_Provision\<close> (\<open>provision.py\<close>; locale \<open>return_waiter\<close>), \<open>Fleet_Migrate\<close> (\<open>migrate.py\<close>),
    \<open>Fleet_Status\<close> (\<open>collect.py\<close> and \<open>scripts/lib/sta_no_report.py\<close>), \<open>Fleet_Server\<close> (\<open>server.py\<close>), \<open>Fleet_Cli\<close>
    (\<open>child_cli.py\<close>).
  \<^item> This theory: the messages between the programs.

  \<^bold>\<open>State and effects.\<close> A class is a record, a table a list of rows in insertion order, a file the text or
  the lines it holds, a client what it published. An operation takes the state and returns it changed; one
  that can raise returns the state it leaves and the exception (\<open>'s run\<close>), so that what was written before an
  exception stays written. Clocks, random ids, the outcomes of commands, of HTTP requests and of the
  database driver are arguments. A thread of the MQTT client is either a list of inputs taken in at
  given points (\<open>Bridge_Main\<close>, \<open>Child_Ack\<close>) or a step that may come between any two others
  (\<open>Detector_Steps\<close>). The fleet tools are actions on \<open>fleet_world\<close>: the commands run so far, the files and the
  seconds slept; a runner answers each command from all that was run before, and may raise. Their Japanese
  messages are constructors of \<open>fleet_msg\<close> with the values the text shows. A value of another type than the code declares ends a run with \<open>TypeMismatch\<close>.

  \<^bold>\<open>What the lemmas show.\<close>

  \<^item> Stores: keys stay distinct, what an operation does to the row of a key and that it leaves the others
    alone, which rows are due, and that eviction reaches its bound and gives up the less needed rows first.
  \<^item> Senders: what a run does to each due row on every outcome of the MERGE, that ACKs are handed out only
    for rows that are marked sent, and that a received event waits in the inbox or is acknowledged whatever
    the history of messages and turns; what goes wrong with results that carry a text or no number.
  \<^item> Detector: events alternate and need their full streak of observations; what was published is on disk, what
    was acknowledged stays so, the buffer holds exactly the transitions the frames give the state machine, and the
    one order of steps in which an ACK is lost.
  \<^item> Child: a settled row of the ledger never changes, \<open>send\<close> comes back and publishes only when it is due, and a
    file leaves the outbox only with all its rows settled and without overwriting another.
  \<^item> Messages: what one program writes the next one reads, for events, records, ACKs and NACKs.
  \<^item> Liveness: the tracker and the dashboard refine the same specification, the last signal of a device.
  \<^item> Fleet: a device is offered as new only when no entry of the inventory can be it; the wizard runs nothing on a
    registered address (but its guard is passed by a host name); the Wi-Fi of a child is switched only after its
    new key was confirmed, and the old parent's inventory loses that child alone; the verdict on the send target
    agrees with what the script did on the child; stations that clash are reported; what is said of failed SSH
    commands. The rule sets \<open>act_keeps\<close>, \<open>act_issues\<close> and \<open>act_looks\<close> collect which files an action changes, which
    commands it runs, and that it changes nothing.
  \<^item> Configuration and texts: accepted profiles have the keys their mode needs, secrets are masked in logs, the
    texts of \<open>nmcli\<close> and of the container script are read back.

  \<^bold>\<open>Bounds and fuel.\<close> \<open>json_val\<close> recurses with fuel; \<open>json_loads\<close> gives the length of the text plus one, and
  \<open>json_loads_bound\<close> shows that it never runs out. The waiting loop of the child and its search for a free
  name are partial functions into \<open>option\<close>; both are proved to return. The wait for a rebooted child is \<open>(timeout + 4)
  div 5\<close> rounds of five seconds, the script waits for a new process \<open>RESTART_WAIT_TRIES\<close> times, and the search for a
  host name ends at 9999; these recursions are structural or have a measure. Integers are unbounded as in Python,
  those stored by SQLite are checked against 64 bits, SHA-1 and the subnet test compute on \<open>32 word\<close>. Floats are exact
  rationals: overflow of a power is modelled, rounding and NaN are not.

  \<^bold>\<open>Not modelled.\<close> The camera, the TensorFlow and MediaPipe backends and \<open>child/Picamera.py\<close>, which is image
  processing by libraries; \<open>child/web_server.py\<close>; the user interface of the dashboard; the HTML page and the sockets of
  the fleet server; the shells, SSH and \<open>nmcli\<close> behind the commands of the fleet tools, whose texts are modelled
  and whose effects are the parameter \<open>network\<close>, but for the script of \<open>send_target.py\<close>; the other scripts;
  log calls.
  Characters from 256 on appear only as parameters (marks in texts the programs print).
\<close>

section \<open>The detector and the bridge\<close>

text \<open>What the bridge reads from the message about a row of the detector's buffer.\<close>

definition payload_of_row :: "string \<Rightarrow> rat \<Rightarrow> pending_event \<Rightarrow> event_payload" where
  "payload_of_row dev score q =
     \<lparr>ep_event_id = pe_event_id q, ep_event_type = pe_event_type q, ep_mk_date = pe_mk_date q,
      ep_event_time_iso = (if pe_wall_synced q then Some (pe_created_at_iso q) else None),
      ep_monotonic_ns = pe_monotonic_ns q, ep_wall_clock_synced = pe_wall_synced q, ep_device_id = Some dev,
      ep_score = Some score, ep_schema_version = 1\<rparr>"

lemma as_str_opt_none [simp]: "as_str_opt (str_or_none s) = Inr s"
  by (cases s) (simp_all add: as_str_opt_def str_or_none_def)

lemma json_plain_str_or_none [simp]: "json_plain fr (str_or_none s)" "json_plain fr (str_or_null s)"
  by (cases s; simp add: str_or_none_def str_or_null_def)+

lemma event_message_plain:
  assumes "reads_float fr score"
  shows "json_plain fr (event_json i ty mk tm ns synced (PStr dev) score)"
  using assms by (simp add: event_json_def)

lemma event_message_read:
  assumes "reads_float fr score" and "dd_device_id d = PStr dev" and "pe_score q = Some score"
  shows "parse_event_payload (Utf8 (json_dumps False fr (build_resend_payload d q))) = Inr (payload_of_row dev score q)"
proof -
  have p: "build_resend_payload d q = event_json (pe_event_id q) (pe_event_type q) (pe_mk_date q)
      (if pe_wall_synced q then Some (pe_created_at_iso q) else None) (pe_monotonic_ns q) (pe_wall_synced q) (PStr dev) score"
    using assms by (simp add: build_resend_payload_def)
  have "decode_json (Utf8 (json_dumps False fr (build_resend_payload d q))) = Inr (build_resend_payload d q)"
    unfolding decode_json_def raw_bytes.case p by (rule json_loads_dumps [OF event_message_plain [OF assms(1)]])
  moreover have "missing_from REQUIRED_PAYLOAD_KEYS (build_resend_payload d q) = Inr []"
    unfolding p event_json_def missing_from_dict by (simp add: REQUIRED_PAYLOAD_KEYS_def dict_keys_def)
  ultimately show ?thesis
    by (simp add: parse_event_payload_def parse_event_data_def)
      (simp add: p event_json_def payload_of_row_def py_subscript_def dict_get_def py_int_def py_truthy_def as_str_def as_score_def,
       simp add: as_str_opt_def)
qed

lemma hub_event_stores:
  assumes "parse_event_payload raw = Inr p"
    and "rd_action (peek (nw_cached (br_network (hb_core h))) (br_resolver (hb_core h))) \<noteq> ADrop"
    and "sqlite_int_ok (ep_monotonic_ns p)" and "ep_event_type p = ''ENTER'' \<or> ep_event_type p = ''EXIT''"
  shows "\<exists>t. inbox_insert_received (received_event (nw_cached (br_network (hb_core h))) (isoformat now) p raw) (br_inbox (hb_core h)) = Inr t
    \<and> hub_event now raw h = (h\<lparr>hb_core := (hb_core h)\<lparr>br_inbox := t\<rparr>\<rparr>, None)"
proof -
  obtain t where "inbox_insert_received (received_event (nw_cached (br_network (hb_core h))) (isoformat now) p raw) (br_inbox (hb_core h)) = Inr t"
    using assms(3,4) by (simp add: inbox_insert_received_def received_event_def inbox_check_def sqlite_int_ok_def)
  with assms(1,2) show ?thesis by (simp add: hub_event_def on_core_def on_event_message_def on_event_def)
qed

text \<open>C11: a row of the detector's buffer, published as JSON, arrives in the inbox of the bridge with its
  type, its time or its clock reading, and its score, unless the policy drops events under the present
  SSID; an event the bridge already has is left as it is, and no other event is touched.\<close>

theorem detector_event_is_stored:
  assumes "buf_wf b" and "q \<in> set b" and "sqlite_int_ok (pe_monotonic_ns q)"
    and "dd_device_id d = PStr dev" and "pe_score q = Some score" and "reads_float fr score"
    and "rd_action (peek (nw_cached (br_network (hb_core h))) (br_resolver (hb_core h))) \<noteq> ADrop"
  shows "let raw = Utf8 (json_dumps False fr (build_resend_payload d q));
             (h', err) = hub_event now raw h
         in err = None \<and> inbox_get k (br_inbox (hb_core h')) =
           (case inbox_get k (br_inbox (hb_core h)) of
              Some e \<Rightarrow> Some e
            | None \<Rightarrow> if k = pe_event_id q
                then Some (received_event (nw_cached (br_network (hb_core h))) (isoformat now) (payload_of_row dev score q) raw)
                else None)"
proof -
  let ?raw = "Utf8 (json_dumps False fr (build_resend_payload d q))"
  note read = event_message_read [OF assms(6,4,5)]
  have "pe_event_type q = ''ENTER'' \<or> pe_event_type q = ''EXIT''"
    using assms(1,2) by (auto simp: buf_wf_def buf_check_def)
  then have "ep_event_type (payload_of_row dev score q) = ''ENTER'' \<or> ep_event_type (payload_of_row dev score q) = ''EXIT''"
    and "sqlite_int_ok (ep_monotonic_ns (payload_of_row dev score q))"
    using assms(3) by (simp_all add: payload_of_row_def)
  then obtain t where t: "inbox_insert_received (received_event (nw_cached (br_network (hb_core h))) (isoformat now)
        (payload_of_row dev score q) ?raw) (br_inbox (hb_core h)) = Inr t"
    and h': "hub_event now ?raw h = (h\<lparr>hb_core := (hb_core h)\<lparr>br_inbox := t\<rparr>\<rparr>, None)"
    using hub_event_stores [OF read assms(7), of now] by blast
  show ?thesis
    unfolding Let_def h' using inbox_insert_get [OF t, of k]
    by (simp add: received_event_def payload_of_row_def)
qed

lemma example_score: "reads_float (\<lambda>_. ''0.9'') (9 / 10)"
proof -
  have zero: "nat_text 0 = ''0''" and nine: "digits_value ''09'' = 9" by code_simp+
  show ?thesis
    by (rule reads_decimal [where a = 0 and ds = "''9''"])
      (simp_all only: zero append_Cons append_Nil nine, simp_all add: is_digit_def digit_val_def pow10_def)
qed

theorem detector_event_is_stored_witness:
  "let q = (example_pending ''a'' Pending)\<lparr>pe_score := Some (9 / 10)\<rparr>;
       raw = Utf8 (json_dumps False (\<lambda>_. ''0.9'') (build_resend_payload example_detector_deps q));
       (h', err) = hub_event example_now raw example_hub
   in err = None \<and> inbox_get ''a'' (br_inbox (hb_core h'))
        = Some (received_event None (isoformat example_now) (payload_of_row ''pi'' (9 / 10) q) raw)"
proof -
  let ?q = "(example_pending ''a'' Pending)\<lparr>pe_score := Some (9 / 10)\<rparr>"
  let ?raw = "Utf8 (json_dumps False (\<lambda>_. ''0.9'') (build_resend_payload example_detector_deps ?q))"
  have cached: "nw_cached (br_network (hb_core example_hub)) = None"
    by (simp add: example_hub_def example_bridge_def new_network_watcher_def)
  have none: "inbox_get ''a'' (br_inbox (hb_core example_hub)) = None"
    by (simp add: example_hub_def example_bridge_def inbox_get_def example_event_def)
  have id: "pe_event_id ?q = ''a''" by (simp add: example_pending_def)
  have "let raw = ?raw; (h', err) = hub_event example_now raw example_hub
      in err = None \<and> inbox_get ''a'' (br_inbox (hb_core h')) =
        (case inbox_get ''a'' (br_inbox (hb_core example_hub)) of Some e \<Rightarrow> Some e
         | None \<Rightarrow> if ''a'' = pe_event_id ?q
             then Some (received_event (nw_cached (br_network (hb_core example_hub))) (isoformat example_now) (payload_of_row ''pi'' (9 / 10) ?q) raw)
             else None)"
    by (rule detector_event_is_stored [where b = "[?q]"])
      (simp_all add: example_score example_detector_deps_def example_pending_def buf_wf_def buf_check_def sqlite_int_ok_def
        example_hub_def example_bridge_def new_network_watcher_def peek_def known_ssid_def unknown_decision_def)
  then show ?thesis unfolding Let_def none cached id by simp
qed

text \<open>What the message of an answer decodes to.\<close>

definition decoded :: "raw_bytes \<Rightarrow> pyval option" where
  "decoded raw = (case decode_json raw of Inl _ \<Rightarrow> None | Inr v \<Rightarrow> Some v)"

definition ack_bytes :: "(rat \<Rightarrow> string) \<Rightarrow> string \<Rightarrow> string option \<Rightarrow> string option \<Rightarrow> raw_bytes" where
  "ack_bytes fr i mk ts = Utf8 (json_dumps True fr (ack_body i mk ts))"

definition nack_bytes :: "(rat \<Rightarrow> string) \<Rightarrow> string \<Rightarrow> string \<Rightarrow> string \<Rightarrow> raw_bytes" where
  "nack_bytes fr i reason failed = Utf8 (json_dumps True fr (nack_body i reason failed))"

lemma decode_answers [simp]:
  "decode_json (ack_bytes fr i mk ts) = Inr (ack_body i mk ts)"
  "decode_json (nack_bytes fr i reason failed) = Inr (nack_body i reason failed)"
proof -
  have "json_plain fr (ack_body i mk ts)" by (simp add: ack_body_def)
  then show "decode_json (ack_bytes fr i mk ts) = Inr (ack_body i mk ts)"
    unfolding decode_json_def ack_bytes_def raw_bytes.case by (rule json_loads_dumps)
  have "json_plain fr (nack_body i reason failed)" by (simp add: nack_body_def)
  then show "decode_json (nack_bytes fr i reason failed) = Inr (nack_body i reason failed)"
    unfolding decode_json_def nack_bytes_def raw_bytes.case by (rule json_loads_dumps)
qed

text \<open>The ACK the bridge sends for an event, read by the detector, marks that event acknowledged and
  changes nothing else.\<close>

theorem ack_reaches_detector:
  assumes "i \<noteq> []" and "mk \<noteq> []"
  shows "ack_message (decoded (ack_bytes fr i (Some mk) ts)) s = (s\<lparr>dt_buf := buf_mark_acked i (dt_buf s)\<rparr>, None)
    \<and> buf_get k (buf_mark_acked i (dt_buf s)) = map_option (\<lambda>r. if k = i then r\<lparr>pe_status := Acked\<rparr> else r) (buf_get k (dt_buf s))"
proof -
  have "ack_message (decoded (ack_bytes fr i (Some mk) ts)) s = (s\<lparr>dt_buf := buf_mark_acked i (dt_buf s)\<rparr>, None)"
    using assms by (simp add: decoded_def ack_message_def ack_body_def str_or_null_def py_get_def dict_get_def py_truthy_def)
  then show ?thesis by (cases "k = i") (simp_all add: buf_update_get option.map_ident)
qed

theorem ack_reaches_detector_witness:
  "ack_message (decoded (ack_bytes (\<lambda>_. []) ''e1'' (Some ''20260101000000'') None)) example_detector
     = (example_detector\<lparr>dt_buf := buf_mark_acked ''e1'' (dt_buf example_detector)\<rparr>, None)"
  by (rule ack_reaches_detector [THEN conjunct1]) simp_all

section \<open>The bridge and the child devices\<close>

lemma ack_body_get:
  "py_get (ack_body i mk ts) ''event_id'' = Inr (PStr i)"
  "py_get (ack_body i mk ts) ''mk_date_committed'' = Inr (str_or_null mk)"
  "py_get (ack_body i mk ts) ''committed_at'' = Inr PNone"
  by (simp_all add: ack_body_def py_get_def dict_get_def)

lemma nack_body_get:
  "py_get (nack_body i reason failed) ''event_id'' = Inr (PStr i)"
  "py_get (nack_body i reason failed) ''reason'' = Inr (PStr reason)"
  "py_get (nack_body i reason failed) ''failed_at_iso'' = Inr (PStr failed)"
  by (simp_all add: nack_body_def py_get_def dict_get_def)

lemma child_ack:
  assumes "store_get (ac_destination c) i (se_store s) = Inr (Some (r, v))" and "dl_status r = DPending" and "i \<noteq> []"
    and "dl_mk_date r = mk"
  shows "on_message c False (ack_topic c) (ack_bytes fr i (Some mk) ts) s
    = (s\<lparr>se_store := store_mark_acked (ac_destination c) i None (se_store s)\<rparr>, None)"
  using assms by (simp add: on_message_def handle_ack_def ack_body_get py_truthy_def as_str_def as_str_opt_def str_or_null_def)

lemma child_nack:
  assumes "store_get (ac_destination c) i (se_store s) = Inr (Some (r, v))" and "dl_status r = DPending" and "i \<noteq> []"
    and "se_nack_enabled s" and "failed \<noteq> []"
  shows "on_message c False (nack_topic c) (nack_bytes fr i reason failed) s
    = (s\<lparr>se_store := fst (store_mark_nacked (ac_destination c) i reason (Some failed) (se_store s))\<rparr>, None)"
  using assms by (simp add: on_message_def ack_topic_def nack_topic_def handle_nack_def nack_body_get py_truthy_def
      as_str_def as_str_opt_def py_str_def)

text \<open>C22: the answers of the bridge settle the row of a child's ledger: an ACK for the time the row has
  makes it acknowledged, with no time of the commit, because the bridge writes that time under another
  key than the child reads; a NACK makes it rejected with the reason and the time given.\<close>

theorem bridge_answers_settle_record:
  assumes "store_get (ac_destination c) i (se_store s) = Inr (Some (r, v))" and "dl_status r = DPending" and "i \<noteq> []"
    and "se_nack_enabled s" and "failed \<noteq> []"
  shows "store_find (ac_destination c) i (se_store (fst (on_message c False (ack_topic c) (ack_bytes fr i (Some (dl_mk_date r)) ts) s)))
        = Some (r\<lparr>dl_status := DAcked, dl_acked_at := None\<rparr>)
    \<and> store_find (ac_destination c) i (se_store (fst (on_message c False (nack_topic c) (nack_bytes fr i reason failed) s)))
        = Some (r\<lparr>dl_status := DNacked, dl_nack_reason := Some reason, dl_nacked_at := Some failed\<rparr>)"
  using store_get_find [OF assms(1)] store_find_key [OF store_get_find [OF assms(1)]]
  by (simp add: child_ack [OF assms(1-3) refl] child_nack [OF assms] store_find_ops assms(2))

theorem bridge_answers_settle_record_witness:
  "store_find ''hub:1883/r'' ''e1'' (se_store (fst (on_message example_ack_config False ''r/ack''
       (ack_bytes (\<lambda>_. []) ''e1'' (Some ''20260101000000'') (Some ''2026-01-01T00:00:00.000+09:00''))
       ((example_session DPending)\<lparr>se_nack_enabled := True\<rparr>))))
     = Some ((example_delivery DPending)\<lparr>dl_status := DAcked, dl_acked_at := None\<rparr>)"
proof -
  let ?s = "(example_session DPending)\<lparr>se_nack_enabled := True\<rparr>"
  have get: "store_get (ac_destination example_ack_config) ''e1'' (se_store ?s) = Inr (Some (example_delivery DPending, PDict example_rec))"
    using example_get [of DPending] by (simp add: example_ack_config_def example_session_def)
  have mk: "dl_mk_date (example_delivery DPending) = ''20260101000000''" by (simp add: example_delivery_def new_delivery_def)
  show ?thesis
    using bridge_answers_settle_record [OF get example_status, of "''x''" "\<lambda>_. []" "Some ''2026-01-01T00:00:00.000+09:00''" "[]"]
    by (simp add: mk example_ack_config_def ack_topic_def)
qed

end
